(* ===== verification/Prelude.thy ===== *)
theory Prelude
  imports Main "HOL-Library.Word" "HOL-Library.Monad_Syntax"
begin

unbundle bit_operations_syntax

text \<open>
  Shared vocabulary of the development: the byte and message types of \<open>impl/types.h\<close>, the
  C++ exceptions of \<open>tinch_pp/exceptions.h\<close> together with the other ways a call can fail to
  return, the result type that carries them, and the generic lemmas on words, bytes and
  lists that the component theories share. The collections \<open>wire\<close> (how bytes are laid
  out) and \<open>chain\<close> (how results are threaded) are filled by the later theories.
\<close>

section \<open>Collections\<close>

named_theorems wire \<open>layout of values on the wire\<close>
named_theorems chain \<open>threading of results through calls\<close>

section \<open>Bytes, messages and strings\<close>

type_synonym byte = "8 word"
type_synonym u16 = "16 word"
type_synonym u32 = "32 word"

text \<open>\<open>msg_seq\<close> of \<open>impl/types.h\<close>: a \<open>std::vector<char>\<close>, of which the bytes matter.\<close>

type_synonym msg_seq = "byte list"

text \<open>A \<open>std::string\<close> is a sequence of chars; the two views of a char and their bijection.\<close>

definition byte_of :: "char \<Rightarrow> byte" where
  "byte_of c = word_of_nat (of_char c)"

definition char_of_byte :: "byte \<Rightarrow> char" where
  "char_of_byte b = char_of (unat b)"

definition bytes_of :: "string \<Rightarrow> msg_seq" where
  "bytes_of s = map byte_of s"

definition string_of :: "msg_seq \<Rightarrow> string" where
  "string_of bs = map char_of_byte bs"

lemma unat_byte_of: "unat (byte_of c) = of_char c"
  by (simp add: byte_of_def unat_of_nat)

lemma char_of_byte_of [simp]: "char_of_byte (byte_of c) = c"
  by (simp add: char_of_byte_def unat_byte_of)

lemma byte_of_char_of [simp]: "byte_of (char_of_byte b) = b"
proof -
  have "unat b < 256" using unsigned_less [of b] by simp
  then show ?thesis by (simp add: byte_of_def char_of_byte_def)
qed

lemma string_of_bytes_of [simp]: "string_of (bytes_of s) = s"
  by (simp add: string_of_def bytes_of_def comp_def)

lemma bytes_of_string_of [simp]: "bytes_of (string_of bs) = bs"
  by (simp add: string_of_def bytes_of_def comp_def)

lemma length_bytes_of [simp]: "length (bytes_of s) = length s"
  by (simp add: bytes_of_def)

lemma bytes_of_inject [simp]: "bytes_of s = bytes_of t \<longleftrightarrow> s = t"
  by (metis string_of_bytes_of)

lemma bytes_of_Nil_iff [simp]: "bytes_of s = [] \<longleftrightarrow> s = []"
  by (simp add: bytes_of_def)

section \<open>Failures as values\<close>

text \<open>The value of a pid (\<open>impl/types.h\<close>, \<open>struct e_pid\<close>).\<close>

record e_pid =
  node_name :: string
  id_of :: u32
  serial_of :: u32
  creation_of :: u32

text \<open>
  \<open>tinch_pp/exceptions.h\<close>: every class of the hierarchy is a constructor. The last three are
  the outcomes that are no exception: a read outside its range, an \<open>assert\<close> that does not
  hold, and a model that ran out of fuel (excluded by a lemma wherever fuel is used).
\<close>

datatype cpp_error =
    Tinch_pp_exception string
  | Connection_io_error string string
  | Mailbox_receive_tmo
  | Link_broken string e_pid
  | Encoding_error string string
  | Undefined_behaviour
  | Assert_failed
  | Out_of_fuel

type_synonym 'a result = "cpp_error + 'a"

text \<open>
  What a client reads from an exception (\<open>exceptions.cpp\<close>): \<open>what()\<close>, with the prefix that the base class
  adds, and the members \<open>node()\<close>, \<open>reason()\<close>, \<open>broken_pid()\<close> and \<open>term()\<close> of the subclasses. \<open>None\<close> is
  what the class does not have.
\<close>

definition base_reason :: "string \<Rightarrow> string" where
  "base_reason a_reason = ''tinch++ exception: '' @ a_reason"

fun what :: "cpp_error \<Rightarrow> string option" where
  "what (Tinch_pp_exception a_reason) = Some (base_reason a_reason)"
| "what (Connection_io_error reason a_node_name) = Some (base_reason reason)"
| "what Mailbox_receive_tmo = Some (base_reason ''Timed out (user requested) while waiting for a message to arrive.'')"
| "what (Link_broken reason pid) = Some (base_reason ''Link to remote process broken.'')"
| "what (Encoding_error failed_term details) =
     Some (base_reason (''Failed to encode the term '' @ failed_term @ ''. Reason: '' @ details))"
| "what e = None"

definition failed_node :: "cpp_error \<Rightarrow> string option" where
  "failed_node e = (case e of Connection_io_error reason a_node_name \<Rightarrow> Some a_node_name | _ \<Rightarrow> None)"

definition broken_link :: "cpp_error \<Rightarrow> (string \<times> e_pid) option" where
  "broken_link e = (case e of Link_broken reason pid \<Rightarrow> Some (reason, pid) | _ \<Rightarrow> None)"

definition failed_term :: "cpp_error \<Rightarrow> string option" where
  "failed_term e = (case e of Encoding_error failed_term details \<Rightarrow> Some failed_term | _ \<Rightarrow> None)"

text \<open>All exceptions carry the prefix, and the text of a broken link does not tell which.\<close>

lemma what_prefix: "what e = Some text \<Longrightarrow> take 19 text = ''tinch++ exception: ''"
  by (cases e) (auto simp: base_reason_def)

lemma broken_link_silent: "what (Link_broken reason pid) = what (Link_broken reason' pid')"
  by simp

text \<open>Sequencing of calls: the first failure is the result of the whole.\<close>

fun and_then :: "'a result \<Rightarrow> ('a \<Rightarrow> 'b result) \<Rightarrow> 'b result" where
  "and_then (Inl e) k = Inl e"
| "and_then (Inr x) k = k x"

lemma and_then_Inr_iff [chain]: "and_then m k = Inr y \<longleftrightarrow> (\<exists>x. m = Inr x \<and> k x = Inr y)"
  by (cases m) auto

lemma and_then_Inl_iff: "and_then m k = Inl e \<longleftrightarrow> m = Inl e \<or> (\<exists>x. m = Inr x \<and> k x = Inl e)"
  by (cases m) auto

lemma and_then_assoc [chain]: "and_then (and_then m k) h = and_then m (\<lambda>x. and_then (k x) h)"
  by (cases m) auto

section \<open>Words and big-endian bytes\<close>

lemma length_2_cases: "length s < 2 \<longleftrightarrow> s = [] \<or> (\<exists>a. s = [a])"
  by (cases s) (auto simp: length_Suc_conv)

text \<open>
  A big-endian reading of two and of four bytes, and the bytes of a value; the round trip in
  both directions is a comparison of bits.
\<close>

definition be16 :: "byte \<Rightarrow> byte \<Rightarrow> u16" where
  "be16 a b = (push_bit 8 (ucast a) OR ucast b)"

definition be32 :: "byte \<Rightarrow> byte \<Rightarrow> byte \<Rightarrow> byte \<Rightarrow> u32" where
  "be32 a b c d =
     (push_bit 24 (ucast a) OR push_bit 16 (ucast b) OR push_bit 8 (ucast c) OR ucast d)"

definition be16_bytes :: "u16 \<Rightarrow> msg_seq" where
  "be16_bytes w = [ucast (drop_bit 8 w), ucast w]"

definition be32_bytes :: "u32 \<Rightarrow> msg_seq" where
  "be32_bytes w = [ucast (drop_bit 24 w), ucast (drop_bit 16 w), ucast (drop_bit 8 w), ucast w]"

lemma be16_of_bytes [simp]: "be16 (ucast (drop_bit 8 w)) (ucast w) = w"
proof (rule bit_word_eqI)
  fix n assume "n < LENGTH(16)"
  then show "bit (be16 (ucast (drop_bit 8 w)) (ucast w)) n = bit w n"
    by (auto simp: be16_def bit_simps)
qed

lemma be32_of_bytes [simp]:
  "be32 (ucast (drop_bit 24 w)) (ucast (drop_bit 16 w)) (ucast (drop_bit 8 w)) (ucast w) = w"
proof (rule bit_word_eqI)
  fix n assume "n < LENGTH(32)"
  then consider "n < 8" | "8 \<le> n" "n < 16" | "16 \<le> n" "n < 24" | "24 \<le> n" "n < 32"
    by fastforce
  then show "bit (be32 (ucast (drop_bit 24 w)) (ucast (drop_bit 16 w)) (ucast (drop_bit 8 w)) (ucast w)) n
      = bit w n"
    by cases (auto simp: be32_def bit_simps)
qed

lemma length_be16_bytes [simp]: "length (be16_bytes w) = 2"
  by (simp add: be16_bytes_def)

lemma length_be32_bytes [simp]: "length (be32_bytes w) = 4"
  by (simp add: be32_bytes_def)

lemma unat_of_nat_u16 [simp]: "n < 65536 \<Longrightarrow> unat (of_nat n :: u16) = n"
  by (simp add: unat_of_nat)

lemma unat_of_nat_u32 [simp]: "n < 4294967296 \<Longrightarrow> unat (of_nat n :: u32) = n"
  by (simp add: unat_of_nat)

lemma unat_of_nat_byte [simp]: "n < 256 \<Longrightarrow> unat (of_nat n :: byte) = n"
  by (simp add: unat_of_nat)

lemma ucast_u32_byte_roundtrip:
  fixes w :: u32
  assumes "w < 256"
  shows "ucast (ucast w :: byte) = w"
proof -
  have "unat w mod 256 = unat w" using assms by (simp add: word_less_nat_alt)
  then show ?thesis by (simp add: word_unat_eq_iff unsigned_ucast_eq take_bit_eq_mod unat_mod)
qed

end
