(* ===== verification/Platform.thy ===== *)
theory Platform
  imports Prelude
begin

text \<open>
  What the sources rely on and do not contain. All binary formats of tinch++ are written as
  Boost.Spirit grammars (Qi for parsing, Karma for generating); Boost, the decimal
  conversion \<open>boost::lexical_cast\<close>, the floating point formatting and the choice whether
  \<open>char\<close> is signed belong to the platform. They are the fields of the record \<open>platform\<close>,
  an argument of every definition that uses them. The locale \<open>spirit\<close> states the documented
  behaviour of the Spirit primitives, \<open>documented_platform\<close> is a platform that has it.
  The EBNF operators of the grammars (\<open>>>\<close>, \<open>|\<close>, \<open>repeat\<close>, \<open>+\<close>, \<open>*\<close>) are the
  sequencing, choice and iteration defined here over those primitives.
\<close>

section \<open>The platform\<close>

text \<open>A double is carried as its 64 bits; only the platform computes with it.\<close>

type_synonym double = "64 word"

type_synonym 'a parser = "msg_seq \<Rightarrow> ('a \<times> msg_seq) option"

record platform =
  qi_byte :: "byte parser"
  qi_char :: "char parser"
  qi_big_word :: "u16 parser"
  qi_big_dword :: "u32 parser"
  karma_byte :: "byte \<Rightarrow> msg_seq"
  karma_char :: "char \<Rightarrow> msg_seq"
  karma_big_word :: "u16 \<Rightarrow> msg_seq"
  karma_big_dword :: "u32 \<Rightarrow> msg_seq"
  char_is_signed :: bool
  lexical_cast :: "int \<Rightarrow> string"
  format_20e :: "double \<Rightarrow> string"
  sscanf_lf :: "string \<Rightarrow> double option"
  doubles_close :: "double \<Rightarrow> double \<Rightarrow> bool"
  indeterminate_double :: double
  indeterminate_int :: u32

text \<open>
  The value an expression of type \<open>char\<close> has when it is promoted to \<open>int\<close>: sign-extended
  where \<open>char\<close> is signed, zero-extended where it is not.
\<close>

definition char_to_int :: "platform \<Rightarrow> byte \<Rightarrow> int" where
  "char_to_int pf b = (if char_is_signed pf then sint b else uint b)"

section \<open>Grammar operators\<close>

text \<open>\<open>byte_(tag)\<close> and \<open>big_word(n)\<close>: the literal must be there.\<close>

definition qi_byte_lit :: "platform \<Rightarrow> byte \<Rightarrow> unit parser" where
  "qi_byte_lit pf tag s =
     (case qi_byte pf s of
        Some (b, r) \<Rightarrow> if b = tag then Some ((), r) else None
      | None \<Rightarrow> None)"

definition qi_big_word_lit :: "platform \<Rightarrow> u16 \<Rightarrow> unit parser" where
  "qi_big_word_lit pf n s =
     (case qi_big_word pf s of
        Some (w, r) \<Rightarrow> if w = n then Some ((), r) else None
      | None \<Rightarrow> None)"

text \<open>\<open>repeat(n)[p]\<close>: exactly \<open>n\<close> times.\<close>

fun qi_repeat :: "nat \<Rightarrow> 'a parser \<Rightarrow> 'a list parser" where
  "qi_repeat 0 p s = Some ([], s)"
| "qi_repeat (Suc n) p s =
     (case p s of
        None \<Rightarrow> None
      | Some (x, r) \<Rightarrow>
          (case qi_repeat n p r of
             None \<Rightarrow> None
           | Some (xs, r') \<Rightarrow> Some (x # xs, r')))"

text \<open>
  \<open>*p\<close>: as long as \<open>p\<close> matches; the first argument bounds the rounds. The grammars use it
  for \<open>char_\<close> only, which consumes a byte each time, so the length of the input is enough
  (\<open>spirit.qi_many_char\<close>). \<open>+p\<close> wants at least one.
\<close>

fun qi_many :: "nat \<Rightarrow> 'a parser \<Rightarrow> 'a list parser" where
  "qi_many 0 p s = Some ([], s)"
| "qi_many (Suc n) p s =
     (case p s of
        None \<Rightarrow> Some ([], s)
      | Some (x, r) \<Rightarrow>
          (case qi_many n p r of
             None \<Rightarrow> None
           | Some (xs, r') \<Rightarrow> Some (x # xs, r')))"

definition qi_plus :: "'a parser \<Rightarrow> 'a list parser" where
  "qi_plus p s =
     (case p s of
        None \<Rightarrow> None
      | Some (x, r) \<Rightarrow>
          (case qi_many (length s) p r of
             None \<Rightarrow> None
           | Some (xs, r') \<Rightarrow> Some (x # xs, r')))"

text \<open>\<open>p | q\<close>: the first that matches.\<close>

definition qi_alt :: "'a parser \<Rightarrow> 'a parser \<Rightarrow> 'a parser" where
  "qi_alt p q s = (case p s of None \<Rightarrow> q s | Some r \<Rightarrow> Some r)"

text \<open>Karma's \<open>*g\<close> and \<open>string\<close> write every element; \<open>repeat(n)[g]\<close> fails on fewer than \<open>n\<close>.\<close>

definition karma_many :: "('a \<Rightarrow> msg_seq) \<Rightarrow> 'a list \<Rightarrow> msg_seq" where
  "karma_many g xs = concat (map g xs)"

definition karma_repeat :: "nat \<Rightarrow> ('a \<Rightarrow> msg_seq) \<Rightarrow> 'a list \<Rightarrow> msg_seq option" where
  "karma_repeat n g xs = (if length xs < n then None else Some (concat (map g (take n xs))))"

section \<open>The documented behaviour of the Spirit primitives\<close>

locale spirit =
  fixes pf :: platform
  assumes qi_byte_Nil: "qi_byte pf [] = None"
    and qi_byte_Cons: "qi_byte pf (b # s) = Some (b, s)"
    and qi_char_Nil: "qi_char pf [] = None"
    and qi_char_Cons: "qi_char pf (b # s) = Some (char_of_byte b, s)"
    and qi_big_word_short: "length s < 2 \<Longrightarrow> qi_big_word pf s = None"
    and qi_big_word_Cons: "qi_big_word pf (a # b # s) = Some (be16 a b, s)"
    and qi_big_dword_short: "length s < 4 \<Longrightarrow> qi_big_dword pf s = None"
    and qi_big_dword_Cons: "qi_big_dword pf (a # b # c # d # s) = Some (be32 a b c d, s)"
    and karma_byte_out: "karma_byte pf b = [b]"
    and karma_char_out: "karma_char pf ch = [byte_of ch]"
    and karma_big_word_out: "karma_big_word pf w = be16_bytes w"
    and karma_big_dword_out: "karma_big_dword pf dw = be32_bytes dw"
begin

lemmas primitives =
  qi_byte_Nil qi_byte_Cons qi_char_Nil qi_char_Cons qi_big_word_short qi_big_word_Cons
  qi_big_dword_short qi_big_dword_Cons
  karma_byte_out karma_char_out karma_big_word_out karma_big_dword_out

declare primitives [simp]

lemma qi_byte_lit_Nil [simp]: "qi_byte_lit pf t [] = None"
  by (simp add: qi_byte_lit_def)

lemma qi_byte_lit_Cons [simp]:
  "qi_byte_lit pf t (b # s) = (if b = t then Some ((), s) else None)"
  by (simp add: qi_byte_lit_def)

lemma qi_big_word_be16 [simp]: "qi_big_word pf (be16_bytes w @ s) = Some (w, s)"
  by (simp add: be16_bytes_def)

lemma qi_big_dword_be32 [simp]: "qi_big_dword pf (be32_bytes w @ s) = Some (w, s)"
  by (simp add: be32_bytes_def)

lemma qi_big_word_lit_be16 [simp]:
  "qi_big_word_lit pf n (be16_bytes w @ s) = (if w = n then Some ((), s) else None)"
  by (simp add: qi_big_word_lit_def)

lemma qi_repeat_char [simp]:
  "qi_repeat n (qi_char pf) s =
     (if length s < n then None else Some (string_of (take n s), drop n s))"
proof (induction n arbitrary: s)
  case 0
  then show ?case by (simp add: string_of_def)
next
  case (Suc n)
  then show ?case by (cases s) (simp_all add: string_of_def)
qed

lemma qi_repeat_byte [simp]:
  "qi_repeat n (qi_byte pf) s = (if length s < n then None else Some (take n s, drop n s))"
proof (induction n arbitrary: s)
  case 0
  then show ?case by simp
next
  case (Suc n)
  then show ?case by (cases s) simp_all
qed

lemma qi_many_char: "length s \<le> n \<Longrightarrow> qi_many n (qi_char pf) s = Some (string_of s, [])"
proof (induction n arbitrary: s)
  case 0
  then show ?case by (simp add: string_of_def)
next
  case (Suc n)
  then show ?case by (cases s) (simp_all add: string_of_def)
qed

lemma qi_plus_char [simp]:
  "qi_plus (qi_char pf) s = (if s = [] then None else Some (string_of s, []))"
proof (cases s)
  case (Cons a r)
  have "qi_many (length s) (qi_char pf) r = Some (string_of r, [])"
    by (rule qi_many_char) (simp add: Cons)
  then show ?thesis using Cons by (simp add: qi_plus_def string_of_def del: qi_many.simps)
qed (simp add: qi_plus_def)

lemma karma_many_char [simp]: "karma_many (karma_char pf) cs = bytes_of cs"
  by (induction cs) (simp_all add: karma_many_def bytes_of_def)

lemma karma_many_byte [simp]: "karma_many (karma_byte pf) bs = bs"
  by (induction bs) (simp_all add: karma_many_def)

lemma karma_repeat_byte [simp]:
  "karma_repeat n (karma_byte pf) bs = (if length bs < n then None else Some (take n bs))"
  using karma_many_byte [of "take n bs"] by (simp add: karma_repeat_def karma_many_def)

lemma karma_repeat_char [simp]:
  "karma_repeat n (karma_char pf) cs = (if length cs < n then None else Some (bytes_of (take n cs)))"
  using karma_many_char [of "take n cs"] by (simp add: karma_repeat_def karma_many_def)

end

section \<open>A platform with the documented behaviour\<close>

text \<open>
  Executable instances of the primitives. The remaining fields are those of a platform whose
  \<open>char\<close> is unsigned; \<open>decimal\<close> is the text of a number in base ten.
\<close>

fun doc_byte :: "byte parser" where
  "doc_byte [] = None"
| "doc_byte (b # s) = Some (b, s)"

fun doc_char :: "char parser" where
  "doc_char [] = None"
| "doc_char (b # s) = Some (char_of_byte b, s)"

fun doc_big_word :: "u16 parser" where
  "doc_big_word (a # b # s) = Some (be16 a b, s)"
| "doc_big_word _ = None"

fun doc_big_dword :: "u32 parser" where
  "doc_big_dword (a # b # c # d # s) = Some (be32 a b c d, s)"
| "doc_big_dword _ = None"

fun decimal :: "nat \<Rightarrow> string" where
  "decimal n = (if n < 10 then [char_of (48 + n)] else decimal (n div 10) @ [char_of (48 + n mod 10)])"

declare decimal.simps [simp del]

definition documented_platform :: platform where
  "documented_platform =
     \<lparr>qi_byte = doc_byte, qi_char = doc_char, qi_big_word = doc_big_word, qi_big_dword = doc_big_dword,
      karma_byte = (\<lambda>b. [b]), karma_char = (\<lambda>c. [byte_of c]),
      karma_big_word = be16_bytes, karma_big_dword = be32_bytes,
      char_is_signed = False, lexical_cast = (\<lambda>i. if i < 0 then CHR 0x2D # decimal (nat (- i)) else decimal (nat i)),
      format_20e = (\<lambda>d. decimal (unat d)), sscanf_lf = (\<lambda>_. Some 0),
      doubles_close = (=), indeterminate_double = 0, indeterminate_int = 0\<rparr>"

text \<open>The same platform where \<open>char\<close> is signed.\<close>

definition signed_char_platform :: platform where
  "signed_char_platform = documented_platform\<lparr>char_is_signed := True\<rparr>"

lemma doc_big_word_short: "length s < 2 \<Longrightarrow> doc_big_word s = None"
  by (cases s rule: doc_big_word.cases) auto

lemma doc_big_dword_short: "length s < 4 \<Longrightarrow> doc_big_dword s = None"
  by (cases s rule: doc_big_dword.cases) auto

interpretation doc: spirit documented_platform
  by unfold_locales
    (simp_all add: documented_platform_def doc_big_word_short doc_big_dword_short)

interpretation doc_signed: spirit signed_char_platform
  by unfold_locales
    (simp_all add: signed_char_platform_def documented_platform_def doc_big_word_short doc_big_dword_short)

lemma documented_char [simp]:
  "char_is_signed documented_platform = False" "char_is_signed signed_char_platform = True"
  by (simp_all add: documented_platform_def signed_char_platform_def)

end
