(* ===== verification/Values.thy ===== *)
theory Values
  imports Platform
begin

text \<open>
  The value types of \<open>impl/types.h\<close> and \<open>impl/types.cpp\<close> (pids are in the prelude) and the
  protocol constants of \<open>impl/constants.cpp\<close>. The only operation with a failure is the
  constructor of bit strings; its lemmas say which inputs it accepts and that it clears
  exactly the padding.
\<close>

section \<open>Constants\<close>

abbreviation supported_version :: u16 where "supported_version \<equiv> 5"

definition capabilities :: u32 where
  "capabilities = 4 OR 0x100 OR 0x400"

abbreviation magic_version :: int where "magic_version \<equiv> 131"
abbreviation pass_through :: int where "pass_through \<equiv> 112"

abbreviation ctrl_msg_link :: int where "ctrl_msg_link \<equiv> 1"
abbreviation ctrl_msg_send :: int where "ctrl_msg_send \<equiv> 2"
abbreviation ctrl_msg_exit :: int where "ctrl_msg_exit \<equiv> 3"
abbreviation ctrl_msg_unlink :: int where "ctrl_msg_unlink \<equiv> 4"
abbreviation ctrl_msg_reg_send :: int where "ctrl_msg_reg_send \<equiv> 6"
abbreviation ctrl_msg_exit2 :: int where "ctrl_msg_exit2 \<equiv> 8"

definition float_digits :: nat where "float_digits = 31"

lemma capabilities_value: "capabilities = 0x504"
  by (simp add: capabilities_def)

section \<open>Pids and references\<close>

definition e_pid_eq :: "e_pid \<Rightarrow> e_pid \<Rightarrow> bool" where
  "e_pid_eq p1 p2 \<longleftrightarrow>
     node_name p1 = node_name p2 \<and> id_of p1 = id_of p2 \<and>
     serial_of p1 = serial_of p2 \<and> creation_of p1 = creation_of p2"

lemma e_pid_eq_iff [simp]: "e_pid_eq p q \<longleftrightarrow> p = q"
  by (cases p; cases q) (auto simp: e_pid_eq_def)

text \<open>The invalid pid of the default constructor.\<close>

definition default_e_pid :: e_pid where
  "default_e_pid = \<lparr>node_name = '''', id_of = 0, serial_of = 0, creation_of = 0\<rparr>"

record new_reference_type =
  ref_node_name :: string
  ref_creation :: u32
  ref_id :: msg_seq

definition default_reference :: new_reference_type where
  "default_reference = \<lparr>ref_node_name = '''', ref_creation = 0, ref_id = []\<rparr>"

definition new_reference_eq :: "new_reference_type \<Rightarrow> new_reference_type \<Rightarrow> bool" where
  "new_reference_eq r1 r2 \<longleftrightarrow>
     ref_node_name r1 = ref_node_name r2 \<and> ref_creation r1 = ref_creation r2 \<and> ref_id r1 = ref_id r2"

lemma new_reference_eq_iff [simp]: "new_reference_eq p q \<longleftrightarrow> p = q"
  by (cases p; cases q) (auto simp: new_reference_eq_def)

section \<open>Binaries and bit strings\<close>

record binary_value_type =
  padding_bits :: int
  bin_value :: msg_seq

definition binary_value_eq :: "binary_value_type \<Rightarrow> binary_value_type \<Rightarrow> bool" where
  "binary_value_eq l r \<longleftrightarrow> padding_bits l = padding_bits r \<and> bin_value l = bin_value r"

lemma binary_value_eq_iff [simp]: "binary_value_eq p q \<longleftrightarrow> p = q"
  by (cases p; cases q) (auto simp: binary_value_eq_def)

definition empty_binary :: binary_value_type where
  "empty_binary = \<lparr>padding_bits = 0, bin_value = []\<rparr>"

definition make_binary :: "msg_seq \<Rightarrow> binary_value_type" where
  "make_binary data = \<lparr>padding_bits = 0, bin_value = data\<rparr>"

text \<open>
  The constructor for bit strings: the range of the padding is checked first, then padding of
  an empty value; the unused low bits of the last byte are cleared.
\<close>

definition clear_padding :: "int \<Rightarrow> byte \<Rightarrow> byte" where
  "clear_padding n b = b AND NOT (push_bit (nat n) 1 - 1)"

definition make_bit_string :: "platform \<Rightarrow> msg_seq \<Rightarrow> int \<Rightarrow> binary_value_type result" where
  "make_bit_string pf data unused =
     (if unused < 0 \<or> 7 < unused
      then Inl (Encoding_error ''bitstring''
             (''The padding must be in range 0..7, you provided '' @ lexical_cast pf unused))
      else if unused \<noteq> 0 \<and> data = []
      then Inl (Encoding_error ''bitstring'' ''Padding on a zero length bitstring isn't allowed'')
      else Inr \<lparr>padding_bits = unused,
                bin_value = (if data = [] then []
                             else data[length data - 1 := clear_padding unused (last data)])\<rparr>)"

text \<open>What the constructor promises: a padding of 0 to 7 bits, all of them zero.\<close>

definition wf_binary :: "binary_value_type \<Rightarrow> bool" where
  "wf_binary v \<longleftrightarrow> 0 \<le> padding_bits v \<and> padding_bits v \<le> 7 \<and>
     (padding_bits v \<noteq> 0 \<longrightarrow> bin_value v \<noteq> []) \<and>
     (bin_value v \<noteq> [] \<longrightarrow> take_bit (nat (padding_bits v)) (last (bin_value v)) = 0)"

section \<open>Attributes of the generators\<close>

text \<open>
  What the generators are given: a value together with its length, which precedes it on the wire. The
  constructors are explicit and compute the length themselves, so the two always agree.
\<close>

record serializable_string =
  string_size :: nat
  string_val :: string

record serializable_seq =
  seq_size :: nat
  seq_val :: msg_seq

record serializable_bit_seq =
  bit_seq_val :: msg_seq
  bit_seq_size :: nat
  unused_bits :: int

record serializable_e_pid =
  pid_node_name :: serializable_string
  pid_id_field :: u32
  pid_serial_field :: u32
  pid_creation_field :: u32

record new_reference_g_type =
  g_id_length :: nat
  g_node_name :: serializable_string
  g_creation :: u32
  g_id :: msg_seq

definition to_serializable_string :: "string \<Rightarrow> serializable_string" where
  "to_serializable_string a_val = \<lparr>string_size = length a_val, string_val = a_val\<rparr>"

definition to_serializable_seq :: "msg_seq \<Rightarrow> serializable_seq" where
  "to_serializable_seq a_val = \<lparr>seq_size = length a_val, seq_val = a_val\<rparr>"

definition to_serializable_bit_seq :: "msg_seq \<Rightarrow> int \<Rightarrow> serializable_bit_seq" where
  "to_serializable_bit_seq a_val a_unused_bits =
     \<lparr>bit_seq_val = a_val, bit_seq_size = length a_val, unused_bits = a_unused_bits\<rparr>"

definition to_serializable_e_pid :: "e_pid \<Rightarrow> serializable_e_pid" where
  "to_serializable_e_pid p =
     \<lparr>pid_node_name = to_serializable_string (node_name p), pid_id_field = id_of p,
      pid_serial_field = serial_of p, pid_creation_field = creation_of p\<rparr>"

text \<open>The identifier of a reference counts in words of four bytes; a remainder is cut off the count only.\<close>

definition to_new_reference_g_type :: "new_reference_type \<Rightarrow> new_reference_g_type" where
  "to_new_reference_g_type r =
     \<lparr>g_id_length = length (ref_id r) div 4, g_node_name = to_serializable_string (ref_node_name r),
      g_creation = ref_creation r, g_id = ref_id r\<rparr>"

definition serializable_string_eq :: "serializable_string \<Rightarrow> serializable_string \<Rightarrow> bool" where
  "serializable_string_eq s1 s2 \<longleftrightarrow> string_val s1 = string_val s2"

lemma serializable_sims [simp]:
  "string_size (to_serializable_string a) = length a" "string_val (to_serializable_string a) = a"
  "seq_size (to_serializable_seq v) = length v" "seq_val (to_serializable_seq v) = v"
  "bit_seq_size (to_serializable_bit_seq v n) = length v" "bit_seq_val (to_serializable_bit_seq v n) = v"
  "unused_bits (to_serializable_bit_seq v n) = n"
  "pid_node_name (to_serializable_e_pid p) = to_serializable_string (node_name p)"
  "pid_id_field (to_serializable_e_pid p) = id_of p" "pid_serial_field (to_serializable_e_pid p) = serial_of p"
  "pid_creation_field (to_serializable_e_pid p) = creation_of p"
  "g_id_length (to_new_reference_g_type r) = length (ref_id r) div 4"
  "g_node_name (to_new_reference_g_type r) = to_serializable_string (ref_node_name r)"
  "g_creation (to_new_reference_g_type r) = ref_creation r" "g_id (to_new_reference_g_type r) = ref_id r"
  by (simp_all add: to_serializable_string_def to_serializable_seq_def to_serializable_bit_seq_def
      to_serializable_e_pid_def to_new_reference_g_type_def)

text \<open>The comparison ignores the length, which is no loss for what the constructor makes.\<close>

lemma serializable_string_eq_iff [simp]:
  "serializable_string_eq (to_serializable_string a) (to_serializable_string b) \<longleftrightarrow> a = b"
  by (simp add: serializable_string_eq_def)

section \<open>Properties of bit strings\<close>

lemma clear_padding_mask: "clear_padding n b = b AND NOT (mask (nat n))"
  by (simp add: clear_padding_def mask_eq_exp_minus_1)

lemma take_bit_clear_padding: "take_bit (nat n) (clear_padding n b) = 0"
  by (rule bit_word_eqI) (simp add: clear_padding_mask bit_simps)

lemma drop_bit_clear_padding: "drop_bit (nat n) (clear_padding n b) = drop_bit (nat n) b"
  by (rule bit_word_eqI) (auto simp: clear_padding_mask bit_simps dest: bit_imp_le_length)

lemma clear_padding_idem [simp]: "clear_padding n (clear_padding n b) = clear_padding n b"
  by (rule bit_word_eqI) (auto simp: clear_padding_mask bit_simps)

lemma make_bit_string_wf: "make_bit_string pf data n = Inr v \<Longrightarrow> wf_binary v"
  by (auto simp: make_bit_string_def wf_binary_def take_bit_clear_padding last_list_update
      split: if_splits)

lemma make_bit_string_ok_iff:
  "(\<exists>v. make_bit_string pf data n = Inr v) \<longleftrightarrow> 0 \<le> n \<and> n \<le> 7 \<and> (n = 0 \<or> data \<noteq> [])"
  by (auto simp: make_bit_string_def)

lemma make_bit_string_idem:
  assumes "make_bit_string pf data n = Inr v"
  shows "make_bit_string pf (bin_value v) n = Inr v"
  using assms by (auto simp: make_bit_string_def last_list_update split: if_splits)

end
