(* ===== verification/Term_Grammar.thy ===== *)
theory Term_Grammar
  imports Values
begin

text \<open>
  The external term format, \<open>impl/ext_term_grammar.h\<close>: for every grammar of the header the
  parser (a \<open>qi::grammar\<close>) and, where there is one, the generator (a \<open>karma::grammar\<close>, suffix
  \<open>_g\<close>), in the order of the file. A parser takes the remaining bytes and returns the
  attribute with the bytes that are left; where the source attaches a length to a field of
  16 or 32 bits, the conversion of the attribute is the conversion to a word of that width.
  The lemmas give every round trip, and what each parser answers on another tag.
\<close>

section \<open>Tags\<close>

abbreviation tag_bit_binary_ext :: byte where "tag_bit_binary_ext \<equiv> 77"
abbreviation tag_atom_cache_ref :: byte where "tag_atom_cache_ref \<equiv> 82"
abbreviation tag_small_integer :: byte where "tag_small_integer \<equiv> 97"
abbreviation tag_integer :: byte where "tag_integer \<equiv> 98"
abbreviation tag_float_ext :: byte where "tag_float_ext \<equiv> 99"
abbreviation tag_atom_ext :: byte where "tag_atom_ext \<equiv> 100"
abbreviation tag_pid :: byte where "tag_pid \<equiv> 103"
abbreviation tag_small_tuple :: byte where "tag_small_tuple \<equiv> 104"
abbreviation tag_nil_ext :: byte where "tag_nil_ext \<equiv> 106"
abbreviation tag_string_ext :: byte where "tag_string_ext \<equiv> 107"
abbreviation tag_list :: byte where "tag_list \<equiv> 108"
abbreviation tag_binary_ext :: byte where "tag_binary_ext \<equiv> 109"
abbreviation tag_new_reference_ext :: byte where "tag_new_reference_ext \<equiv> 114"

section \<open>Integers\<close>

definition ext_byte :: "platform \<Rightarrow> byte \<Rightarrow> byte parser" where
  "ext_byte pf tag s = do { (_, s) \<leftarrow> qi_byte_lit pf tag s; qi_byte pf s }"

definition ext_byte_g :: "platform \<Rightarrow> byte \<Rightarrow> byte \<Rightarrow> msg_seq" where
  "ext_byte_g pf tag b = karma_byte pf tag @ karma_byte pf b"

definition small_integer :: "platform \<Rightarrow> byte parser" where
  "small_integer pf = ext_byte pf tag_small_integer"

definition small_integer_g :: "platform \<Rightarrow> byte \<Rightarrow> msg_seq" where
  "small_integer_g pf = ext_byte_g pf tag_small_integer"

definition integer_ext :: "platform \<Rightarrow> u32 parser" where
  "integer_ext pf s = do { (_, s) \<leftarrow> qi_byte_lit pf tag_integer s; qi_big_dword pf s }"

definition integer_ext_g :: "platform \<Rightarrow> u32 \<Rightarrow> msg_seq" where
  "integer_ext_g pf i = karma_byte pf tag_integer @ karma_big_dword pf i"

definition integer :: "platform \<Rightarrow> u32 parser" where
  "integer pf =
     qi_alt (\<lambda>s. do { (b, s) \<leftarrow> small_integer pf s; Some (ucast b, s) }) (integer_ext pf)"

section \<open>Floats and atoms\<close>

definition float_ext :: "platform \<Rightarrow> string parser" where
  "float_ext pf s =
     do { (_, s) \<leftarrow> qi_byte_lit pf tag_float_ext s; qi_repeat float_digits (qi_char pf) s }"

definition float_ext_g :: "platform \<Rightarrow> string \<Rightarrow> msg_seq option" where
  "float_ext_g pf digits =
     do { ds \<leftarrow> karma_repeat float_digits (karma_char pf) digits;
          Some (karma_byte pf tag_float_ext @ ds) }"

definition atom_ext :: "platform \<Rightarrow> string parser" where
  "atom_ext pf s =
     do { (_, s) \<leftarrow> qi_byte_lit pf tag_atom_ext s;
          (atom_length, s) \<leftarrow> qi_big_word pf s;
          qi_repeat (unat atom_length) (qi_char pf) s }"

definition atom_ext_g :: "platform \<Rightarrow> string \<Rightarrow> msg_seq" where
  "atom_ext_g pf name =
     (let a = to_serializable_string name
      in karma_byte pf tag_atom_ext @ karma_big_word pf (of_nat (string_size a)) @
         karma_many (karma_char pf) (string_val a))"

section \<open>Pids and references\<close>

definition pid_ext :: "platform \<Rightarrow> e_pid parser" where
  "pid_ext pf s =
     do { (_, s) \<leftarrow> qi_byte_lit pf tag_pid s;
          (name, s) \<leftarrow> atom_ext pf s;
          (i, s) \<leftarrow> qi_big_dword pf s;
          (ser, s) \<leftarrow> qi_big_dword pf s;
          (c, s) \<leftarrow> qi_byte pf s;
          Some (\<lparr>node_name = name, id_of = i, serial_of = ser, creation_of = ucast c\<rparr>, s) }"

definition pid_ext_g :: "platform \<Rightarrow> e_pid \<Rightarrow> msg_seq" where
  "pid_ext_g pf p =
     (let a = to_serializable_e_pid p
      in karma_byte pf tag_pid @ atom_ext_g pf (string_val (pid_node_name a)) @
         karma_big_dword pf (pid_id_field a) @ karma_big_dword pf (pid_serial_field a) @
         karma_byte pf (ucast (pid_creation_field a)))"

definition new_reference_ext_p :: "platform \<Rightarrow> new_reference_type parser" where
  "new_reference_ext_p pf s =
     do { (_, s) \<leftarrow> qi_byte_lit pf tag_new_reference_ext s;
          (id_length, s) \<leftarrow> qi_big_word pf s;
          (name, s) \<leftarrow> atom_ext pf s;
          (c, s) \<leftarrow> qi_byte pf s;
          (i, s) \<leftarrow> qi_repeat (unat id_length * 4) (qi_char pf) s;
          Some (\<lparr>ref_node_name = name, ref_creation = ucast c, ref_id = bytes_of i\<rparr>, s) }"

definition new_reference_ext_g :: "platform \<Rightarrow> new_reference_type \<Rightarrow> msg_seq" where
  "new_reference_ext_g pf r =
     (let a = to_new_reference_g_type r
      in karma_byte pf tag_new_reference_ext @ karma_big_word pf (of_nat (g_id_length a)) @
         atom_ext_g pf (string_val (g_node_name a)) @ karma_byte pf (ucast (g_creation a)) @
         karma_many (karma_char pf) (string_of (g_id a)))"

section \<open>Heads of tuples, lists and strings\<close>

definition small_tuple_head_ext :: "platform \<Rightarrow> nat parser" where
  "small_tuple_head_ext pf s =
     do { (_, s) \<leftarrow> qi_byte_lit pf tag_small_tuple s;
          (n, s) \<leftarrow> qi_byte pf s;
          Some (unat n, s) }"

definition small_tuple_head_g :: "platform \<Rightarrow> nat \<Rightarrow> msg_seq" where
  "small_tuple_head_g pf n = karma_byte pf tag_small_tuple @ karma_byte pf (of_nat n)"

definition list_head_ext :: "platform \<Rightarrow> nat parser" where
  "list_head_ext pf s =
     do { (_, s) \<leftarrow> qi_byte_lit pf tag_list s;
          (n, s) \<leftarrow> qi_big_dword pf s;
          Some (unat n, s) }"

definition list_head_g :: "platform \<Rightarrow> nat \<Rightarrow> msg_seq" where
  "list_head_g pf n = karma_byte pf tag_list @ karma_big_dword pf (of_nat n)"

definition string_head_ext :: "platform \<Rightarrow> nat parser" where
  "string_head_ext pf s =
     do { (_, s) \<leftarrow> qi_byte_lit pf tag_string_ext s;
          (n, s) \<leftarrow> qi_big_word pf s;
          Some (unat n, s) }"

definition string_ext_g :: "platform \<Rightarrow> string \<Rightarrow> msg_seq" where
  "string_ext_g pf v =
     (let a = to_serializable_string v
      in karma_byte pf tag_string_ext @ karma_big_word pf (of_nat (string_size a)) @
         karma_many (karma_char pf) (string_val a))"

section \<open>Binaries\<close>

definition binary_ext :: "platform \<Rightarrow> msg_seq parser" where
  "binary_ext pf s =
     do { (_, s) \<leftarrow> qi_byte_lit pf tag_binary_ext s;
          (binary_length, s) \<leftarrow> qi_big_dword pf s;
          qi_repeat (unat binary_length) (qi_byte pf) s }"

definition binary_ext_g :: "platform \<Rightarrow> msg_seq \<Rightarrow> msg_seq" where
  "binary_ext_g pf v =
     (let a = to_serializable_seq v
      in karma_byte pf tag_binary_ext @ karma_big_dword pf (of_nat (seq_size a)) @
         karma_many (karma_byte pf) (seq_val a))"

definition bit_binary_ext :: "platform \<Rightarrow> binary_value_type parser" where
  "bit_binary_ext pf s =
     do { (_, s) \<leftarrow> qi_byte_lit pf tag_bit_binary_ext s;
          (binary_length, s) \<leftarrow> qi_big_dword pf s;
          (bits, s) \<leftarrow> qi_byte pf s;
          (v, s) \<leftarrow> qi_repeat (unat binary_length) (qi_byte pf) s;
          Some (\<lparr>padding_bits = uint bits, bin_value = v\<rparr>, s) }"

definition bit_binary_ext_g :: "platform \<Rightarrow> msg_seq \<Rightarrow> int \<Rightarrow> msg_seq" where
  "bit_binary_ext_g pf v bits =
     (let a = to_serializable_bit_seq v bits
      in karma_byte pf tag_bit_binary_ext @ karma_big_dword pf (of_nat (bit_seq_size a)) @
         karma_byte pf (word_of_int (unused_bits a)) @ karma_many (karma_byte pf) (bit_seq_val a))"

text \<open>\<open>qi::byte_(type_tag::nil_ext)\<close>, used by the list matchers.\<close>

definition nil_ext :: "platform \<Rightarrow> unit parser" where
  "nil_ext pf = qi_byte_lit pf tag_nil_ext"

lemmas grammar_defs = Let_def
  ext_byte_def ext_byte_g_def small_integer_def small_integer_g_def integer_ext_def
  integer_ext_g_def integer_def float_ext_def float_ext_g_def atom_ext_def atom_ext_g_def
  pid_ext_def pid_ext_g_def new_reference_ext_p_def new_reference_ext_g_def
  small_tuple_head_ext_def small_tuple_head_g_def list_head_ext_def list_head_g_def
  string_head_ext_def string_ext_g_def binary_ext_def binary_ext_g_def bit_binary_ext_def
  bit_binary_ext_g_def nil_ext_def

section \<open>Round trips\<close>

text \<open>The values whose fields fit the widths of the format.\<close>

definition wf_atom :: "string \<Rightarrow> bool" where
  "wf_atom a \<longleftrightarrow> length a < 2 ^ 16"

definition wf_pid :: "e_pid \<Rightarrow> bool" where
  "wf_pid p \<longleftrightarrow> wf_atom (node_name p) \<and> creation_of p < 256"

definition wf_reference :: "new_reference_type \<Rightarrow> bool" where
  "wf_reference r \<longleftrightarrow> wf_atom (ref_node_name r) \<and> ref_creation r < 256 \<and>
     4 dvd length (ref_id r) \<and> length (ref_id r) div 4 < 2 ^ 16"

context spirit
begin

lemma small_integer_g_eq [wire]: "small_integer_g pf b = [tag_small_integer, b]"
  by (simp add: grammar_defs)

lemma integer_ext_g_eq [wire]: "integer_ext_g pf i = tag_integer # be32_bytes i"
  by (simp add: grammar_defs)

lemma atom_ext_g_eq [wire]:
  "atom_ext_g pf a = tag_atom_ext # be16_bytes (of_nat (length a)) @ bytes_of a"
  by (simp add: grammar_defs)

lemma integer_Cons:
  "integer pf (b # s) =
     (if b = tag_small_integer then (case s of [] \<Rightarrow> None | x # r \<Rightarrow> Some (ucast x, r))
      else if b = tag_integer then qi_big_dword pf s else None)"
  by (cases s) (auto simp: grammar_defs qi_alt_def)

lemma integer_small [simp]: "integer pf (small_integer_g pf b @ s) = Some (ucast b, s)"
  by (simp add: integer_Cons wire)

lemma integer_medium [simp]: "integer pf (integer_ext_g pf i @ s) = Some (i, s)"
  by (simp add: integer_Cons wire)

lemma atom_roundtrip [simp]: "wf_atom a \<Longrightarrow> atom_ext pf (atom_ext_g pf a @ s) = Some (a, s)"
  by (simp add: grammar_defs wf_atom_def)

lemma pid_roundtrip [simp]: "wf_pid p \<Longrightarrow> pid_ext pf (pid_ext_g pf p @ s) = Some (p, s)"
  by (simp add: pid_ext_def pid_ext_g_def Let_def wf_pid_def ucast_u32_byte_roundtrip)

lemma reference_roundtrip [simp]:
  "wf_reference r \<Longrightarrow> new_reference_ext_p pf (new_reference_ext_g pf r @ s) = Some (r, s)"
  by (auto simp: new_reference_ext_p_def new_reference_ext_g_def Let_def wf_reference_def
      ucast_u32_byte_roundtrip)

lemma float_roundtrip:
  "length ds = float_digits \<Longrightarrow> \<exists>out. float_ext_g pf ds = Some out \<and> float_ext pf (out @ s) = Some (ds, s)"
  by (simp add: float_ext_def float_ext_g_def)

lemma tuple_head_roundtrip [simp]:
  "n < 256 \<Longrightarrow> small_tuple_head_ext pf (small_tuple_head_g pf n @ s) = Some (n, s)"
  by (simp add: grammar_defs)

lemma list_head_roundtrip [simp]:
  "n < 2 ^ 32 \<Longrightarrow> list_head_ext pf (list_head_g pf n @ s) = Some (n, s)"
  by (simp add: grammar_defs)

lemma string_head_roundtrip [simp]:
  "length v < 2 ^ 16 \<Longrightarrow> string_head_ext pf (string_ext_g pf v @ s) = Some (length v, bytes_of v @ s)"
  by (simp add: grammar_defs)

lemma binary_roundtrip [simp]:
  "length v < 2 ^ 32 \<Longrightarrow> binary_ext pf (binary_ext_g pf v @ s) = Some (v, s)"
  by (simp add: grammar_defs)

lemma bit_binary_roundtrip [simp]:
  assumes "length v < 2 ^ 32" and "0 \<le> n" and "n < 256"
  shows "bit_binary_ext pf (bit_binary_ext_g pf v n @ s) =
           Some (\<lparr>padding_bits = n, bin_value = v\<rparr>, s)"
  using assms by (simp add: grammar_defs uint_word_of_int)

text \<open>A parser refuses every term of another type: the first byte decides.\<close>

lemma other_tag:
  "b \<noteq> tag_atom_ext \<Longrightarrow> atom_ext pf (b # s) = None"
  "b \<noteq> tag_pid \<Longrightarrow> pid_ext pf (b # s) = None"
  "b \<noteq> tag_new_reference_ext \<Longrightarrow> new_reference_ext_p pf (b # s) = None"
  "b \<noteq> tag_float_ext \<Longrightarrow> float_ext pf (b # s) = None"
  "b \<noteq> tag_small_tuple \<Longrightarrow> small_tuple_head_ext pf (b # s) = None"
  "b \<noteq> tag_list \<Longrightarrow> list_head_ext pf (b # s) = None"
  "b \<noteq> tag_string_ext \<Longrightarrow> string_head_ext pf (b # s) = None"
  "b \<noteq> tag_binary_ext \<Longrightarrow> binary_ext pf (b # s) = None"
  "b \<noteq> tag_bit_binary_ext \<Longrightarrow> bit_binary_ext pf (b # s) = None"
  by (simp_all add: grammar_defs)

lemma no_input:
  "integer pf [] = None" "atom_ext pf [] = None" "pid_ext pf [] = None"
  "new_reference_ext_p pf [] = None" "float_ext pf [] = None" "small_tuple_head_ext pf [] = None"
  "list_head_ext pf [] = None" "string_head_ext pf [] = None" "binary_ext pf [] = None"
  "bit_binary_ext pf [] = None"
  by (simp_all add: grammar_defs qi_alt_def)

end

end
