(* ===== verification/Terms.thy ===== *)
theory Terms
  imports Term_Grammar
begin

text \<open>
  The Erlang terms and patterns of the API: \<open>impl/erlang_value_types.cpp\<close>,
  \<open>impl/erl_string.cpp\<close>, \<open>impl/erl_any.cpp\<close>, \<open>tinch_pp/erl_tuple.h\<close>, \<open>tinch_pp/erl_list.h\<close>
  and the matchers \<open>impl/list_matcher.h\<close> and \<open>impl/string_matcher.h\<close>. Every class derived from
  \<open>erl::object\<close> is a constructor of \<open>obj\<close>; an object is built from a value, from a pointer to
  assign to or from an \<open>any\<close>, which is its \<open>mode\<close>. A pointer is the number of a variable, and
  matching returns, with its answer and the advanced iterator, the list of writes it made.
  What a Spirit parser that fails leaves in its attribute is not modelled: a write is
  recorded for a parse that succeeded.
\<close>

section \<open>Objects\<close>

datatype 'v mode = Val 'v | Assign nat | Wild

text \<open>The element classes \<open>T\<close> for which \<open>list<T>\<close> can be assigned (they have a \<open>value_type\<close>).\<close>

datatype elem = Elem_int | Elem_pid | Elem_float | Elem_atom | Elem_ref

datatype obj =
    E_int "u32 mode"
  | E_pid "e_pid mode"
  | E_float "double mode"
  | E_atom "string mode"
  | E_binary "binary_value_type mode"
  | E_ref "new_reference_type mode"
  | E_string "string mode"
  | E_tuple "obj list"
  | E_list "obj list"
  | E_list_assign elem nat
  | Int_list "u32 mode list"
  | Int_list_assign nat
  | Any "nat option"

text \<open>
  What a write puts into its variable. \<open>Bound_bytes\<close> sets the bytes of a binary and leaves
  its padding; \<open>Pushed_string\<close> and \<open>Pushed_list\<close> append to the container. An element that
  failed to parse is pushed too, with whatever its variable held (\<open>Bound_indeterminate\<close>).
\<close>

datatype bound =
    Bound_int u32
  | Bound_pid e_pid
  | Bound_float double
  | Bound_atom string
  | Bound_bytes msg_seq
  | Bound_binary binary_value_type
  | Bound_ref new_reference_type
  | Pushed_string string
  | Pushed_list "bound list"
  | Bound_matchable msg_seq
  | Bound_indeterminate

type_synonym writes = "(nat \<times> bound) list"
type_synonym match_outcome = "bool \<times> msg_seq \<times> writes"

section \<open>Serialization\<close>

definition encode_float :: "platform \<Rightarrow> double \<Rightarrow> string" where
  "encode_float pf v = take float_digits (format_20e pf v @ replicate float_digits (CHR 0x00))"

definition decode_float :: "platform \<Rightarrow> string \<Rightarrow> double result" where
  "decode_float pf encoded =
     (case sscanf_lf pf encoded of None \<Rightarrow> Inl Assert_failed | Some d \<Rightarrow> Inr d)"

definition equal_doubles :: "platform \<Rightarrow> double \<Rightarrow> double \<Rightarrow> bool" where
  "equal_doubles pf x y = doubles_close pf x y"

text \<open>The \<open>val\<close> member: what the constructors for assignment and for \<open>any\<close> leave there.\<close>

definition member_val :: "'v \<Rightarrow> 'v mode \<Rightarrow> 'v" where
  "member_val d m = (case m of Val v \<Rightarrow> v | _ \<Rightarrow> d)"

definition serialize_int :: "platform \<Rightarrow> u32 \<Rightarrow> msg_seq" where
  "serialize_int pf v =
     (if 0 \<le> sint v \<and> sint v \<le> 255 then small_integer_g pf (ucast v) else integer_ext_g pf v)"

definition serialize_float :: "platform \<Rightarrow> double \<Rightarrow> msg_seq" where
  "serialize_float pf v =
     (case float_ext_g pf (encode_float pf v) of Some out \<Rightarrow> out | None \<Rightarrow> [])"

definition serialize_binary :: "platform \<Rightarrow> binary_value_type \<Rightarrow> msg_seq" where
  "serialize_binary pf v =
     (if 0 < padding_bits v then bit_binary_ext_g pf (bin_value v) (padding_bits v)
      else binary_ext_g pf (bin_value v))"

fun serialize :: "platform \<Rightarrow> obj \<Rightarrow> msg_seq" where
  "serialize pf (E_int m) = serialize_int pf (member_val 0 m)"
| "serialize pf (E_pid m) = pid_ext_g pf (member_val default_e_pid m)"
| "serialize pf (E_float m) = serialize_float pf (member_val (indeterminate_double pf) m)"
| "serialize pf (E_atom m) = atom_ext_g pf (member_val '''' m)"
| "serialize pf (E_binary m) = serialize_binary pf (member_val empty_binary m)"
| "serialize pf (E_ref m) = new_reference_ext_g pf (member_val default_reference m)"
| "serialize pf (E_string m) = string_ext_g pf (member_val '''' m)"
| "serialize pf (E_tuple os) =
     small_tuple_head_g pf (length os) @ concat (map (serialize pf) os)"
| "serialize pf (E_list os) =
     list_head_g pf (length os) @ concat (map (serialize pf) os) @ karma_byte pf tag_nil_ext"
| "serialize pf (E_list_assign k x) = list_head_g pf 0 @ karma_byte pf tag_nil_ext"
| "serialize pf (Int_list ms) =
     list_head_g pf (length ms) @ concat (map (\<lambda>m. serialize_int pf (member_val 0 m)) ms) @
     karma_byte pf tag_nil_ext"
| "serialize pf (Int_list_assign x) = list_head_g pf 0 @ karma_byte pf tag_nil_ext"
| "serialize pf (Any x) = []"

section \<open>Matching a value, assigning, matching any\<close>

text \<open>The common shapes; \<open>consumed\<close> is \<open>msg_seq(start, f)\<close>, the bytes between two iterators.\<close>

definition consumed :: "msg_seq \<Rightarrow> msg_seq \<Rightarrow> msg_seq" where
  "consumed start f = take (length start - length f) start"

definition value_with :: "'v parser \<Rightarrow> ('v \<Rightarrow> bool) \<Rightarrow> msg_seq \<Rightarrow> match_outcome" where
  "value_with p eq s = (case p s of None \<Rightarrow> (False, s, []) | Some (r, s') \<Rightarrow> (eq r, s', []))"

definition assign_with :: "'v parser \<Rightarrow> ('v \<Rightarrow> bound) \<Rightarrow> nat \<Rightarrow> msg_seq \<Rightarrow> match_outcome" where
  "assign_with p wr x s =
     (case p s of None \<Rightarrow> (False, s, []) | Some (r, s') \<Rightarrow> (True, s', [(x, wr r)]))"

definition any_with :: "'v parser \<Rightarrow> msg_seq \<Rightarrow> bool \<times> msg_seq \<times> msg_seq" where
  "any_with p s =
     (case p s of None \<Rightarrow> (False, s, []) | Some (r, s') \<Rightarrow> (True, s', consumed s s'))"

text \<open>An object built from an \<open>any\<close> hands the bytes to that \<open>any\<close>; nothing is assigned.\<close>

definition wild_with :: "(bool \<times> msg_seq \<times> msg_seq) \<Rightarrow> match_outcome" where
  "wild_with r = (case r of (b, s', saved) \<Rightarrow> (b, s', []))"

definition match_int_value :: "platform \<Rightarrow> u32 \<Rightarrow> msg_seq \<Rightarrow> match_outcome" where
  "match_int_value pf val = value_with (integer pf) (\<lambda>r. val = r)"

definition assign_matched_int :: "platform \<Rightarrow> nat \<Rightarrow> msg_seq \<Rightarrow> match_outcome" where
  "assign_matched_int pf = assign_with (integer pf) Bound_int"

definition match_any_int :: "platform \<Rightarrow> msg_seq \<Rightarrow> bool \<times> msg_seq \<times> msg_seq" where
  "match_any_int pf = any_with (integer pf)"

definition match_value :: "platform \<Rightarrow> e_pid \<Rightarrow> msg_seq \<Rightarrow> match_outcome" where
  "match_value pf val = value_with (pid_ext pf) (e_pid_eq val)"

definition assign_matched :: "platform \<Rightarrow> nat \<Rightarrow> msg_seq \<Rightarrow> match_outcome" where
  "assign_matched pf = assign_with (pid_ext pf) Bound_pid"

definition match_any_pid :: "platform \<Rightarrow> msg_seq \<Rightarrow> bool \<times> msg_seq \<times> msg_seq" where
  "match_any_pid pf = any_with (pid_ext pf)"

definition match_float_value :: "platform \<Rightarrow> double \<Rightarrow> msg_seq \<Rightarrow> match_outcome result" where
  "match_float_value pf val s =
     (case float_ext pf s of
        None \<Rightarrow> Inr (False, s, [])
      | Some (r, s') \<Rightarrow> and_then (decode_float pf r) (\<lambda>d. Inr (equal_doubles pf val d, s', [])))"

definition assign_matched_float :: "platform \<Rightarrow> nat \<Rightarrow> msg_seq \<Rightarrow> match_outcome result" where
  "assign_matched_float pf x s =
     (case float_ext pf s of
        None \<Rightarrow> Inr (False, s, [(x, Bound_float 0)])
      | Some (r, s') \<Rightarrow> and_then (decode_float pf r) (\<lambda>d. Inr (True, s', [(x, Bound_float d)])))"

definition match_any_float :: "platform \<Rightarrow> msg_seq \<Rightarrow> bool \<times> msg_seq \<times> msg_seq" where
  "match_any_float pf = any_with (float_ext pf)"

definition match_atom_value :: "platform \<Rightarrow> string \<Rightarrow> msg_seq \<Rightarrow> match_outcome" where
  "match_atom_value pf val = value_with (atom_ext pf) (\<lambda>r. val = r)"

definition assign_matched_atom :: "platform \<Rightarrow> nat \<Rightarrow> msg_seq \<Rightarrow> match_outcome" where
  "assign_matched_atom pf = assign_with (atom_ext pf) Bound_atom"

definition match_any_atom :: "platform \<Rightarrow> msg_seq \<Rightarrow> bool \<times> msg_seq \<times> msg_seq" where
  "match_any_atom pf = any_with (atom_ext pf)"

definition match_binary_value :: "platform \<Rightarrow> binary_value_type \<Rightarrow> msg_seq \<Rightarrow> match_outcome" where
  "match_binary_value pf val s =
     (case binary_ext pf s of
        Some (bs, s') \<Rightarrow> (binary_value_eq (make_binary bs) val, s', [])
      | None \<Rightarrow> value_with (bit_binary_ext pf) (\<lambda>res. binary_value_eq res val) s)"

definition assign_matched_binary :: "platform \<Rightarrow> nat \<Rightarrow> msg_seq \<Rightarrow> match_outcome" where
  "assign_matched_binary pf x s =
     (case binary_ext pf s of
        Some (bs, s') \<Rightarrow> (True, s', [(x, Bound_bytes bs)])
      | None \<Rightarrow> assign_with (bit_binary_ext pf) Bound_binary x s)"

definition match_any_binary :: "platform \<Rightarrow> msg_seq \<Rightarrow> bool \<times> msg_seq \<times> msg_seq" where
  "match_any_binary pf s =
     (case binary_ext pf s of
        Some (bs, s') \<Rightarrow> (True, s', consumed s s')
      | None \<Rightarrow> any_with (bit_binary_ext pf) s)"

definition match_ref_value :: "platform \<Rightarrow> new_reference_type \<Rightarrow> msg_seq \<Rightarrow> match_outcome" where
  "match_ref_value pf val = value_with (new_reference_ext_p pf) (new_reference_eq val)"

definition assign_matched_ref :: "platform \<Rightarrow> nat \<Rightarrow> msg_seq \<Rightarrow> match_outcome" where
  "assign_matched_ref pf = assign_with (new_reference_ext_p pf) Bound_ref"

definition match_any_ref :: "platform \<Rightarrow> msg_seq \<Rightarrow> bool \<times> msg_seq \<times> msg_seq" where
  "match_any_ref pf = any_with (new_reference_ext_p pf)"

section \<open>Strings: lists of small integers packed into bytes\<close>

text \<open>\<open>int_::match_string_element\<close>.\<close>

definition match_string_element :: "platform \<Rightarrow> u32 mode \<Rightarrow> msg_seq \<Rightarrow> match_outcome" where
  "match_string_element pf m s =
     (case qi_byte pf s of
        None \<Rightarrow> (False, s, [])
      | Some (res, s') \<Rightarrow>
          (case m of
             Assign x \<Rightarrow> (True, s', [(x, Bound_int (ucast res))])
           | _ \<Rightarrow> (member_val 0 m = ucast res, s', [])))"

text \<open>
  \<open>std::find_if\<close> over the elements with \<open>match_string_element\<close>: it stops at the first element
  for which the predicate holds, and the result is compared with \<open>end()\<close>.
\<close>

fun find_string_element :: "platform \<Rightarrow> u32 mode list \<Rightarrow> msg_seq \<Rightarrow> match_outcome" where
  "find_string_element pf [] s = (True, s, [])"
| "find_string_element pf (m # ms) s =
     (case match_string_element pf m s of
        (found, s', w) \<Rightarrow> if found then (False, s', w) else find_string_element pf ms s')"

definition string_matcher_match :: "platform \<Rightarrow> u32 mode list \<Rightarrow> msg_seq \<Rightarrow> match_outcome" where
  "string_matcher_match pf vals s =
     (case string_head_ext pf s of
        None \<Rightarrow> (False, s, [])
      | Some (parsed_length, s') \<Rightarrow>
          if length vals = parsed_length then find_string_element pf vals s' else (False, s', []))"

fun string_assign_loop :: "platform \<Rightarrow> nat \<Rightarrow> msg_seq \<Rightarrow> bool \<times> msg_seq \<times> u32 list" where
  "string_assign_loop pf 0 s = (True, s, [])"
| "string_assign_loop pf (Suc n) s =
     (case qi_byte pf s of
        None \<Rightarrow> (False, s, [indeterminate_int pf])
      | Some (b, s') \<Rightarrow>
          (case string_assign_loop pf n s' of (ok, s'', vs) \<Rightarrow> (ok, s'', ucast b # vs)))"

definition string_matcher_assign :: "platform \<Rightarrow> msg_seq \<Rightarrow> bool \<times> msg_seq \<times> u32 list" where
  "string_matcher_assign pf s =
     (case string_head_ext pf s of
        None \<Rightarrow> (False, s, [])
      | Some (parsed_length, s') \<Rightarrow> string_assign_loop pf parsed_length s')"

definition create_int :: "platform \<Rightarrow> char \<Rightarrow> u32 mode" where
  "create_int pf c = Val (word_of_int (char_to_int pf (byte_of c)))"

definition shrink_int :: "u32 \<Rightarrow> char" where
  "shrink_int v = char_of_byte (ucast v)"

definition match_string_value :: "platform \<Rightarrow> string \<Rightarrow> msg_seq \<Rightarrow> match_outcome" where
  "match_string_value pf val = string_matcher_match pf (map (create_int pf) val)"

definition assign_matched_string :: "platform \<Rightarrow> nat \<Rightarrow> msg_seq \<Rightarrow> match_outcome" where
  "assign_matched_string pf x s =
     (case string_matcher_assign pf s of
        (ok, s', vs) \<Rightarrow> (ok, s', [(x, Pushed_string (map shrink_int vs))]))"

definition match_any_string :: "platform \<Rightarrow> msg_seq \<Rightarrow> bool \<times> msg_seq \<times> msg_seq" where
  "match_any_string pf s =
     (case string_matcher_assign pf s of
        (ok, s', vs) \<Rightarrow> (ok, s', if ok then consumed s s' else []))"

section \<open>Lists\<close>

text \<open>\<open>qi::parse(f, l, qi::byte_(nil_ext))\<close> with its answer ignored.\<close>

definition skip_nil :: "platform \<Rightarrow> msg_seq \<Rightarrow> msg_seq" where
  "skip_nil pf s = (case nil_ext pf s of None \<Rightarrow> s | Some (_, s') \<Rightarrow> s')"

text \<open>One round of \<open>assign_match\<close>: an element built from a pointer, of the list's class.\<close>

definition assign_element :: "platform \<Rightarrow> elem \<Rightarrow> msg_seq \<Rightarrow> (bound option \<times> msg_seq) result" where
  "assign_element pf k s =
     (let pick = (\<lambda>(ok, s', w :: writes). (if ok then Some (snd (hd w)) else None, s')) in
      case k of
        Elem_int \<Rightarrow> Inr (pick (assign_matched_int pf 0 s))
      | Elem_pid \<Rightarrow> Inr (pick (assign_matched pf 0 s))
      | Elem_float \<Rightarrow> and_then (assign_matched_float pf 0 s) (\<lambda>r. Inr (pick r))
      | Elem_atom \<Rightarrow> Inr (pick (assign_matched_atom pf 0 s))
      | Elem_ref \<Rightarrow> Inr (pick (assign_matched_ref pf 0 s)))"

text \<open>The element that is pushed after a failure: a failed float was set to zero.\<close>

definition failed_element :: "elem \<Rightarrow> bound" where
  "failed_element k = (case k of Elem_float \<Rightarrow> Bound_float 0 | _ \<Rightarrow> Bound_indeterminate)"

fun list_assign_loop ::
  "platform \<Rightarrow> elem \<Rightarrow> nat \<Rightarrow> msg_seq \<Rightarrow> (bool \<times> msg_seq \<times> bound list) result" where
  "list_assign_loop pf k 0 s = Inr (True, s, [])"
| "list_assign_loop pf k (Suc n) s =
     and_then (assign_element pf k s) (\<lambda>(v, s').
       case v of
         None \<Rightarrow> Inr (False, s', [failed_element k])
       | Some b \<Rightarrow> and_then (list_assign_loop pf k n s') (\<lambda>(ok, s'', vs). Inr (ok, s'', b # vs)))"

definition list_matcher_assign :: "platform \<Rightarrow> elem \<Rightarrow> nat \<Rightarrow> msg_seq \<Rightarrow> match_outcome result" where
  "list_matcher_assign pf k x s =
     (case list_head_ext pf s of
        None \<Rightarrow> Inr (False, s, [(x, Pushed_list [])])
      | Some (parsed_length, s') \<Rightarrow>
          and_then (list_assign_loop pf k parsed_length s') (\<lambda>(ok, s'', vs).
            case (if ok then nil_ext pf s'' else None) of
              None \<Rightarrow> Inr (False, s'', [(x, Pushed_list vs)])
            | Some (_, s3) \<Rightarrow> Inr (True, s3, [(x, Pushed_list vs)])))"

text \<open>\<open>type_tag::string_ext == *f\<close> reads the iterator without comparing it with the end.\<close>

definition is_packed_as_string :: "platform \<Rightarrow> msg_seq \<Rightarrow> bool result" where
  "is_packed_as_string pf s =
     (case s of [] \<Rightarrow> Inl Undefined_behaviour | b # _ \<Rightarrow> Inr (char_to_int pf b = 107))"

section \<open>The wildcard\<close>

text \<open>
  \<open>any::match_dynamically\<close> looks the tag up in \<open>dynamic_element_matcher\<close>; tuples and lists
  recurse through the same \<open>any\<close>, which collects the bytes. The head of a tuple or list is
  parsed under an \<open>assert\<close>. The fuel bounds the nesting; the length of the input is
  enough (\<open>spirit.any_match_has_fuel\<close>).
\<close>

definition save_matched_bytes :: "msg_seq \<Rightarrow> bool \<times> msg_seq \<times> msg_seq \<Rightarrow> bool \<times> msg_seq \<times> msg_seq" where
  "save_matched_bytes acc r = (case r of (ok, s', saved) \<Rightarrow> (ok, s', acc @ saved))"

fun any_match :: "platform \<Rightarrow> nat \<Rightarrow> msg_seq \<Rightarrow> msg_seq \<Rightarrow> (bool \<times> msg_seq \<times> msg_seq) result"
and any_elements ::
  "platform \<Rightarrow> nat \<Rightarrow> nat \<Rightarrow> msg_seq \<Rightarrow> msg_seq \<Rightarrow> (bool \<times> msg_seq \<times> msg_seq) result" where
  "any_match pf 0 s acc = Inl Out_of_fuel"
| "any_match pf (Suc fuel) s acc =
     (case s of
        [] \<Rightarrow> Inr (False, s, acc)
      | tag # _ \<Rightarrow>
          if tag = tag_small_integer \<or> tag = tag_integer
            then Inr (save_matched_bytes acc (match_any_int pf s))
          else if tag = tag_atom_ext then Inr (save_matched_bytes acc (match_any_atom pf s))
          else if tag = tag_small_tuple then
            (case small_tuple_head_ext pf s of
               None \<Rightarrow> Inl Assert_failed
             | Some (n, s') \<Rightarrow> any_elements pf fuel n s' (acc @ consumed s s'))
          else if tag = tag_list then
            (case list_head_ext pf s of
               None \<Rightarrow> Inl Assert_failed
             | Some (n, s') \<Rightarrow> any_elements pf fuel n s' (acc @ consumed s s'))
          else if tag = tag_string_ext then Inr (save_matched_bytes acc (match_any_string pf s))
          else if tag = tag_pid then Inr (save_matched_bytes acc (match_any_pid pf s))
          else if tag = tag_new_reference_ext then Inr (save_matched_bytes acc (match_any_ref pf s))
          else if tag = tag_float_ext then Inr (save_matched_bytes acc (match_any_float pf s))
          else if tag = tag_binary_ext \<or> tag = tag_bit_binary_ext
            then Inr (save_matched_bytes acc (match_any_binary pf s))
          else Inr (False, s, acc))"
| "any_elements pf fuel 0 s acc = Inr (True, s, acc)"
| "any_elements pf fuel (Suc n) s acc =
     and_then (any_match pf fuel s acc) (\<lambda>(ok, s', acc').
       if ok then any_elements pf fuel n s' acc' else Inr (False, s', acc'))"

section \<open>Matching an object\<close>

definition match_mode ::
  "('v \<Rightarrow> msg_seq \<Rightarrow> match_outcome) \<Rightarrow> (nat \<Rightarrow> msg_seq \<Rightarrow> match_outcome) \<Rightarrow>
   (msg_seq \<Rightarrow> bool \<times> msg_seq \<times> msg_seq) \<Rightarrow> 'v mode \<Rightarrow> msg_seq \<Rightarrow> match_outcome" where
  "match_mode value assign wild m s =
     (case m of Val v \<Rightarrow> value v s | Assign x \<Rightarrow> assign x s | Wild \<Rightarrow> wild_with (wild s))"

definition match_float :: "platform \<Rightarrow> double mode \<Rightarrow> msg_seq \<Rightarrow> match_outcome result" where
  "match_float pf m s =
     (case m of
        Val v \<Rightarrow> match_float_value pf v s
      | Assign x \<Rightarrow> assign_matched_float pf x s
      | Wild \<Rightarrow> Inr (wild_with (match_any_float pf s)))"

definition match_int :: "platform \<Rightarrow> u32 mode \<Rightarrow> msg_seq \<Rightarrow> match_outcome" where
  "match_int pf = match_mode (match_int_value pf) (assign_matched_int pf) (match_any_int pf)"

text \<open>\<open>std::find_if_not\<close> over the elements of a \<open>list<int_>\<close> that is not packed.\<close>

fun match_ints :: "platform \<Rightarrow> u32 mode list \<Rightarrow> msg_seq \<Rightarrow> match_outcome" where
  "match_ints pf [] s = (True, s, [])"
| "match_ints pf (m # ms) s =
     (case match_int pf m s of
        (ok, s', w) \<Rightarrow>
          if ok then (case match_ints pf ms s' of (ok', s'', w') \<Rightarrow> (ok', s'', w @ w'))
          else (False, s', w))"

definition match_int_list :: "platform \<Rightarrow> u32 mode list \<Rightarrow> msg_seq \<Rightarrow> match_outcome result" where
  "match_int_list pf ms s =
     and_then (is_packed_as_string pf s) (\<lambda>packed.
       if packed then Inr (string_matcher_match pf ms s)
       else
         (case list_head_ext pf s of
            None \<Rightarrow> Inr (False, skip_nil pf s, [])
          | Some (parsed_length, s') \<Rightarrow>
              if length ms = parsed_length
              then (case match_ints pf ms s' of (ok, s'', w) \<Rightarrow> Inr (ok, skip_nil pf s'', w))
              else Inr (False, skip_nil pf s', [])))"

definition assign_int_list :: "platform \<Rightarrow> nat \<Rightarrow> msg_seq \<Rightarrow> match_outcome result" where
  "assign_int_list pf x s =
     and_then (is_packed_as_string pf s) (\<lambda>packed.
       if packed
       then (case string_matcher_assign pf s of
               (ok, s', vs) \<Rightarrow> Inr (ok, s', [(x, Pushed_list (map Bound_int vs))]))
       else list_matcher_assign pf Elem_int x s)"

fun match_obj :: "platform \<Rightarrow> obj \<Rightarrow> msg_seq \<Rightarrow> match_outcome result"
and match_all :: "platform \<Rightarrow> obj list \<Rightarrow> msg_seq \<Rightarrow> match_outcome result" where
  "match_obj pf (E_int m) s = Inr (match_int pf m s)"
| "match_obj pf (E_pid m) s =
     Inr (match_mode (match_value pf) (assign_matched pf) (match_any_pid pf) m s)"
| "match_obj pf (E_float m) s = match_float pf m s"
| "match_obj pf (E_atom m) s =
     Inr (match_mode (match_atom_value pf) (assign_matched_atom pf) (match_any_atom pf) m s)"
| "match_obj pf (E_binary m) s =
     Inr (match_mode (match_binary_value pf) (assign_matched_binary pf) (match_any_binary pf) m s)"
| "match_obj pf (E_ref m) s =
     Inr (match_mode (match_ref_value pf) (assign_matched_ref pf) (match_any_ref pf) m s)"
| "match_obj pf (E_string m) s =
     Inr (match_mode (match_string_value pf) (assign_matched_string pf) (match_any_string pf) m s)"
| "match_obj pf (E_tuple os) s =
     (case small_tuple_head_ext pf s of
        None \<Rightarrow> Inr (False, s, [])
      | Some (parsed_length, s') \<Rightarrow>
          if length os = parsed_length then match_all pf os s' else Inr (False, s', []))"
| "match_obj pf (E_list os) s =
     (case list_head_ext pf s of
        None \<Rightarrow> Inr (False, skip_nil pf s, [])
      | Some (parsed_length, s') \<Rightarrow>
          if length os = parsed_length
          then and_then (match_all pf os s') (\<lambda>(ok, s'', w). Inr (ok, skip_nil pf s'', w))
          else Inr (False, skip_nil pf s', []))"
| "match_obj pf (E_list_assign k x) s = list_matcher_assign pf k x s"
| "match_obj pf (Int_list ms) s = match_int_list pf ms s"
| "match_obj pf (Int_list_assign x) s = assign_int_list pf x s"
| "match_obj pf (Any x) s =
     and_then (any_match pf (Suc (length s)) s []) (\<lambda>(ok, s', acc).
       Inr (ok, s', case x of None \<Rightarrow> [] | Some v \<Rightarrow> [(v, Bound_matchable acc)]))"
| "match_all pf [] s = Inr (True, s, [])"
| "match_all pf (p # ps) s =
     and_then (match_obj pf p s) (\<lambda>(ok, s', w).
       if ok then and_then (match_all pf ps s') (\<lambda>(ok', s'', w'). Inr (ok', s'', w @ w'))
       else Inr (False, s', w))"

text \<open>\<open>matchable_seq::match\<close> and \<open>matchable_range::match\<close>: the whole message, or the range whose
  first iterator the match advances.\<close>

definition matchable_seq_match :: "platform \<Rightarrow> msg_seq \<Rightarrow> obj \<Rightarrow> (bool \<times> writes) result" where
  "matchable_seq_match pf msg pattern =
     and_then (match_obj pf pattern msg) (\<lambda>(ok, s', w). Inr (ok, w))"

definition matchable_range_match :: "platform \<Rightarrow> msg_seq \<Rightarrow> obj \<Rightarrow> match_outcome result" where
  "matchable_range_match pf s pattern = match_obj pf pattern s"

end
