(* ===== verification/Pattern_Spec.thy ===== *)
theory Pattern_Spec
  imports Terms
begin

text \<open>
  What pattern matching promises, and that the byte-level matchers of \<open>Terms\<close> keep it.
  \<open>spec_match\<close> matches a pattern against a term as a tree, with no bytes in sight; the
  refinement \<open>match_refines\<close> says that matching the serialized term gives the same answer,
  the same assignments, and stops exactly behind the term. The exceptions the code makes
  (the value match of strings, lists under a wildcard) are properties of their own.
\<close>

section \<open>Terms whose fields fit the format\<close>

fun wf_value :: "platform \<Rightarrow> obj \<Rightarrow> bool" where
  "wf_value pf (E_int (Val i)) = True"
| "wf_value pf (E_pid (Val p)) = wf_pid p"
| "wf_value pf (E_float (Val d)) = (sscanf_lf pf (encode_float pf d) \<noteq> None)"
| "wf_value pf (E_atom (Val a)) = wf_atom a"
| "wf_value pf (E_binary (Val b)) = (wf_binary b \<and> length (bin_value b) < 2 ^ 32)"
| "wf_value pf (E_ref (Val r)) = wf_reference r"
| "wf_value pf (E_tuple vs) = (length vs < 256 \<and> (\<forall>v \<in> set vs. wf_value pf v))"
| "wf_value pf (E_list vs) = (length vs < 2 ^ 32 \<and> (\<forall>v \<in> set vs. wf_value pf v))"
| "wf_value pf v = False"

fun has_list :: "obj \<Rightarrow> bool" where
  "has_list (E_list vs) = True"
| "has_list (E_tuple vs) = (\<exists>v \<in> set vs. has_list v)"
| "has_list v = False"

fun has_any :: "obj \<Rightarrow> bool" where
  "has_any (Any x) = True"
| "has_any (E_tuple ps) = (\<exists>p \<in> set ps. has_any p)"
| "has_any (E_list ps) = (\<exists>p \<in> set ps. has_any p)"
| "has_any p = False"

text \<open>Every wildcard of the pattern stands where the term has a subterm without lists.\<close>

fun wildcards_fit :: "obj \<Rightarrow> obj \<Rightarrow> bool"
and wildcards_fit_all :: "obj list \<Rightarrow> obj list \<Rightarrow> bool" where
  "wildcards_fit (Any x) v = (\<not> has_list v)"
| "wildcards_fit (E_tuple ps) v = (case v of E_tuple vs \<Rightarrow> wildcards_fit_all ps vs | _ \<Rightarrow> True)"
| "wildcards_fit (E_list ps) v = (case v of E_list vs \<Rightarrow> wildcards_fit_all ps vs | _ \<Rightarrow> True)"
| "wildcards_fit p v = True"
| "wildcards_fit_all (p # ps) (v # vs) = (wildcards_fit p v \<and> wildcards_fit_all ps vs)"
| "wildcards_fit_all ps vs = True"

lemma listless_fits:
  "\<not> has_list v \<Longrightarrow> wildcards_fit p v"
  "\<forall>v\<in>set vs. \<not> has_list v \<Longrightarrow> wildcards_fit_all ps vs"
  by (induction p v and ps vs rule: wildcards_fit_wildcards_fit_all.induct) (auto split: obj.splits)

lemma no_wildcard_fits:
  "\<not> has_any p \<Longrightarrow> wildcards_fit p v"
  "\<forall>p\<in>set ps. \<not> has_any p \<Longrightarrow> wildcards_fit_all ps vs"
  by (induction p v and ps vs rule: wildcards_fit_wildcards_fit_all.induct) (auto split: obj.splits)

lemma wildcards_fit_zip: "wildcards_fit_all ps vs \<Longrightarrow> (p, v) \<in> set (zip ps vs) \<Longrightarrow> wildcards_fit p v"
  by (induction ps vs rule: list_induct2') auto

text \<open>Patterns without strings, which are treated on their own.\<close>

fun no_string :: "obj \<Rightarrow> bool" where
  "no_string (E_string m) = False"
| "no_string (E_tuple ps) = (\<forall>p \<in> set ps. no_string p)"
| "no_string (E_list ps) = (\<forall>p \<in> set ps. no_string p)"
| "no_string p = True"

section \<open>Matching of trees\<close>

definition spec_mode :: "('v \<Rightarrow> 'v \<Rightarrow> bool) \<Rightarrow> ('v \<Rightarrow> bound) \<Rightarrow> 'v mode \<Rightarrow> 'v \<Rightarrow> writes option" where
  "spec_mode eq wr m v =
     (case m of Val u \<Rightarrow> if eq u v then Some [] else None | Assign x \<Rightarrow> Some [(x, wr v)] | Wild \<Rightarrow> Some [])"

definition bound_of_binary :: "binary_value_type \<Rightarrow> bound" where
  "bound_of_binary b = (if 0 < padding_bits b then Bound_binary b else Bound_bytes (bin_value b))"

text \<open>The double a float term carries: what the decimal text on the wire is read back as.\<close>

definition wire_double :: "platform \<Rightarrow> double \<Rightarrow> double" where
  "wire_double pf d = the (sscanf_lf pf (encode_float pf d))"

fun spec_element :: "platform \<Rightarrow> elem \<Rightarrow> obj \<Rightarrow> bound option" where
  "spec_element pf Elem_int (E_int (Val i)) = Some (Bound_int i)"
| "spec_element pf Elem_pid (E_pid (Val p)) = Some (Bound_pid p)"
| "spec_element pf Elem_float (E_float (Val d)) = Some (Bound_float (wire_double pf d))"
| "spec_element pf Elem_atom (E_atom (Val a)) = Some (Bound_atom a)"
| "spec_element pf Elem_ref (E_ref (Val r)) = Some (Bound_ref r)"
| "spec_element pf k v = None"

definition spec_push :: "platform \<Rightarrow> elem \<Rightarrow> nat \<Rightarrow> obj \<Rightarrow> writes option" where
  "spec_push pf k x v =
     (case v of
        E_list vs \<Rightarrow> map_option (\<lambda>bs. [(x, Pushed_list bs)]) (those (map (spec_element pf k) vs))
      | _ \<Rightarrow> None)"

fun spec_match :: "platform \<Rightarrow> obj \<Rightarrow> obj \<Rightarrow> writes option"
and spec_all :: "platform \<Rightarrow> obj list \<Rightarrow> obj list \<Rightarrow> writes option" where
  "spec_match pf (E_int m) v =
     (case v of E_int (Val i) \<Rightarrow> spec_mode (=) Bound_int m i | _ \<Rightarrow> None)"
| "spec_match pf (E_pid m) v =
     (case v of E_pid (Val p) \<Rightarrow> spec_mode (=) Bound_pid m p | _ \<Rightarrow> None)"
| "spec_match pf (E_float m) v =
     (case v of E_float (Val d) \<Rightarrow> spec_mode (equal_doubles pf) Bound_float m (wire_double pf d)
      | _ \<Rightarrow> None)"
| "spec_match pf (E_atom m) v =
     (case v of E_atom (Val a) \<Rightarrow> spec_mode (=) Bound_atom m a | _ \<Rightarrow> None)"
| "spec_match pf (E_binary m) v =
     (case v of E_binary (Val b) \<Rightarrow> spec_mode (=) bound_of_binary m b | _ \<Rightarrow> None)"
| "spec_match pf (E_ref m) v =
     (case v of E_ref (Val r) \<Rightarrow> spec_mode (=) Bound_ref m r | _ \<Rightarrow> None)"
| "spec_match pf (E_string m) v = None"
| "spec_match pf (E_tuple ps) v = (case v of E_tuple vs \<Rightarrow> spec_all pf ps vs | _ \<Rightarrow> None)"
| "spec_match pf (E_list ps) v = (case v of E_list vs \<Rightarrow> spec_all pf ps vs | _ \<Rightarrow> None)"
| "spec_match pf (E_list_assign k x) v = spec_push pf k x v"
| "spec_match pf (Int_list ms) v =
     (case v of E_list vs \<Rightarrow> spec_all pf (map E_int ms) vs | _ \<Rightarrow> None)"
| "spec_match pf (Int_list_assign x) v = spec_push pf Elem_int x v"
| "spec_match pf (Any x) v =
     Some (case x of None \<Rightarrow> [] | Some n \<Rightarrow> [(n, Bound_matchable (serialize pf v))])"
| "spec_all pf [] vs = (if vs = [] then Some [] else None)"
| "spec_all pf (p # ps) vs =
     (case vs of
        [] \<Rightarrow> None
      | v # vs' \<Rightarrow>
          (case spec_match pf p v of
             None \<Rightarrow> None
           | Some w \<Rightarrow> map_option (\<lambda>w'. w @ w') (spec_all pf ps vs')))"

text \<open>
  An outcome agrees with the specification: the answers coincide, and a match leaves the
  bytes behind the term and made the writes of the specification.
\<close>

definition agrees :: "match_outcome result \<Rightarrow> writes option \<Rightarrow> msg_seq \<Rightarrow> bool" where
  "agrees m sp rest =
     (case sp of
        None \<Rightarrow> (\<exists>s' w. m = Inr (False, s', w))
      | Some w \<Rightarrow> m = Inr (True, rest, w))"

section \<open>Leaves\<close>

lemma member_val_Val [simp]: "member_val d (Val v) = v"
  by (simp add: member_val_def)

lemma length_encode_float [simp]: "length (encode_float pf d) = float_digits"
  by (simp add: encode_float_def)

lemma consumed_append [simp]: "consumed (t @ s) s = t"
  by (simp add: consumed_def)

text \<open>The three modes of a leaf, over what its parser answers.\<close>

lemma agrees_mode:
  assumes "p inp = Some (v, rest)"
  shows "agrees (Inr (match_mode (\<lambda>u. value_with p (eq u)) (assign_with p wr) (any_with p) m inp))
           (spec_mode eq wr m v) rest"
  using assms
  by (cases m) (simp_all add: match_mode_def value_with_def assign_with_def any_with_def
      wild_with_def spec_mode_def agrees_def)

lemma agrees_mode_None:
  assumes "p inp = None"
  shows "agrees (Inr (match_mode (\<lambda>u. value_with p (eq u)) (assign_with p wr) (any_with p) m inp))
           None rest"
  using assms
  by (cases m) (simp_all add: match_mode_def value_with_def assign_with_def any_with_def
      wild_with_def agrees_def)

lemmas leaf_defs =
  match_int_def match_int_value_def assign_matched_int_def match_any_int_def
  match_value_def assign_matched_def match_any_pid_def
  match_atom_value_def assign_matched_atom_def match_any_atom_def
  match_ref_value_def assign_matched_ref_def match_any_ref_def

context spirit
begin

lemma serialize_int_cases:
  "(serialize_int pf i = small_integer_g pf (ucast i) \<and> ucast (ucast i :: byte) = i) \<or>
   serialize_int pf i = integer_ext_g pf i"
proof (cases "0 \<le> sint i \<and> sint i \<le> 255")
  case True
  then have "uint i < 256" by (simp add: uint_sint take_bit_int_eq_self)
  then have "i < 256" by (simp add: word_less_alt)
  then show ?thesis by (simp add: serialize_int_def True ucast_u32_byte_roundtrip)
next
  case False
  then show ?thesis by (auto simp: serialize_int_def)
qed

end

text \<open>Where running out of fuel can come from.\<close>

lemma out_of_fuel_and_then:
  assumes "and_then m k = Inl Out_of_fuel"
  obtains "m = Inl Out_of_fuel" | x where "m = Inr x" "k x = Inl Out_of_fuel"
  using assms by (cases m) auto

lemma decode_float_fuel: "decode_float pf ds \<noteq> Inl Out_of_fuel"
  by (simp add: decode_float_def split: option.splits)

lemma match_float_fuel: "match_float pf fm s \<noteq> Inl Out_of_fuel"
  by (auto simp: match_float_def match_float_value_def assign_matched_float_def decode_float_fuel
      elim!: out_of_fuel_and_then split: mode.splits option.splits)

lemma assign_element_fuel: "assign_element pf k s \<noteq> Inl Out_of_fuel"
  by (auto simp: assign_element_def Let_def assign_matched_float_def decode_float_fuel
      elim!: out_of_fuel_and_then split: elem.splits option.splits)

lemma list_assign_loop_fuel: "list_assign_loop pf k n s \<noteq> Inl Out_of_fuel"
  by (induction n arbitrary: s)
    (auto simp: assign_element_fuel elim!: out_of_fuel_and_then split: option.splits)

lemma list_matcher_assign_fuel: "list_matcher_assign pf k x s \<noteq> Inl Out_of_fuel"
  by (auto simp: list_matcher_assign_def list_assign_loop_fuel
      elim!: out_of_fuel_and_then split: option.splits)

lemmas out_of_fuel_leaves =
  match_float_fuel list_matcher_assign_fuel

lemma int_list_fuel:
  "match_int_list pf ms s \<noteq> Inl Out_of_fuel"
  "assign_int_list pf x s \<noteq> Inl Out_of_fuel"
  by (auto simp: match_int_list_def assign_int_list_def is_packed_as_string_def
      list_matcher_assign_fuel split: list.splits option.splits prod.splits)

section \<open>First bytes, lengths, and the three leaf modes over the parsers\<close>

fun tags :: "obj \<Rightarrow> byte set" where
  "tags (E_int m) = {tag_small_integer, tag_integer}"
| "tags (E_pid m) = {tag_pid}"
| "tags (E_float m) = {tag_float_ext}"
| "tags (E_atom m) = {tag_atom_ext}"
| "tags (E_binary m) = {tag_binary_ext, tag_bit_binary_ext}"
| "tags (E_ref m) = {tag_new_reference_ext}"
| "tags (E_tuple vs) = {tag_small_tuple}"
| "tags (E_list vs) = {tag_list}"
| "tags v = {}"

definition fuelled :: "(bool \<times> msg_seq \<times> msg_seq) result \<Rightarrow> msg_seq \<Rightarrow> bool" where
  "fuelled m s \<longleftrightarrow> m \<noteq> Inl Out_of_fuel \<and> (\<forall>ok r acc. m = Inr (ok, r, acc) \<longrightarrow> length r \<le> length s)"

lemma spec_all_length: "spec_all pf ps vs = Some w \<Longrightarrow> length ps = length vs"
  by (induction ps arbitrary: vs w) (auto split: if_splits list.splits option.splits)

lemma spec_all_length_None: "length ps \<noteq> length vs \<Longrightarrow> spec_all pf ps vs = None"
  using spec_all_length by (cases "spec_all pf ps vs") auto

lemma mode_leaves:
  "match_int pf = match_mode (\<lambda>u. value_with (integer pf) ((=) u)) (assign_with (integer pf) Bound_int) (any_with (integer pf))"
  "match_mode (match_value pf) (assign_matched pf) (match_any_pid pf) =
     match_mode (\<lambda>u. value_with (pid_ext pf) ((=) u)) (assign_with (pid_ext pf) Bound_pid) (any_with (pid_ext pf))"
  "match_mode (match_atom_value pf) (assign_matched_atom pf) (match_any_atom pf) =
     match_mode (\<lambda>u. value_with (atom_ext pf) ((=) u)) (assign_with (atom_ext pf) Bound_atom) (any_with (atom_ext pf))"
  "match_mode (match_ref_value pf) (assign_matched_ref pf) (match_any_ref pf) =
     match_mode (\<lambda>u. value_with (new_reference_ext_p pf) ((=) u)) (assign_with (new_reference_ext_p pf) Bound_ref)
       (any_with (new_reference_ext_p pf))"
  by (auto simp: leaf_defs [abs_def] fun_eq_iff match_mode_def value_with_def
      split: mode.splits option.splits)

context spirit
begin

lemma serialize_tag: "wf_value pf v \<Longrightarrow> \<exists>t r. serialize pf v = t # r \<and> t \<in> tags v"
  by (cases "(pf, v)" rule: wf_value.cases)
    (auto simp: serialize_int_def serialize_float_def serialize_binary_def grammar_defs)

lemma integer_own [simp]: "integer pf (serialize_int pf i @ s) = Some (i, s)"
  using serialize_int_cases [of i] by (auto simp: integer_small integer_medium)

lemma float_own [simp]: "float_ext pf (serialize_float pf d @ s) = Some (encode_float pf d, s)"
  using float_roundtrip [of "encode_float pf d" s] by (auto simp: serialize_float_def)

lemma leaf_refused:
  assumes "wf_value pf v"
  shows "tags v \<inter> {tag_small_integer, tag_integer} = {} \<Longrightarrow> integer pf (serialize pf v @ s) = None"
    and "tag_pid \<notin> tags v \<Longrightarrow> pid_ext pf (serialize pf v @ s) = None"
    and "tag_atom_ext \<notin> tags v \<Longrightarrow> atom_ext pf (serialize pf v @ s) = None"
    and "tag_new_reference_ext \<notin> tags v \<Longrightarrow> new_reference_ext_p pf (serialize pf v @ s) = None"
    and "tag_float_ext \<notin> tags v \<Longrightarrow> float_ext pf (serialize pf v @ s) = None"
    and "tag_binary_ext \<notin> tags v \<Longrightarrow> binary_ext pf (serialize pf v @ s) = None"
    and "tag_bit_binary_ext \<notin> tags v \<Longrightarrow> bit_binary_ext pf (serialize pf v @ s) = None"
    and "tag_small_tuple \<notin> tags v \<Longrightarrow> small_tuple_head_ext pf (serialize pf v @ s) = None"
    and "tag_list \<notin> tags v \<Longrightarrow> list_head_ext pf (serialize pf v @ s) = None"
  using serialize_tag [OF assms] by (auto simp: integer_Cons intro!: other_tag)

lemma leaf_own:
  "integer pf (serialize pf (E_int (Val i)) @ s) = Some (i, s)"
  "wf_pid p \<Longrightarrow> pid_ext pf (serialize pf (E_pid (Val p)) @ s) = Some (p, s)"
  "wf_atom a \<Longrightarrow> atom_ext pf (serialize pf (E_atom (Val a)) @ s) = Some (a, s)"
  "wf_reference r \<Longrightarrow> new_reference_ext_p pf (serialize pf (E_ref (Val r)) @ s) = Some (r, s)"
  "float_ext pf (serialize pf (E_float (Val d)) @ s) = Some (encode_float pf d, s)"
  by simp_all

lemma not_packed:
  assumes "wf_value pf v"
  shows "is_packed_as_string pf (serialize pf v @ s) = Inr False"
proof -
  obtain t r where t: "serialize pf v = t # r" "t \<in> tags v" using serialize_tag [OF assms] by blast
  then have "t \<in> {77, 97, 98, 99, 100, 103, 104, 108, 109, 114}" by (cases v) auto
  then show ?thesis by (auto simp: t is_packed_as_string_def char_to_int_def)
qed

lemmas leaf_agrees_simps = mode_leaves leaf_own leaf_refused

lemma int_agrees:
  "wf_value pf v \<Longrightarrow> agrees (match_obj pf (E_int m) (serialize pf v @ s)) (spec_match pf (E_int m) v) s"
  by (cases "(pf, v)" rule: wf_value.cases)
    (auto simp: leaf_agrees_simps simp del: serialize.simps intro!: agrees_mode agrees_mode_None)

lemma pid_agrees:
  "wf_value pf v \<Longrightarrow> agrees (match_obj pf (E_pid m) (serialize pf v @ s)) (spec_match pf (E_pid m) v) s"
  by (cases "(pf, v)" rule: wf_value.cases)
    (auto simp: leaf_agrees_simps simp del: serialize.simps intro!: agrees_mode agrees_mode_None)

lemma atom_agrees:
  "wf_value pf v \<Longrightarrow> agrees (match_obj pf (E_atom m) (serialize pf v @ s)) (spec_match pf (E_atom m) v) s"
  by (cases "(pf, v)" rule: wf_value.cases)
    (auto simp: leaf_agrees_simps simp del: serialize.simps intro!: agrees_mode agrees_mode_None)

lemma ref_agrees:
  "wf_value pf v \<Longrightarrow> agrees (match_obj pf (E_ref m) (serialize pf v @ s)) (spec_match pf (E_ref m) v) s"
  by (cases "(pf, v)" rule: wf_value.cases)
    (auto simp: leaf_agrees_simps simp del: serialize.simps intro!: agrees_mode agrees_mode_None)

lemmas float_defs =
  match_float_def match_float_value_def assign_matched_float_def match_any_float_def
  decode_float_def any_with_def wild_with_def spec_mode_def wire_double_def

lemma float_agrees:
  "wf_value pf v \<Longrightarrow> agrees (match_obj pf (E_float m) (serialize pf v @ s)) (spec_match pf (E_float m) v) s"
  by (cases "(pf, v)" rule: wf_value.cases; cases m)
    (auto simp: leaf_own leaf_refused float_defs agrees_def simp del: serialize.simps)

lemma binary_own:
  assumes "wf_binary b" and "length (bin_value b) < 2 ^ 32"
  shows "0 < padding_bits b \<Longrightarrow> binary_ext pf (serialize_binary pf b @ s) = None"
    and "0 < padding_bits b \<Longrightarrow> bit_binary_ext pf (serialize_binary pf b @ s) = Some (b, s)"
    and "\<not> 0 < padding_bits b \<Longrightarrow> binary_ext pf (serialize_binary pf b @ s) = Some (bin_value b, s)"
  using assms
  by (auto simp: serialize_binary_def wf_binary_def) (simp add: bit_binary_ext_g_def Let_def other_tag)

lemma binary_agrees:
  assumes "wf_value pf v"
  shows "agrees (match_obj pf (E_binary m) (serialize pf v @ s)) (spec_match pf (E_binary m) v) s"
proof (cases "\<exists>b. v = E_binary (Val b)")
  case True
  then obtain b where v: "v = E_binary (Val b)" by blast
  have "make_binary (bin_value b) = b" if "\<not> 0 < padding_bits b"
    using assms that by (cases b) (auto simp: v wf_binary_def make_binary_def)
  then show ?thesis
    using assms binary_own [of b s]
    by (cases m; cases "0 < padding_bits b")
      (auto simp: v agrees_def match_mode_def match_binary_value_def assign_matched_binary_def
        match_any_binary_def value_with_def assign_with_def any_with_def wild_with_def
        spec_mode_def bound_of_binary_def)
next
  case False
  then have "binary_ext pf (serialize pf v @ s) = None" "bit_binary_ext pf (serialize pf v @ s) = None"
    using assms by (cases "(pf, v)" rule: wf_value.cases; auto intro!: leaf_refused simp del: serialize.simps)+
  then show ?thesis
    using False assms
    by (cases "(pf, v)" rule: wf_value.cases; cases m)
      (auto simp: agrees_def match_mode_def match_binary_value_def assign_matched_binary_def
        match_any_binary_def value_with_def assign_with_def any_with_def wild_with_def
        simp del: serialize.simps)
qed


text \<open>Lists that are assigned element by element.\<close>

lemma assign_element_agrees:
  assumes "wf_value pf v"
  shows "assign_element pf k (serialize pf v @ s) =
    (case spec_element pf k v of
       Some b \<Rightarrow> Inr (Some b, s)
     | None \<Rightarrow> Inr (None, serialize pf v @ s))"
  using assms
  by (cases "(pf, v)" rule: wf_value.cases; cases k)
    (auto simp: assign_element_def leaf_defs assign_with_def leaf_own leaf_refused float_defs
      simp del: serialize.simps)

lemma list_assign_loop_agrees:
  assumes "\<forall>v \<in> set vs. wf_value pf v"
  shows "case those (map (spec_element pf k) vs) of
      Some bs \<Rightarrow> list_assign_loop pf k (length vs) (concat (map (serialize pf) vs) @ s) = Inr (True, s, bs)
    | None \<Rightarrow> \<exists>s' bs. list_assign_loop pf k (length vs) (concat (map (serialize pf) vs) @ s) = Inr (False, s', bs)"
  using assms
proof (induction vs)
  case Nil
  then show ?case by simp
next
  case (Cons v vs)
  then show ?case
    by (auto simp: assign_element_agrees simp del: serialize.simps split: option.splits)
qed

lemma push_agrees:
  assumes "wf_value pf v"
  shows "agrees (list_matcher_assign pf k x (serialize pf v @ s)) (spec_push pf k x v) s"
proof (cases "\<exists>vs. v = E_list vs")
  case True
  then obtain vs where v: "v = E_list vs" by blast
  with assms show ?thesis
    using list_assign_loop_agrees [of vs k "tag_nil_ext # s"]
    by (auto simp: v list_matcher_assign_def spec_push_def agrees_def nil_ext_def split: option.splits)
next
  case False
  then have "list_head_ext pf (serialize pf v @ s) = None"
    using assms by (cases "(pf, v)" rule: wf_value.cases; auto intro!: leaf_refused simp del: serialize.simps)
  then show ?thesis
    using False by (cases v) (auto simp: list_matcher_assign_def spec_push_def agrees_def)
qed

text \<open>The wildcard takes exactly the bytes of a term without lists.\<close>

lemma any_elements_agrees:
  assumes "\<And>v s acc. v \<in> set vs \<Longrightarrow>
      any_match pf fuel (serialize pf v @ s) acc = Inr (True, s, acc @ serialize pf v)"
  shows "any_elements pf fuel (length vs) (concat (map (serialize pf) vs) @ s) acc =
      Inr (True, s, acc @ concat (map (serialize pf) vs))"
  using assms by (induction vs arbitrary: acc) auto

lemma any_with_own: "p (t @ s) = Some (v, s) \<Longrightarrow> any_with p (t @ s) = (True, s, t)"
  by (simp add: any_with_def)

lemma any_binary_own:
  assumes "wf_binary b" and "length (bin_value b) < 2 ^ 32"
  shows "match_any_binary pf (serialize_binary pf b @ s) = (True, s, serialize_binary pf b)"
  using binary_own [OF assms, of s]
  by (cases "0 < padding_bits b") (simp_all add: match_any_binary_def any_with_def)

lemma any_match_step:
  assumes "s = t # r"
  shows "any_match pf (Suc fuel) s acc =
    (if t = tag_small_integer \<or> t = tag_integer
       then Inr (save_matched_bytes acc (match_any_int pf s))
     else if t = tag_atom_ext then Inr (save_matched_bytes acc (match_any_atom pf s))
     else if t = tag_small_tuple then
       (case small_tuple_head_ext pf s of
          None \<Rightarrow> Inl Assert_failed
        | Some (n, s') \<Rightarrow> any_elements pf fuel n s' (acc @ consumed s s'))
     else if t = tag_list then
       (case list_head_ext pf s of
          None \<Rightarrow> Inl Assert_failed
        | Some (n, s') \<Rightarrow> any_elements pf fuel n s' (acc @ consumed s s'))
     else if t = tag_string_ext then Inr (save_matched_bytes acc (match_any_string pf s))
     else if t = tag_pid then Inr (save_matched_bytes acc (match_any_pid pf s))
     else if t = tag_new_reference_ext then Inr (save_matched_bytes acc (match_any_ref pf s))
     else if t = tag_float_ext then Inr (save_matched_bytes acc (match_any_float pf s))
     else if t = tag_binary_ext \<or> t = tag_bit_binary_ext
       then Inr (save_matched_bytes acc (match_any_binary pf s))
     else Inr (False, s, acc))"
  unfolding assms by (simp only: any_match.simps list.case)

lemma any_leaf:
  assumes "wf_value pf v" and "\<not> has_list v" and "\<And>vs. v \<noteq> E_tuple vs"
  shows "any_match pf (Suc fuel) (serialize pf v @ s) acc = Inr (True, s, acc @ serialize pf v)"
proof -
  obtain t r where t: "serialize pf v = t # r" "t \<in> tags v" using serialize_tag [OF assms(1)] by blast
  then have st: "serialize pf v @ s = t # (r @ s)" by simp
  show ?thesis
    unfolding any_match_step [OF st]
    using assms t(2)
    by (cases "(pf, v)" rule: wf_value.cases)
      (auto simp: leaf_defs match_any_float_def any_binary_own any_with_own save_matched_bytes_def)
qed

lemma any_agrees:
  assumes "wf_value pf v" and "\<not> has_list v" and "length (serialize pf v) < fuel"
  shows "any_match pf fuel (serialize pf v @ s) acc = Inr (True, s, acc @ serialize pf v)"
  using assms
proof (induction v arbitrary: fuel s acc)
  case (E_tuple vs)
  obtain f where f: "fuel = Suc f" using E_tuple.prems(3) by (cases fuel) auto
  let ?body = "concat (map (serialize pf) vs)"
  have el: "any_match pf f (serialize pf v @ s) acc = Inr (True, s, acc @ serialize pf v)"
    if "v \<in> set vs" for v s acc
  proof (rule E_tuple.IH [OF that])
    have "length (serialize pf v) \<le> length ?body" using that by (induction vs) auto
    then show "length (serialize pf v) < f" using E_tuple.prems(3) by (simp add: f small_tuple_head_g_def)
  qed (use E_tuple.prems that in auto)
  have st: "serialize pf (E_tuple vs) @ s = tag_small_tuple # (of_nat (length vs) # ?body @ s)"
    by (simp add: small_tuple_head_g_def)
  have head: "small_tuple_head_ext pf (serialize pf (E_tuple vs) @ s) = Some (length vs, ?body @ s)"
    using E_tuple.prems by simp
  have cons: "consumed (serialize pf (E_tuple vs) @ s) (?body @ s) = small_tuple_head_g pf (length vs)"
    by (simp add: consumed_def small_tuple_head_g_def)
  show ?case
    using any_elements_agrees [of vs f s, OF el]
    by (simp add: f any_match_step [OF st] head cons del: any_match.simps serialize.simps) simp
next
  case (E_list vs)
  then show ?case by simp
qed (metis any_leaf any_match.simps(1) gr0_conv_Suc less_nat_zero_code neq0_conv obj.distinct)+

lemma match_all_agrees:
  assumes "\<And>p v s. (p, v) \<in> set (zip ps vs) \<Longrightarrow>
      agrees (match_obj pf p (serialize pf v @ s)) (spec_match pf p v) s"
    and "length ps = length vs"
  shows "agrees (match_all pf ps (concat (map (serialize pf) vs) @ s)) (spec_all pf ps vs) s"
  using assms(2,1)
proof (induction ps vs arbitrary: s rule: list_induct2)
  case Nil
  then show ?case by (simp add: agrees_def)
next
  case (Cons p ps v vs)
  have "agrees (match_obj pf p (serialize pf v @ concat (map (serialize pf) vs) @ s)) (spec_match pf p v)
      (concat (map (serialize pf) vs) @ s)"
    using Cons.prems by simp
  moreover have "agrees (match_all pf ps (concat (map (serialize pf) vs) @ s)) (spec_all pf ps vs) s"
    using Cons.IH Cons.prems by simp
  ultimately show ?case
    by (auto simp: agrees_def simp del: serialize.simps split: option.splits)
qed

lemma match_all_ints: "match_all pf (map E_int ms) s = Inr (match_ints pf ms s)"
  by (induction ms arbitrary: s) (auto split: prod.splits)

lemma list_agrees:
  assumes "wf_value pf v"
    and "\<And>vs s. v = E_list vs \<Longrightarrow> length ps = length vs \<Longrightarrow>
      agrees (match_all pf ps (concat (map (serialize pf) vs) @ s)) (spec_all pf ps vs) s"
  shows "agrees (match_obj pf (E_list ps) (serialize pf v @ s)) (spec_match pf (E_list ps) v) s"
proof (cases "\<exists>vs. v = E_list vs")
  case True
  then obtain vs where v: "v = E_list vs" by blast
  show ?thesis
  proof (cases "length ps = length vs")
    case len: True
    then show ?thesis
      using assms(2) [OF v len, of "tag_nil_ext # s"] assms(1)
      by (auto simp: v agrees_def skip_nil_def nil_ext_def split: option.splits)
  next
    case False
    then show ?thesis
      using assms(1) by (simp add: v spec_all_length_None agrees_def)
  qed
next
  case False
  then have "list_head_ext pf (serialize pf v @ s) = None"
    using assms(1) by (cases "(pf, v)" rule: wf_value.cases; auto intro!: leaf_refused simp del: serialize.simps)
  then show ?thesis using False by (cases v) (auto simp: agrees_def simp del: serialize.simps)
qed


lemma int_list_eq: 
  assumes "is_packed_as_string pf s = Inr False"
  shows "match_obj pf (Int_list ms) s = match_obj pf (E_list (map E_int ms)) s"
    and "match_obj pf (Int_list_assign x) s = match_obj pf (E_list_assign Elem_int x) s"
  using assms
  by (auto simp: match_int_list_def assign_int_list_def match_all_ints split: option.splits prod.splits)

lemma match_refines:
  assumes "wf_value pf v" and "no_string p" and "wildcards_fit p v"
  shows "agrees (match_obj pf p (serialize pf v @ s)) (spec_match pf p v) s"
  using assms
proof (induction p arbitrary: v s)
  case (E_tuple ps)
  show ?case
  proof (cases "\<exists>vs. v = E_tuple vs")
    case True
    then obtain vs where v: "v = E_tuple vs" by blast
    have el: "agrees (match_obj pf p (serialize pf u @ s)) (spec_match pf p u) s"
      if "(p, u) \<in> set (zip ps vs)" for p u s
      using that E_tuple.prems v wildcards_fit_zip [of ps vs p u]
      by (intro E_tuple.IH) (auto dest: set_zip_leftD set_zip_rightD)
    show ?thesis
      using match_all_agrees [of ps vs s, OF el] E_tuple.prems(1)
      by (cases "length ps = length vs") (auto simp: v agrees_def spec_all_length_None)
  next
    case False
    then have "small_tuple_head_ext pf (serialize pf v @ s) = None"
      using E_tuple.prems(1)
      by (cases "(pf, v)" rule: wf_value.cases; auto intro!: leaf_refused simp del: serialize.simps)
    then show ?thesis using False by (cases v) (auto simp: agrees_def simp del: serialize.simps)
  qed
next
  case (E_list ps)
  show ?case
  proof (rule list_agrees [OF E_list.prems(1)])
    fix vs s assume v: "v = E_list vs" and len: "length ps = length vs"
    have "agrees (match_obj pf p (serialize pf u @ s)) (spec_match pf p u) s"
      if "(p, u) \<in> set (zip ps vs)" for p u s
      using that E_list.prems v wildcards_fit_zip [of ps vs p u]
      by (intro E_list.IH) (auto dest: set_zip_leftD set_zip_rightD)
    then show "agrees (match_all pf ps (concat (map (serialize pf) vs) @ s)) (spec_all pf ps vs) s"
      using len by (rule match_all_agrees)
  qed
next
  case (Int_list ms)
  have "agrees (match_obj pf (E_list (map E_int ms)) (serialize pf v @ s)) (spec_match pf (E_list (map E_int ms)) v) s"
  proof (rule list_agrees [OF Int_list.prems(1)])
    fix vs s assume v: "v = E_list vs" and len: "length (map E_int ms) = length vs"
    have "agrees (match_obj pf p (serialize pf u @ s)) (spec_match pf p u) s"
      if "(p, u) \<in> set (zip (map E_int ms) vs)" for p u s
      using int_agrees [of u] Int_list.prems(1) v set_zip_leftD [OF that] set_zip_rightD [OF that] by auto
    then show "agrees (match_all pf (map E_int ms) (concat (map (serialize pf) vs) @ s))
        (spec_all pf (map E_int ms) vs) s"
      using len by (rule match_all_agrees)
  qed
  then show ?case
    using not_packed [OF Int_list.prems(1)] by (simp add: int_list_eq del: match_obj.simps serialize.simps)
next
  case (Int_list_assign x)
  then show ?case
    using push_agrees [of v Elem_int x s] not_packed [OF Int_list_assign.prems(1)]
    by (simp add: int_list_eq del: match_obj.simps serialize.simps) simp
next
  case (E_list_assign k x)
  then show ?case using push_agrees by (simp del: serialize.simps)
next
  case (Any x)
  then have "any_match pf (Suc (length (serialize pf v @ s))) (serialize pf v @ s) [] =
      Inr (True, s, serialize pf v)"
    using any_agrees [of v "Suc (length (serialize pf v @ s))" s "[]"] by simp
  then show ?case by (simp add: agrees_def del: any_match.simps serialize.simps)
qed (simp_all add: int_agrees pid_agrees float_agrees atom_agrees binary_agrees ref_agrees
    del: match_obj.simps spec_match.simps serialize.simps)

text \<open>No parser returns more than it was given; the tuple and list heads return strictly less.\<close>

lemma qi_byte_Some [simp]: "qi_byte pf s = Some (b, r) \<longleftrightarrow> s = b # r"
  by (cases s) auto

lemma qi_byte_lit_Some [simp]: "qi_byte_lit pf t s = Some (u, r) \<longleftrightarrow> s = t # r"
  by (cases s) auto

lemma qi_big_word_Some: "qi_big_word pf s = Some (w, r) \<longleftrightarrow> (\<exists>a b. s = a # b # r \<and> w = be16 a b)"
proof (cases "length s < 2")
  case False
  then obtain a b t where "s = a # b # t" by (metis One_nat_def Suc_1 length_2_cases list.exhaust)
  then show ?thesis by auto
qed auto

lemma qi_big_dword_Some:
  "qi_big_dword pf s = Some (w, r) \<longleftrightarrow> (\<exists>a b c d. s = a # b # c # d # r \<and> w = be32 a b c d)"
proof (cases "length s < 4")
  case False
  then obtain a b c d t where "s = a # b # c # d # t"
    by (auto simp: not_less Suc_le_length_iff eval_nat_numeral)
  then show ?thesis by auto
qed auto

lemmas parser_Some = qi_big_word_Some qi_big_dword_Some bind_eq_Some_conv

lemma integer_shrinks: "integer pf s = Some (v, r) \<Longrightarrow> length r < length s"
  by (auto simp: grammar_defs qi_alt_def parser_Some split: option.splits)

lemma atom_shrinks: "atom_ext pf s = Some (v, r) \<Longrightarrow> length r < length s"
  by (auto simp: grammar_defs parser_Some split: if_splits)

lemma pid_shrinks: "pid_ext pf s = Some (v, r) \<Longrightarrow> length r < length s"
  by (auto simp: pid_ext_def parser_Some dest!: atom_shrinks)

lemma reference_shrinks: "new_reference_ext_p pf s = Some (v, r) \<Longrightarrow> length r < length s"
  by (auto simp: new_reference_ext_p_def parser_Some dest!: atom_shrinks split: if_splits)

lemma float_shrinks: "float_ext pf s = Some (v, r) \<Longrightarrow> length r < length s"
  by (auto simp: float_ext_def parser_Some split: if_splits)

lemma binary_shrinks:
  "binary_ext pf s = Some (v, r) \<Longrightarrow> length r < length s"
  "bit_binary_ext pf s = Some (w, r) \<Longrightarrow> length r < length s"
  by (auto simp: binary_ext_def bit_binary_ext_def parser_Some split: if_splits)

lemma head_shrinks:
  "small_tuple_head_ext pf s = Some (n, r) \<Longrightarrow> length r < length s"
  "list_head_ext pf s = Some (n, r) \<Longrightarrow> length r < length s"
  "string_head_ext pf s = Some (n, r) \<Longrightarrow> length r < length s"
  by (auto simp: grammar_defs parser_Some)

lemma string_loop_shrinks: "string_assign_loop pf n s = (ok, r, vs) \<Longrightarrow> length r \<le> length s"
  by (induction n arbitrary: s vs) (fastforce split: option.splits prod.splits)+

lemma any_with_shrinks:
  assumes "any_with p s = (ok, r, sv)" and "\<And>v s'. p s = Some (v, s') \<Longrightarrow> length s' < length s"
  shows "length r \<le> length s"
  using assms by (auto simp: any_with_def less_imp_le split: option.splits)

lemma leaf_any_shrinks:
  "match_any_int pf s = (ok, r, sv) \<Longrightarrow> length r \<le> length s"
  "match_any_atom pf s = (ok, r, sv) \<Longrightarrow> length r \<le> length s"
  "match_any_pid pf s = (ok, r, sv) \<Longrightarrow> length r \<le> length s"
  "match_any_ref pf s = (ok, r, sv) \<Longrightarrow> length r \<le> length s"
  "match_any_float pf s = (ok, r, sv) \<Longrightarrow> length r \<le> length s"
  "match_any_binary pf s = (ok, r, sv) \<Longrightarrow> length r \<le> length s"
  "match_any_string pf s = (ok, r, sv) \<Longrightarrow> length r \<le> length s"
  by (auto simp: leaf_defs match_any_float_def match_any_binary_def match_any_string_def
      string_matcher_assign_def
      elim!: any_with_shrinks
      dest: integer_shrinks atom_shrinks pid_shrinks reference_shrinks float_shrinks binary_shrinks
        head_shrinks string_loop_shrinks
      split: option.splits prod.splits)
    (fastforce dest: head_shrinks binary_shrinks string_loop_shrinks)+

lemma any_elements_fuelled:
  assumes "\<And>s acc. length s < fuel \<Longrightarrow> fuelled (any_match pf fuel s acc) s"
  shows "length s < fuel \<Longrightarrow> fuelled (any_elements pf fuel n s acc) s"
proof (induction n arbitrary: s acc)
  case (Suc n)
  show ?case
  proof (cases "any_match pf fuel s acc")
    case (Inl e)
    then show ?thesis using assms [OF Suc.prems, of acc] by (simp add: fuelled_def)
  next
    case (Inr x)
    obtain ok r acc' where x: "x = (ok, r, acc')" by (cases x)
    have r: "length r \<le> length s" using assms [OF Suc.prems, of acc] Inr x by (simp add: fuelled_def)
    then have "fuelled (any_elements pf fuel n r acc') r" using Suc by simp
    then show ?thesis using Inr x r by (auto simp: fuelled_def)
  qed
qed (simp add: fuelled_def)

lemma leaf_fuelled:
  "(\<And>ok r sv. m = (ok, r, sv) \<Longrightarrow> length r \<le> length s) \<Longrightarrow> fuelled (Inr (save_matched_bytes acc m)) s"
  by (auto simp: fuelled_def save_matched_bytes_def split: prod.splits)

lemma any_match_has_fuel: "length s < fuel \<Longrightarrow> fuelled (any_match pf fuel s acc) s"
proof (induction fuel arbitrary: s acc)
  case (Suc fuel)
  have el: "fuelled (any_elements pf fuel n r acc') s" if "length r < length s" for n r acc'
    using any_elements_fuelled [OF Suc.IH, of r n acc'] that Suc.prems by (auto simp: fuelled_def)
  show ?case
  proof (cases s)
    case Nil
    then show ?thesis by (simp add: fuelled_def)
  next
    case (Cons t r)
    show ?thesis
      unfolding any_match_step [OF Cons]
      using head_shrinks [of s] el
      by (auto intro!: leaf_fuelled dest: leaf_any_shrinks simp: fuelled_def [of "Inl _"]
          fuelled_def [of "Inr (False, _, _)"] split: option.splits)
  qed
qed simp

lemma match_obj_has_fuel:
  "match_obj pf p s \<noteq> Inl Out_of_fuel"
  "match_all pf ps s \<noteq> Inl Out_of_fuel"
proof (induction pf\<equiv>pf p s and pf\<equiv>pf ps s rule: match_obj_match_all.induct)
  case (9 os s)
  then show ?case by (auto split: option.splits elim!: out_of_fuel_and_then)
next
  case (13 x s)
  show ?case
    using any_match_has_fuel [of s "Suc (length s)" "[]"]
    by (auto simp: fuelled_def simp del: any_match.simps elim!: out_of_fuel_and_then)
next
  case (15 p ps s)
  then show ?case by (auto split: if_splits elim!: out_of_fuel_and_then)
qed (auto simp: out_of_fuel_leaves int_list_fuel split: option.splits mode.splits)

lemma any_list_outcome:
  assumes "length vs < 2 ^ 32" and "\<forall>v \<in> set vs. wf_value pf v \<and> \<not> has_list v"
  shows "any_match pf (Suc (length (serialize pf (E_list vs) @ s))) (serialize pf (E_list vs) @ s) acc =
    Inr (True, tag_nil_ext # s, acc @ list_head_g pf (length vs) @ concat (map (serialize pf) vs))"
proof -
  let ?body = "concat (map (serialize pf) vs)" and ?n = "length (serialize pf (E_list vs) @ s)"
  have el: "any_match pf ?n (serialize pf v @ r) a = Inr (True, r, a @ serialize pf v)"
    if "v \<in> set vs" for v r a
  proof (rule any_agrees)
    have "length (serialize pf v) \<le> length ?body" using that by (induction vs) auto
    then show "length (serialize pf v) < ?n" by simp
  qed (use assms that in auto)
  have st: "serialize pf (E_list vs) @ s = tag_list # (be32_bytes (of_nat (length vs)) @ ?body @ tag_nil_ext # s)"
    by (simp add: list_head_g_def)
  have head: "list_head_ext pf (serialize pf (E_list vs) @ s) = Some (length vs, ?body @ tag_nil_ext # s)"
    using assms by simp
  have cons: "consumed (serialize pf (E_list vs) @ s) (?body @ tag_nil_ext # s) = list_head_g pf (length vs)"
    by (simp add: consumed_def list_head_g_def)
  show ?thesis
    using any_elements_agrees [of vs ?n "tag_nil_ext # s", OF el]
    by (simp add: any_match_step [OF st] head cons del: any_match.simps serialize.simps)
qed

text \<open>The packed string: \<open>find_if\<close> accepts when no element equals its byte.\<close>

lemma find_string_element_Val:
  assumes "length us = length bs"
  shows "fst (find_string_element pf (map Val us) (bs @ s)) = list_all2 (\<lambda>u b. u \<noteq> ucast b) us bs"
    and "snd (snd (find_string_element pf (map Val us) (bs @ s))) = []"
  using assms
  by (induction us bs rule: list_induct2) (auto simp: match_string_element_def)

lemma string_value_outcome:
  assumes "length us = length v" and "length v < 2 ^ 16"
  shows "fst (string_matcher_match pf (map Val us) (string_ext_g pf v @ s)) =
           list_all2 (\<lambda>u c. u \<noteq> ucast (byte_of c)) us v"
  using assms find_string_element_Val(1) [of us "bytes_of v" s]
  by (simp add: string_matcher_match_def) (simp add: bytes_of_def list_all2_map2)

lemma string_assign_loop_bytes:
  "string_assign_loop pf (length bs) (bs @ s) = (True, s, map ucast bs)"
  by (induction bs) simp_all

lemma string_assign_outcome:
  assumes "length v < 2 ^ 16"
  shows "match_obj pf (E_string (Assign x)) (serialize pf (E_string (Val v)) @ s) =
           Inr (True, s, [(x, Pushed_string v)])"
proof -
  have "shrink_int (ucast (byte_of c)) = c" for c
    by (simp add: shrink_int_def unsigned_ucast_eq take_bit_word_eq_self)
  then have "map shrink_int (map ucast (bytes_of v)) = v"
    by (simp add: bytes_of_def comp_def)
  then show ?thesis
    using assms string_assign_loop_bytes [of "bytes_of v" s]
    by (simp add: match_mode_def assign_matched_string_def string_matcher_assign_def)
qed

end

section \<open>Properties\<close>

text \<open>C2. Pattern matching is structural matching of terms: for every term whose fields fit the
  format and every pattern that contains no string and whose wildcards stand for subterms without lists, matching the bytes of the
  term answers what \<open>spec_match\<close> answers on the trees, makes exactly its assignments and stops exactly behind
  the term. Neither condition can be dropped: the value match of a string is inverted, and
  a wildcard leaves the end of a list unread (\<open>any_leaves_list_tail\<close>).\<close>

theorem pattern_matching_correct:
  assumes "spirit pf" and "wf_value pf v" and "no_string p" and "wildcards_fit p v"
  shows "agrees (match_obj pf p (serialize pf v @ s)) (spec_match pf p v) s"
  using assms by (rule spirit.match_refines)

theorem pattern_matching_correct_witness:
  "match_obj documented_platform (E_tuple [E_list [E_atom (Val ''hi'')], E_int (Assign 0), Any (Some 1)])
     (serialize documented_platform (E_tuple [E_list [E_atom (Val ''hi'')], E_int (Val 1000), E_int (Val 5)]) @ [7])
   = Inr (True, [7], [(0, Bound_int 1000), (1, Bound_matchable [97, 5])])"
proof -
  let ?v = "E_tuple [E_list [E_atom (Val ''hi'')], E_int (Val 1000), E_int (Val 5)]"
  let ?p = "E_tuple [E_list [E_atom (Val ''hi'')], E_int (Assign 0), Any (Some 1)]"
  have "wf_value documented_platform ?v" "no_string ?p" "wildcards_fit ?p ?v"
    by (simp_all add: wf_atom_def)
  from pattern_matching_correct [OF doc.spirit_axioms this, of "[7]"] show ?thesis
    by (simp add: agrees_def spec_mode_def serialize_int_def doc.small_integer_g_eq
        del: match_obj.simps serialize.simps(8,9))
qed

text \<open>C28. The value match of a packed string is inverted: \<open>string_matcher::match\<close> searches with
  \<open>std::find_if\<close> where the list matcher uses \<open>find_if_not\<close>. A list of byte values is accepted
  for a string of the same length exactly when it differs from it at every position; so a
  string never matches itself unless it is empty.\<close>

theorem string_match_inverted:
  assumes "spirit pf" and "length us = length v" and "length v < 2 ^ 16"
  shows "\<exists>rest w. match_obj pf (Int_list (map Val us)) (serialize pf (E_string (Val v)) @ s) =
           Inr (list_all2 (\<lambda>u c. u \<noteq> ucast (byte_of c)) us v, rest, w)"
proof -
  have packed: "is_packed_as_string pf (serialize pf (E_string (Val v)) @ s) = Inr True"
    by (simp add: is_packed_as_string_def char_to_int_def string_ext_g_def Let_def
        spirit.karma_byte_out [OF assms(1)])
  then show ?thesis
    using spirit.string_value_outcome [OF assms, of s]
    by (cases "string_matcher_match pf (map Val us) (string_ext_g pf v @ s)")
      (simp add: match_int_list_def)
qed

theorem string_match_inverted_witness:
  "\<exists>rest w. match_obj documented_platform (Int_list [Val 104, Val 105])
     (serialize documented_platform (E_string (Val ''hi'')) @ []) = Inr (False, rest, w)"
proof -
  have "length [104, 105 :: u32] = length ''hi''" "length ''hi'' < 2 ^ 16" by simp_all
  from string_match_inverted [OF doc.spirit_axioms this, of "[]"]
  show ?thesis by (simp add: byte_of_def del: match_obj.simps serialize.simps)
qed

text \<open>A wildcard stops in front of the end of a list: the bytes of a list of elements
  without lists are taken up to, and without, the closing nil tag, which is left for the
  next pattern to fail on.\<close>

theorem any_leaves_list_tail:
  assumes "spirit pf" and "length vs < 2 ^ 32"
    and "\<forall>v \<in> set vs. wf_value pf v \<and> \<not> has_list v"
  shows "match_obj pf (Any None) (serialize pf (E_list vs) @ s) = Inr (True, tag_nil_ext # s, [])"
  using spirit.any_list_outcome [OF assms] by (simp del: any_match.simps serialize.simps)

theorem any_leaves_list_tail_witness:
  "match_obj documented_platform (E_tuple [Any None, E_atom (Val ''x'')])
     (serialize documented_platform (E_tuple [E_list [E_int (Val 1)], E_atom (Val ''x'')])) =
   Inr (False, [106, 100, 0, 1, 120], [])"
proof -
  let ?s = "serialize documented_platform (E_atom (Val ''x''))"
  have a: "match_obj documented_platform (Any None)
      (serialize documented_platform (E_list [E_int (Val 1)]) @ ?s) = Inr (True, tag_nil_ext # ?s, [])"
    using any_leaves_list_tail [OF doc.spirit_axioms, of "[E_int (Val 1)]" ?s] by simp
  have "serialize documented_platform (E_tuple [E_list [E_int (Val 1)], E_atom (Val ''x'')]) =
      small_tuple_head_g documented_platform 2 @ serialize documented_platform (E_list [E_int (Val 1)]) @ ?s"
    by (simp add: numeral_2_eq_2)
  then show ?thesis
    using a doc.tuple_head_roundtrip [of 2]
    by (simp add: match_mode_def match_atom_value_def value_with_def doc.other_tag
        doc.atom_ext_g_eq be16_bytes_def bytes_of_def byte_of_def
        del: match_obj.simps(13) serialize.simps(9))
qed

text \<open>A wildcard on a truncated list aborts the program: the tag of a list with fewer than
  four bytes behind it reaches the \<open>assert\<close> in the wildcard's table.\<close>

theorem any_truncated_list_asserts:
  assumes "spirit pf" and "length s < 4"
  shows "match_obj pf (Any x) (tag_list # s) = Inl Assert_failed"
  using assms spirit.qi_big_dword_short [OF assms] spirit.qi_byte_lit_Cons [OF assms(1)]
  by (simp add: list_head_ext_def)

theorem any_truncated_list_asserts_witness:
  "match_obj documented_platform (Any None) [108, 0] = Inl Assert_failed"
  using any_truncated_list_asserts [OF doc.spirit_axioms, of "[0]" None] by simp

text \<open>A string variable is assigned the string that was sent.\<close>

theorem string_assign_roundtrip:
  assumes "spirit pf" and "length v < 2 ^ 16"
  shows "match_obj pf (E_string (Assign x)) (serialize pf (E_string (Val v)) @ s) =
           Inr (True, s, [(x, Pushed_string v)])"
  using assms by (rule spirit.string_assign_outcome)

theorem string_assign_roundtrip_witness:
  "match_obj documented_platform (E_string (Assign 3)) (serialize documented_platform (E_string (Val ''my'')) @ [1]) =
     Inr (True, [1], [(3, Pushed_string ''my'')])"
  using string_assign_roundtrip [OF doc.spirit_axioms, of "''my''" 3 "[1]"] by simp

text \<open>C20. Matching terminates on every input: the recursion of the wildcard is bounded by the
  length of the message, whatever the bytes are and whatever the pattern.\<close>

theorem matching_terminates:
  assumes "spirit pf"
  shows "match_obj pf p s \<noteq> Inl Out_of_fuel"
  using assms by (rule spirit.match_obj_has_fuel)

theorem matching_terminates_witness:
  "match_obj documented_platform (Any None) [104, 2, 104, 1] \<noteq> Inl Out_of_fuel"
  by (rule matching_terminates [OF doc.spirit_axioms])

end
