(* ===== verification/Message_Builder.thy ===== *)
theory Message_Builder
  imports Pattern_Spec
begin

text \<open>
  The distributed operations a node sends: \<open>impl/ext_message_builder.cpp\<close>, the command
  classes \<open>impl/control_msg_*.h\<close> with \<open>impl/control_msgs_impl.cpp\<close>, and the operations of the
  \<open>connected\<close> state in \<open>impl/node_connection_state.cpp\<close> that write them. The lemmas say
  which bytes a message consists of and that its first four bytes are the length of the
  rest.
\<close>

section \<open>Control parts\<close>

definition add_message_header :: msg_seq where
  "add_message_header = [word_of_int pass_through, word_of_int magic_version]"

definition ctrl_int :: "int \<Rightarrow> obj" where
  "ctrl_int request = E_int (Val (word_of_int request))"

text \<open>\<open>SEND: {2, Cookie, ToPid}\<close>, with an empty cookie.\<close>

definition add_ctrl_message_send :: "platform \<Rightarrow> e_pid \<Rightarrow> msg_seq" where
  "add_ctrl_message_send pf destination_pid =
     add_message_header @
     serialize pf (E_tuple [ctrl_int ctrl_msg_send, E_atom (Val ''''), E_pid (Val destination_pid)])"

text \<open>\<open>REG_SEND: {6, FromPid, Cookie, ToName}\<close>.\<close>

definition add_ctrl_message_reg_send :: "platform \<Rightarrow> e_pid \<Rightarrow> string \<Rightarrow> msg_seq" where
  "add_ctrl_message_reg_send pf self destination_name =
     add_message_header @
     serialize pf (E_tuple [ctrl_int ctrl_msg_reg_send, E_pid (Val self), E_atom (Val ''''),
       E_atom (Val destination_name)])"

text \<open>\<open>EXIT\<close> and \<open>EXIT2: {request, FromPid, ToPid, Reason}\<close>.\<close>

definition add_ctrl_message_exit :: "platform \<Rightarrow> int \<Rightarrow> e_pid \<Rightarrow> e_pid \<Rightarrow> string \<Rightarrow> msg_seq" where
  "add_ctrl_message_exit pf request from to reason =
     add_message_header @
     serialize pf (E_tuple [ctrl_int request, E_pid (Val from), E_pid (Val to), E_atom (Val reason)])"

text \<open>\<open>LINK\<close> and \<open>UNLINK: {request, FromPid, ToPid}\<close>.\<close>

definition add_ctrl_message_linkage :: "platform \<Rightarrow> int \<Rightarrow> e_pid \<Rightarrow> e_pid \<Rightarrow> msg_seq" where
  "add_ctrl_message_linkage pf request from to =
     add_message_header @
     serialize pf (E_tuple [ctrl_int request, E_pid (Val from), E_pid (Val to)])"

section \<open>Whole messages\<close>

definition header_size :: nat where "header_size = 4"

text \<open>The size is generated over the first bytes of the message.\<close>

definition fill_in_message_size :: "platform \<Rightarrow> msg_seq \<Rightarrow> msg_seq" where
  "fill_in_message_size pf msg =
     (let sz = karma_big_dword pf (of_nat (length msg - header_size))
      in sz @ drop (length sz) msg)"

definition append_payload :: "msg_seq \<Rightarrow> msg_seq" where
  "append_payload payload = word_of_int magic_version # payload"

definition build :: "platform \<Rightarrow> msg_seq \<Rightarrow> msg_seq" where
  "build pf ctrl = fill_in_message_size pf (replicate header_size 0 @ ctrl)"

definition build_with_payload :: "platform \<Rightarrow> msg_seq \<Rightarrow> msg_seq \<Rightarrow> msg_seq" where
  "build_with_payload pf payload ctrl =
     fill_in_message_size pf (replicate header_size 0 @ ctrl @ append_payload payload)"

definition build_send_msg :: "platform \<Rightarrow> msg_seq \<Rightarrow> e_pid \<Rightarrow> msg_seq" where
  "build_send_msg pf payload destination_pid =
     build_with_payload pf payload (add_ctrl_message_send pf destination_pid)"

definition build_reg_send_msg :: "platform \<Rightarrow> msg_seq \<Rightarrow> e_pid \<Rightarrow> string \<Rightarrow> msg_seq" where
  "build_reg_send_msg pf payload self destination_name =
     build_with_payload pf payload (add_ctrl_message_reg_send pf self destination_name)"

definition build_exit_msg :: "platform \<Rightarrow> e_pid \<Rightarrow> e_pid \<Rightarrow> string \<Rightarrow> msg_seq" where
  "build_exit_msg pf from to reason = build pf (add_ctrl_message_exit pf ctrl_msg_exit from to reason)"

definition build_exit2_msg :: "platform \<Rightarrow> e_pid \<Rightarrow> e_pid \<Rightarrow> string \<Rightarrow> msg_seq" where
  "build_exit2_msg pf from to reason = build pf (add_ctrl_message_exit pf ctrl_msg_exit2 from to reason)"

definition build_link_msg :: "platform \<Rightarrow> e_pid \<Rightarrow> e_pid \<Rightarrow> msg_seq" where
  "build_link_msg pf from to = build pf (add_ctrl_message_linkage pf ctrl_msg_link from to)"

definition build_unlink_msg :: "platform \<Rightarrow> e_pid \<Rightarrow> e_pid \<Rightarrow> msg_seq" where
  "build_unlink_msg pf from to = build pf (add_ctrl_message_linkage pf ctrl_msg_unlink from to)"

section \<open>Commands\<close>

text \<open>The classes derived from \<open>control_msg\<close>, with their members.\<close>

datatype control_msg =
    Control_msg_send msg_seq e_pid
  | Control_msg_reg_send msg_seq string e_pid
  | Control_msg_exit e_pid e_pid string
  | Control_msg_exit2 e_pid e_pid string
  | Control_msg_link e_pid e_pid
  | Control_msg_unlink e_pid e_pid

text \<open>\<open>execute\<close> on the \<open>connected\<close> state: the message its operation hands to \<open>trigger_write\<close>.\<close>

fun execute_connected :: "platform \<Rightarrow> control_msg \<Rightarrow> msg_seq" where
  "execute_connected pf (Control_msg_send msg destination_pid) = build_send_msg pf msg destination_pid"
| "execute_connected pf (Control_msg_reg_send msg to_name from_pid) =
     build_reg_send_msg pf msg from_pid to_name"
| "execute_connected pf (Control_msg_exit from_pid to_pid reason) = build_exit_msg pf from_pid to_pid reason"
| "execute_connected pf (Control_msg_exit2 from_pid to_pid reason) = build_exit2_msg pf from_pid to_pid reason"
| "execute_connected pf (Control_msg_link from_pid to_pid) = build_link_msg pf from_pid to_pid"
| "execute_connected pf (Control_msg_unlink from_pid to_pid) = build_unlink_msg pf from_pid to_pid"

lemmas builder_defs =
  build_send_msg_def build_reg_send_msg_def build_exit_msg_def build_exit2_msg_def
  build_link_msg_def build_unlink_msg_def add_ctrl_message_send_def add_ctrl_message_reg_send_def
  add_ctrl_message_exit_def add_ctrl_message_linkage_def

section \<open>Layout\<close>

text \<open>The term and, for the two sends, the payload that a command puts on the wire.\<close>

fun command_term :: "control_msg \<Rightarrow> obj" where
  "command_term (Control_msg_send msg p) = E_tuple [ctrl_int ctrl_msg_send, E_atom (Val ''''), E_pid (Val p)]"
| "command_term (Control_msg_reg_send msg n p) =
     E_tuple [ctrl_int ctrl_msg_reg_send, E_pid (Val p), E_atom (Val ''''), E_atom (Val n)]"
| "command_term (Control_msg_exit p q r) =
     E_tuple [ctrl_int ctrl_msg_exit, E_pid (Val p), E_pid (Val q), E_atom (Val r)]"
| "command_term (Control_msg_exit2 p q r) =
     E_tuple [ctrl_int ctrl_msg_exit2, E_pid (Val p), E_pid (Val q), E_atom (Val r)]"
| "command_term (Control_msg_link p q) = E_tuple [ctrl_int ctrl_msg_link, E_pid (Val p), E_pid (Val q)]"
| "command_term (Control_msg_unlink p q) = E_tuple [ctrl_int ctrl_msg_unlink, E_pid (Val p), E_pid (Val q)]"

fun command_payload :: "control_msg \<Rightarrow> msg_seq" where
  "command_payload (Control_msg_send msg p) = append_payload msg"
| "command_payload (Control_msg_reg_send msg n p) = append_payload msg"
| "command_payload c = []"

definition command_body :: "platform \<Rightarrow> control_msg \<Rightarrow> msg_seq" where
  "command_body pf c = add_message_header @ serialize pf (command_term c) @ command_payload c"

context spirit
begin

lemma fill_in_message_size_eq:
  "fill_in_message_size pf (replicate header_size 0 @ body) = be32_bytes (of_nat (length body)) @ body"
  by (simp add: fill_in_message_size_def header_size_def)

lemma execute_connected_eq:
  "execute_connected pf c = be32_bytes (of_nat (length (command_body pf c))) @ command_body pf c"
  by (cases c) (simp_all add: builder_defs build_def build_with_payload_def fill_in_message_size_eq
      command_body_def del: serialize.simps)

end

end
