(* ===== verification/Pattern_Types.thy ===== *)
theory Pattern_Types
  imports Terms
begin

text \<open>
  Types of the variables of a pattern. Every class of term has its own C++ type of variable, a
  pattern is given pointers to variables of the right types, and the parsers convert what they read.
  The lemmas show, without a condition on the message, that a match only writes to
  variables of the pattern, that what it writes has the variable's type, and that it fits the widths of the
  format, so that it can be sent again.
\<close>

section \<open>Types\<close>

text \<open>The C++ types of the variables that a pattern points to.\<close>

datatype var_type =
    Int_var
  | Pid_var
  | Float_var
  | Atom_var
  | Binary_var
  | Ref_var
  | String_var
  | List_var elem
  | Matchable_var

definition mode_vars :: "var_type \<Rightarrow> 'v mode \<Rightarrow> (nat \<times> var_type) list" where
  "mode_vars t m = (case m of Assign x \<Rightarrow> [(x, t)] | _ \<Rightarrow> [])"

fun pattern_vars :: "obj \<Rightarrow> (nat \<times> var_type) list" where
  "pattern_vars (E_int m) = mode_vars Int_var m"
| "pattern_vars (E_pid m) = mode_vars Pid_var m"
| "pattern_vars (E_float m) = mode_vars Float_var m"
| "pattern_vars (E_atom m) = mode_vars Atom_var m"
| "pattern_vars (E_binary m) = mode_vars Binary_var m"
| "pattern_vars (E_ref m) = mode_vars Ref_var m"
| "pattern_vars (E_string m) = mode_vars String_var m"
| "pattern_vars (E_tuple os) = concat (map pattern_vars os)"
| "pattern_vars (E_list os) = concat (map pattern_vars os)"
| "pattern_vars (E_list_assign k x) = [(x, List_var k)]"
| "pattern_vars (Int_list ms) = concat (map (mode_vars Int_var) ms)"
| "pattern_vars (Int_list_assign x) = [(x, List_var Elem_int)]"
| "pattern_vars (Any x) = (case x of None \<Rightarrow> [] | Some v \<Rightarrow> [(v, Matchable_var)])"

definition elem_type :: "elem \<Rightarrow> var_type" where
  "elem_type k =
     (case k of Elem_int \<Rightarrow> Int_var | Elem_pid \<Rightarrow> Pid_var | Elem_float \<Rightarrow> Float_var | Elem_atom \<Rightarrow> Atom_var | Elem_ref \<Rightarrow> Ref_var)"

text \<open>The values of a type that fit the format.\<close>

fun has_type :: "bound \<Rightarrow> var_type \<Rightarrow> bool" where
  "has_type (Bound_int i) t = (t = Int_var)"
| "has_type (Bound_pid p) t = (t = Pid_var \<and> wf_pid p)"
| "has_type (Bound_float d) t = (t = Float_var)"
| "has_type (Bound_atom a) t = (t = Atom_var \<and> wf_atom a)"
| "has_type (Bound_bytes bs) t = (t = Binary_var \<and> length bs < 2 ^ 32)"
| "has_type (Bound_binary v) t =
     (t = Binary_var \<and> length (bin_value v) < 2 ^ 32 \<and> 0 \<le> padding_bits v \<and> padding_bits v < 256)"
| "has_type (Bound_ref r) t = (t = Ref_var \<and> wf_reference r)"
| "has_type (Pushed_string v) t = (t = String_var \<and> length v < 2 ^ 16)"
| "has_type (Pushed_list vs) t = (\<exists>k. t = List_var k \<and> list_all (\<lambda>v. has_type v (elem_type k)) vs)"
| "has_type (Bound_matchable bs) t = (t = Matchable_var)"
| "has_type Bound_indeterminate t = False"

text \<open>Every write is to a variable of the pattern, and of its type.\<close>

definition typed_writes :: "(nat \<times> var_type) list \<Rightarrow> writes \<Rightarrow> bool" where
  "typed_writes vars w \<longleftrightarrow> list_all (\<lambda>(x, b). list_ex (\<lambda>(y, t). y = x \<and> has_type b t) vars) w"

text \<open>Patterns without lists of integers that are matched with values.\<close>

fun no_int_list :: "obj \<Rightarrow> bool" where
  "no_int_list (Int_list ms) = False"
| "no_int_list (E_tuple ps) = (\<forall>p \<in> set ps. no_int_list p)"
| "no_int_list (E_list ps) = (\<forall>p \<in> set ps. no_int_list p)"
| "no_int_list p = True"

lemma typed_writes_simps [simp]:
  "typed_writes vars []" "typed_writes vars (w @ w') \<longleftrightarrow> typed_writes vars w \<and> typed_writes vars w'"
  "typed_writes vars [(x, b)] \<longleftrightarrow> (\<exists>t. (x, t) \<in> set vars \<and> has_type b t)"
  by (auto simp: typed_writes_def list_ex_iff)

lemma typed_writes_mono: "\<lbrakk>typed_writes vars w; set vars \<subseteq> set vars'\<rbrakk> \<Longrightarrow> typed_writes vars' w"
  by (fastforce simp: typed_writes_def list_all_iff list_ex_iff)

lemma typed_writes_append:
  "typed_writes vars w \<Longrightarrow> typed_writes (vars @ vars') w" "typed_writes vars' w \<Longrightarrow> typed_writes (vars @ vars') w"
  by (auto elim: typed_writes_mono)

lemma member_of_vars: "typed_writes vars w \<Longrightarrow> (x, b) \<in> set w \<Longrightarrow> \<exists>t. (x, t) \<in> set vars \<and> has_type b t"
  by (auto simp: typed_writes_def list_all_iff list_ex_iff)

section \<open>What the parsers read fits\<close>

lemma unat_width [simp]: "unat (b :: byte) < 256" "unat (w :: u16) < 65536" "unat (d :: u32) < 4294967296"
proof -
  have "unat b < 2 ^ LENGTH(8)" "unat w < 2 ^ LENGTH(16)" "unat d < 2 ^ LENGTH(32)" by (rule unsigned_less)+
  then show "unat b < 256" "unat w < 65536" "unat d < 4294967296" by simp_all
qed

lemma uint_byte [simp]: "uint (b :: byte) < 256"
proof -
  have "uint b < 2 ^ LENGTH(8)" by (rule unsigned_less)
  then show ?thesis by simp
qed

lemma ucast_byte_small: "(ucast (c :: byte) :: u32) < 256"
proof -
  have "unat c mod 4294967296 = unat c" using unat_width(1) [of c] by (intro mod_less) linarith
  then show ?thesis by (simp add: word_less_nat_alt unsigned_ucast_eq take_bit_eq_mod)
qed

context spirit
begin

lemma atom_read: "atom_ext pf s = Some (a, r) \<Longrightarrow> wf_atom a"
  by (auto simp: atom_ext_def wf_atom_def string_of_def bind_eq_Some_conv split: if_splits)

lemma pid_read: "pid_ext pf s = Some (p, r) \<Longrightarrow> wf_pid p"
  by (auto simp: pid_ext_def wf_pid_def bind_eq_Some_conv atom_read ucast_byte_small)

lemma reference_read: "new_reference_ext_p pf s = Some (v, r) \<Longrightarrow> wf_reference v"
  by (auto simp: new_reference_ext_p_def wf_reference_def bind_eq_Some_conv atom_read ucast_byte_small split: if_splits)

lemma binary_read: "binary_ext pf s = Some (v, r) \<Longrightarrow> length v < 2 ^ 32"
  by (auto simp: binary_ext_def bind_eq_Some_conv split: if_splits)

lemma bit_binary_read:
  "bit_binary_ext pf s = Some (v, r) \<Longrightarrow> length (bin_value v) < 2 ^ 32 \<and> 0 \<le> padding_bits v \<and> padding_bits v < 256"
  by (auto simp: bit_binary_ext_def bind_eq_Some_conv split: if_splits)

lemma string_head_read: "string_head_ext pf s = Some (n, r) \<Longrightarrow> n < 2 ^ 16"
  by (auto simp: string_head_ext_def bind_eq_Some_conv)

lemmas fields_read = atom_read pid_read reference_read binary_read bit_binary_read string_head_read


end

section \<open>What a match assigns\<close>

text \<open>The writes of a match that succeeded: typed, and to every variable.\<close>

definition assigns :: "(nat \<times> var_type) list \<Rightarrow> writes \<Rightarrow> bool" where
  "assigns vars w \<longleftrightarrow> typed_writes vars w \<and> fst ` set vars \<subseteq> fst ` set w"

lemma assigns_Nil [simp]: "assigns [] []"
  by (simp add: assigns_def)

lemma assigns_one [simp]: "assigns [(x, t)] [(x, b)] \<longleftrightarrow> has_type b t"
  by (simp add: assigns_def)

lemma assigns_append: "\<lbrakk>assigns vars w; assigns vars' w'\<rbrakk> \<Longrightarrow> assigns (vars @ vars') (w @ w')"
  by (auto simp: assigns_def intro: typed_writes_append)

lemma assigns_mode:
  assumes "match_mode value assign wild m s = (True, s', w)"
    and "\<And>v r w. value v s = (True, r, w) \<Longrightarrow> w = []"
    and "\<And>x r w. assign x s = (True, r, w) \<Longrightarrow> assigns [(x, t)] w"
  shows "assigns (mode_vars t m) w"
  using assms(1)
  by (cases m) (auto simp: match_mode_def mode_vars_def wild_with_def dest: assms(2,3) split: prod.splits)

lemma value_with_writes: "value_with p eq s = (b, r, w) \<Longrightarrow> w = []"
  by (auto simp: value_with_def split: option.splits)

lemma assign_with_assigns:
  assumes "assign_with p wr x s = (True, r, w)" and "\<And>v r. p s = Some (v, r) \<Longrightarrow> has_type (wr v) t"
  shows "assigns [(x, t)] w"
  using assms by (auto simp: assign_with_def split: option.splits)

lemma assigns_typed: "assigns vars w \<Longrightarrow> typed_writes vars w"
  by (simp add: assigns_def)

context spirit
begin

lemma assigns_scalar:
  "match_int pf mi s = (True, r, w) \<Longrightarrow> assigns (mode_vars Int_var mi) w"
  "match_mode (match_value pf) (assign_matched pf) (match_any_pid pf) mp s = (True, r, w) \<Longrightarrow> assigns (mode_vars Pid_var mp) w"
  "match_mode (match_atom_value pf) (assign_matched_atom pf) (match_any_atom pf) ma s = (True, r, w) \<Longrightarrow>
     assigns (mode_vars Atom_var ma) w"
  "match_mode (match_ref_value pf) (assign_matched_ref pf) (match_any_ref pf) mr s = (True, r, w) \<Longrightarrow>
     assigns (mode_vars Ref_var mr) w"
  unfolding match_int_def match_int_value_def match_value_def match_atom_value_def match_ref_value_def
    assign_matched_int_def assign_matched_def assign_matched_atom_def assign_matched_ref_def
  by (erule assigns_mode; auto dest: value_with_writes fields_read elim!: assign_with_assigns)+

lemma assigns_binary:
  assumes "match_mode (match_binary_value pf) (assign_matched_binary pf) (match_any_binary pf) m s = (True, r, w)"
  shows "assigns (mode_vars Binary_var m) w"
  using assms
  by (rule assigns_mode)
    (auto simp: match_binary_value_def assign_matched_binary_def dest: value_with_writes fields_read
      elim!: assign_with_assigns split: option.splits)

lemma assigns_float:
  assumes "match_float pf m s = Inr (True, r, w)"
  shows "assigns (mode_vars Float_var m) w"
  using assms
  by (auto simp: match_float_def match_float_value_def assign_matched_float_def mode_vars_def wild_with_def chain
      split: mode.splits option.splits prod.splits)

lemma string_loop_length: "string_assign_loop pf n s = (ok, r, vs) \<Longrightarrow> length vs \<le> n"
  by (induction n arbitrary: s ok r vs) (force split: option.splits prod.splits)+

lemma string_assign_length: "string_matcher_assign pf s = (ok, r, vs) \<Longrightarrow> length vs < 2 ^ 16"
  by (auto simp: string_matcher_assign_def split: option.splits dest!: string_loop_length string_head_read)

lemma find_element_writes: "find_string_element pf ms s = (True, r, w) \<Longrightarrow> w = []"
  by (induction pf ms s rule: find_string_element.induct) (auto split: prod.splits if_splits)

lemma string_match_writes: "string_matcher_match pf ms s = (True, r, w) \<Longrightarrow> w = []"
  by (auto simp: string_matcher_match_def split: option.splits if_splits dest: find_element_writes)

lemma assigns_string:
  assumes "match_mode (match_string_value pf) (assign_matched_string pf) (match_any_string pf) m s = (True, r, w)"
  shows "assigns (mode_vars String_var m) w"
  using assms
  by (rule assigns_mode)
    (auto simp: match_string_value_def assign_matched_string_def dest: string_match_writes string_assign_length
      split: prod.splits)

lemma element_typed: "assign_element pf k s = Inr (Some b, r) \<Longrightarrow> has_type b (elem_type k)"
  by (cases k;
    auto simp: assign_element_def elem_type_def assign_matched_int_def assign_matched_def assign_matched_atom_def
      assign_matched_ref_def assign_matched_float_def assign_with_def chain split: option.splits if_splits;
    erule fields_read)

lemma list_loop_typed:
  "list_assign_loop pf k n s = Inr (True, r, vs) \<Longrightarrow> list_all (\<lambda>b. has_type b (elem_type k)) vs"
proof (induction n arbitrary: s r vs)
  case (Suc n)
  then show ?case by (auto simp: chain element_typed split: option.splits)
qed simp

lemma assigns_list:
  assumes "list_matcher_assign pf k x s = Inr (True, r, w)"
  shows "assigns [(x, List_var k)] w"
  using assms
  by (auto simp: list_matcher_assign_def chain list_loop_typed split: option.splits if_splits)

lemma assigns_int_list:
  assumes "assign_int_list pf x s = Inr (True, r, w)"
  shows "assigns [(x, List_var Elem_int)] w"
  using assms assigns_list
  by (auto simp: assign_int_list_def chain elem_type_def list_all_iff split: if_splits prod.splits)

lemma ints_typed: "match_ints pf ms s = (True, r, w) \<Longrightarrow> typed_writes (concat (map (mode_vars Int_var) ms)) w"
proof (induction ms arbitrary: s r w)
  case (Cons m ms)
  from Cons.prems obtain s1 w1 w2 where "match_int pf m s = (True, s1, w1)" "match_ints pf ms s1 = (True, r, w2)" "w = w1 @ w2"
    by (auto split: prod.splits if_splits)
  then show ?case
    using assigns_scalar(1) Cons.IH by (simp add: assigns_def typed_writes_append)
qed simp

lemma int_list_typed:
  "match_int_list pf ms s = Inr (True, r, w) \<Longrightarrow> typed_writes (concat (map (mode_vars Int_var) ms)) w"
  by (auto simp: match_int_list_def chain split: if_splits option.splits prod.splits
      dest: string_match_writes ints_typed)

text \<open>A packed string that ends before its elements, matched with a list of integers to assign: the match succeeds
  and assigns none of them.\<close>

lemma truncated_string_unassigned:
  assumes "n < 2 ^ 16" and "\<not> char_is_signed pf"
  shows "match_obj pf (Int_list (map Assign [0..<n])) (107 # be16_bytes (of_nat n)) = Inr (True, [], [])"
proof -
  have "find_string_element pf ms [] = (True, [], [])" for ms
    by (induction ms) (simp_all add: match_string_element_def)
  moreover have "string_head_ext pf (107 # be16_bytes (of_nat n)) = Some (n, [])"
    using assms(1) qi_big_word_be16 [of "of_nat n" "[]"] by (simp add: string_head_ext_def)
  ultimately show ?thesis
    by (simp add: match_int_list_def is_packed_as_string_def string_matcher_match_def char_to_int_def)
qed

text \<open>The empty list, which a node of Erlang sends as a nil: neither a list, whether with values or to assign, nor a
  wildcard matches it.\<close>

lemma nil_never_matches:
  assumes "p = E_list os \<or> p = E_list_assign k x \<or> p = Int_list ms \<or> p = Int_list_assign x \<or> p = Any v"
  shows "\<exists>r w. match_obj pf p (106 # s) = Inr (False, r, w)"
proof -
  have "list_head_ext pf (106 # s) = None" by (simp add: other_tag)
  moreover have "char_to_int pf 106 \<noteq> 107" by (simp add: char_to_int_def)
  ultimately show ?thesis
    using assms by (auto simp: list_matcher_assign_def match_int_list_def assign_int_list_def is_packed_as_string_def)
qed

end

lemma match_assigns:
  "\<lbrakk>match_obj pf p s = Inr (True, r, w); spirit pf\<rbrakk> \<Longrightarrow>
     typed_writes (pattern_vars p) w \<and> (no_int_list p \<longrightarrow> assigns (pattern_vars p) w)"
  "\<lbrakk>match_all pf ps s = Inr (True, r, w); spirit pf\<rbrakk> \<Longrightarrow>
     typed_writes (concat (map pattern_vars ps)) w \<and>
     ((\<forall>p\<in>set ps. no_int_list p) \<longrightarrow> assigns (concat (map pattern_vars ps)) w)"
proof (induction pf p s and pf ps s arbitrary: r w and r w rule: match_obj_match_all.induct)
  case (1 pf m s)
  then show ?case by (simp add: spirit.assigns_scalar assigns_typed)
next
  case (2 pf m s)
  then show ?case by (simp add: spirit.assigns_scalar assigns_typed)
next
  case (3 pf m s)
  then show ?case by (simp add: spirit.assigns_float assigns_typed)
next
  case (4 pf m s)
  then show ?case by (simp add: spirit.assigns_scalar assigns_typed)
next
  case (5 pf m s)
  then show ?case by (simp add: spirit.assigns_binary assigns_typed)
next
  case (6 pf m s)
  then show ?case by (simp add: spirit.assigns_scalar assigns_typed)
next
  case (7 pf m s)
  then show ?case by (simp add: spirit.assigns_string assigns_typed)
next
  case (8 pf os s)
  then show ?case by (auto split: option.splits if_splits)
next
  case (9 pf os s)
  then show ?case by (auto simp: chain split: option.splits if_splits)
next
  case (10 pf k x s)
  then show ?case by (simp add: spirit.assigns_list assigns_typed)
next
  case (11 pf ms s)
  then show ?case by (simp add: spirit.int_list_typed)
next
  case (12 pf x s)
  then show ?case by (simp add: spirit.assigns_int_list assigns_typed)
next
  case (13 pf x s)
  then show ?case by (auto simp: chain simp del: any_match.simps split: option.splits)
next
  case (14 pf s)
  then show ?case by simp
next
  case (15 pf p ps s)
  from "15.prems" obtain s1 w1 w2 where o: "match_obj pf p s = Inr (True, s1, w1)" "match_all pf ps s1 = Inr (True, r, w2)" "w = w1 @ w2"
    by (auto simp: chain split: if_splits)
  then show ?case
    using "15.IH"(1) [OF o(1)] "15.IH"(2) [OF TrueI o(2)] \<open>spirit pf\<close>
    by (simp add: typed_writes_append assigns_append)
qed

section \<open>Properties\<close>

text \<open>C31. Assignment is type safe for every message: when a match succeeds, each write is to a variable
  of the pattern, of the type of that variable, and the value fits the fields of the format (so that it
  can be sent again); and, if the pattern holds no list of integers, every variable has been assigned.\<close>

theorem assigned_values_typed:
  assumes "spirit pf" and "match_obj pf p s = Inr (True, r, w)"
  shows "typed_writes (pattern_vars p) w \<and>
    (no_int_list p \<longrightarrow> (\<forall>(x, t)\<in>set (pattern_vars p). \<exists>b. (x, b) \<in> set w))"
  using match_assigns(1) [OF assms(2,1)] by (force simp: assigns_def)

theorem assigned_values_typed_witness:
  "typed_writes [(0, Atom_var), (1, Int_var)] [(0, Bound_atom ''k''), (1, Bound_int 7)]"
proof -
  let ?s = "small_tuple_head_g documented_platform 2 @ atom_ext_g documented_platform ''k'' @ small_integer_g documented_platform 7 @ []"
  have [simp]: "wf_atom ''k''" by (simp add: wf_atom_def)
  have "match_obj documented_platform (E_atom (Assign 0)) (atom_ext_g documented_platform ''k'' @ t) = Inr (True, t, [(0, Bound_atom ''k'')])" for t
    by (simp add: match_mode_def assign_matched_atom_def assign_with_def)
  moreover have "match_obj documented_platform (E_int (Assign 1)) (small_integer_g documented_platform 7 @ []) = Inr (True, [], [(1, Bound_int 7)])"
    unfolding match_obj.simps match_int_def match_mode_def assign_matched_int_def assign_with_def doc.integer_small by simp
  ultimately have "match_obj documented_platform (E_tuple [E_atom (Assign 0), E_int (Assign 1)]) ?s =
      Inr (True, [], [(0, Bound_atom ''k''), (1, Bound_int 7)])"
    unfolding match_obj.simps(8) doc.tuple_head_roundtrip [of 2, simplified]
    by (simp del: append_Nil2 match_obj.simps)
  from assigned_values_typed [OF doc.spirit_axioms this] show ?thesis by (simp add: mode_vars_def)
qed

end
