(* ===== verification/Dispatcher.thy ===== *)
theory Dispatcher
  imports Message_Builder Pattern_Types
begin

text \<open>
  The receiving side of the distributed operations, \<open>impl/ctrl_msg_dispatcher.cpp\<close>: the check
  of the header, one handler per operation and the chain of responsibility that tries them
  in order, each from the position the message had before. What a handler does to its
  connection is the call it makes on \<open>node_connection_access\<close>. The property is that every
  command a node can send is dispatched to the call it stands for; it needs a platform whose
  \<open>char\<close> is unsigned, and on the others nothing is ever dispatched.
\<close>

section \<open>Header\<close>

definition to_printable_string :: "platform \<Rightarrow> msg_seq \<Rightarrow> string" where
  "to_printable_string pf msg = concat (map (\<lambda>b. lexical_cast pf (char_to_int pf b) @ '' '') msg)"

text \<open>The iterator is read without a comparison with the end, and as a plain \<open>char\<close>.\<close>

definition check_term_version :: "platform \<Rightarrow> msg_seq \<Rightarrow> msg_seq result" where
  "check_term_version pf s =
     (case s of
        [] \<Rightarrow> Inl Undefined_behaviour
      | term_version # rest \<Rightarrow>
          if magic_version \<noteq> char_to_int pf term_version
          then Inl (Tinch_pp_exception (''Erroneous term version received. Got = '' @
                 [char_of_byte term_version] @ '', expected = '' @ lexical_cast pf magic_version))
          else Inr rest)"

definition parse_header :: "platform \<Rightarrow> msg_seq \<Rightarrow> msg_seq result" where
  "parse_header pf s =
     (case do { (_, s) \<leftarrow> qi_big_dword pf s; qi_byte_lit pf (word_of_int pass_through) s } of
        None \<Rightarrow> Inl (Tinch_pp_exception (''Invalid header in ctrl-message: '' @ to_printable_string pf s))
      | Some (_, rest) \<Rightarrow> check_term_version pf rest)"

section \<open>Handlers\<close>

text \<open>The calls on the connection.\<close>

datatype access_call =
    Deliver_to_pid msg_seq e_pid
  | Deliver_to_name msg_seq string
  | Request_link e_pid e_pid
  | Request_unlink e_pid e_pid
  | Request_exit e_pid e_pid string
  | Request_exit2 e_pid e_pid string

text \<open>The local variables a pattern assigned to, numbered as the handlers name them.\<close>

definition pid_var :: "writes \<Rightarrow> nat \<Rightarrow> e_pid" where
  "pid_var w x = (case map_of (rev w) x of Some (Bound_pid p) \<Rightarrow> p | _ \<Rightarrow> default_e_pid)"

definition name_var :: "writes \<Rightarrow> nat \<Rightarrow> string" where
  "name_var w x = (case map_of (rev w) x of Some (Bound_atom a) \<Rightarrow> a | _ \<Rightarrow> '''')"

definition handle_with ::
  "platform \<Rightarrow> obj \<Rightarrow> (msg_seq \<Rightarrow> writes \<Rightarrow> access_call result) \<Rightarrow> msg_seq \<Rightarrow> access_call option result" where
  "handle_with pf pattern act s =
     and_then (matchable_range_match pf s pattern) (\<lambda>(matched, rest, w).
       if matched then and_then (act rest w) (\<lambda>c. Inr (Some c)) else Inr None)"

definition send_handler :: "platform \<Rightarrow> msg_seq \<Rightarrow> access_call option result" where
  "send_handler pf =
     handle_with pf (E_tuple [ctrl_int ctrl_msg_send, E_atom Wild, E_pid (Assign 0)])
       (\<lambda>rest w. and_then (check_term_version pf rest) (\<lambda>payload.
          Inr (Deliver_to_pid payload (pid_var w 0))))"

definition reg_send_handler :: "platform \<Rightarrow> msg_seq \<Rightarrow> access_call option result" where
  "reg_send_handler pf =
     handle_with pf (E_tuple [ctrl_int ctrl_msg_reg_send, E_pid (Assign 0), E_atom Wild, E_atom (Assign 1)])
       (\<lambda>rest w. and_then (check_term_version pf rest) (\<lambda>payload.
          Inr (Deliver_to_name payload (name_var w 1))))"

definition link_handler :: "platform \<Rightarrow> msg_seq \<Rightarrow> access_call option result" where
  "link_handler pf =
     handle_with pf (E_tuple [ctrl_int ctrl_msg_link, E_pid (Assign 0), E_pid (Assign 1)])
       (\<lambda>rest w. Inr (Request_link (pid_var w 0) (pid_var w 1)))"

definition unlink_handler :: "platform \<Rightarrow> msg_seq \<Rightarrow> access_call option result" where
  "unlink_handler pf =
     handle_with pf (E_tuple [ctrl_int ctrl_msg_unlink, E_pid (Assign 0), E_pid (Assign 1)])
       (\<lambda>rest w. Inr (Request_unlink (pid_var w 0) (pid_var w 1)))"

definition exit_handler :: "platform \<Rightarrow> msg_seq \<Rightarrow> access_call option result" where
  "exit_handler pf =
     handle_with pf (E_tuple [ctrl_int ctrl_msg_exit, E_pid (Assign 0), E_pid (Assign 1), E_atom (Assign 2)])
       (\<lambda>rest w. Inr (Request_exit (pid_var w 0) (pid_var w 1) (name_var w 2)))"

definition exit2_handler :: "platform \<Rightarrow> msg_seq \<Rightarrow> access_call option result" where
  "exit2_handler pf =
     handle_with pf (E_tuple [ctrl_int ctrl_msg_exit2, E_pid (Assign 0), E_pid (Assign 1), E_atom (Assign 2)])
       (\<lambda>rest w. Inr (Request_exit2 (pid_var w 0) (pid_var w 1) (name_var w 2)))"

section \<open>The chain\<close>

fun dispatch_chain ::
  "platform \<Rightarrow> (msg_seq \<Rightarrow> access_call option result) list \<Rightarrow> msg_seq \<Rightarrow> access_call result" where
  "dispatch_chain pf [] first =
     Inl (Tinch_pp_exception (''Unsupported distributed operation. Action = operation ignored. Msg = '' @
       to_printable_string pf first))"
| "dispatch_chain pf (h # next) first =
     and_then (h first) (\<lambda>handled.
       case handled of Some c \<Rightarrow> Inr c | None \<Rightarrow> dispatch_chain pf next first)"

definition operations_chain :: "platform \<Rightarrow> (msg_seq \<Rightarrow> access_call option result) list" where
  "operations_chain pf =
     [send_handler pf, reg_send_handler pf, link_handler pf, unlink_handler pf, exit_handler pf,
      exit2_handler pf]"

definition dispatch :: "platform \<Rightarrow> msg_seq \<Rightarrow> access_call result" where
  "dispatch pf msg =
     and_then (parse_header pf msg) (\<lambda>first. dispatch_chain pf (operations_chain pf) first)"

section \<open>Every command reaches its call\<close>

fun call_of :: "control_msg \<Rightarrow> access_call" where
  "call_of (Control_msg_send msg p) = Deliver_to_pid msg p"
| "call_of (Control_msg_reg_send msg n p) = Deliver_to_name msg n"
| "call_of (Control_msg_exit p q r) = Request_exit p q r"
| "call_of (Control_msg_exit2 p q r) = Request_exit2 p q r"
| "call_of (Control_msg_link p q) = Request_link p q"
| "call_of (Control_msg_unlink p q) = Request_unlink p q"

text \<open>The commands whose pids and names fit the widths of the format.\<close>

fun wf_command :: "control_msg \<Rightarrow> bool" where
  "wf_command (Control_msg_send msg p) = wf_pid p"
| "wf_command (Control_msg_reg_send msg n p) = (wf_pid p \<and> wf_atom n)"
| "wf_command (Control_msg_exit p q r) = (wf_pid p \<and> wf_pid q \<and> wf_atom r)"
| "wf_command (Control_msg_exit2 p q r) = (wf_pid p \<and> wf_pid q \<and> wf_atom r)"
| "wf_command (Control_msg_link p q) = (wf_pid p \<and> wf_pid q)"
| "wf_command (Control_msg_unlink p q) = (wf_pid p \<and> wf_pid q)"

lemma version_accepted: "\<not> char_is_signed pf \<Longrightarrow> check_term_version pf (131 # s) = Inr s"
  by (simp add: check_term_version_def char_to_int_def)

lemma version_refused_signed:
  assumes "char_is_signed pf"
  shows "\<exists>e. check_term_version pf s = Inl e"
proof (cases s)
  case (Cons b r)
  have "sint b < 2 ^ 7" using sint_lt [of b] by simp
  then have "magic_version \<noteq> char_to_int pf b" using assms by (simp add: char_to_int_def)
  then show ?thesis using Cons by (simp add: check_term_version_def)
qed (simp add: check_term_version_def)

lemma handle_with_agrees:
  assumes "agrees (match_obj pf pattern s) sp rest"
  shows "handle_with pf pattern act s =
    (case sp of None \<Rightarrow> Inr None | Some w \<Rightarrow> and_then (act rest w) (\<lambda>c. Inr (Some c)))"
  using assms
  by (auto simp: handle_with_def matchable_range_match_def agrees_def split: option.splits)

context spirit
begin

lemma wf_command_term: "wf_command c \<Longrightarrow> wf_value pf (command_term c)"
  by (cases c) (simp_all add: ctrl_int_def wf_atom_def)

text \<open>A handler on a command's term: the specification of its pattern decides.\<close>

lemma handler_outcome:
  assumes "wf_command c" and "no_string pattern" and "\<not> has_any pattern"
  shows "handle_with pf pattern act (serialize pf (command_term c) @ s) =
    (case spec_match pf pattern (command_term c) of
       None \<Rightarrow> Inr None
     | Some w \<Rightarrow> and_then (act s w) (\<lambda>x. Inr (Some x)))"
  using assms(2,3)
  by (intro handle_with_agrees match_refines wf_command_term no_wildcard_fits assms(1)) auto

lemmas handler_defs =
  send_handler_def reg_send_handler_def link_handler_def unlink_handler_def exit_handler_def
  exit2_handler_def

lemma chain_step:
  assumes "wf_command c" and "no_string pattern" and "\<not> has_any pattern"
  shows "dispatch_chain pf (handle_with pf pattern act # hs) (serialize pf (command_term c) @ s) =
    (case spec_match pf pattern (command_term c) of
       None \<Rightarrow> dispatch_chain pf hs (serialize pf (command_term c) @ s)
     | Some w \<Rightarrow> act s w)"
proof (cases "spec_match pf pattern (command_term c)")
  case (Some w)
  then show ?thesis by (cases "act s w") (simp_all add: handler_outcome [OF assms])
qed (simp add: handler_outcome [OF assms])

lemma chain_outcome:
  assumes "wf_command c" and "\<not> char_is_signed pf"
  shows "dispatch_chain pf (operations_chain pf)
      (serialize pf (command_term c) @ command_payload c) = Inr (call_of c)"
  unfolding operations_chain_def handler_defs
  by (subst chain_step [OF assms(1)], simp add: ctrl_int_def, simp add: ctrl_int_def)+
    (use assms in \<open>cases c; simp add: ctrl_int_def spec_mode_def pid_var_def name_var_def
      append_payload_def version_accepted del: serialize.simps\<close>)

lemma parse_header_body:
  assumes "\<not> char_is_signed pf"
  shows "parse_header pf (be32_bytes n @ add_message_header @ s) = Inr s"
  using version_accepted [OF assms, of s]
  by (simp add: parse_header_def add_message_header_def)

lemma dispatch_outcome:
  assumes "wf_command c" and "\<not> char_is_signed pf"
  shows "dispatch pf (execute_connected pf c) = Inr (call_of c)"
  using assms
  by (simp add: dispatch_def execute_connected_eq command_body_def parse_header_body chain_outcome
      del: serialize.simps dispatch_chain.simps)

end

section \<open>Calls are well-formed\<close>

fun wf_call :: "access_call \<Rightarrow> bool" where
  "wf_call (Deliver_to_pid msg p) = wf_pid p"
| "wf_call (Deliver_to_name msg n) = wf_atom n"
| "wf_call (Request_link p q) = (wf_pid p \<and> wf_pid q)"
| "wf_call (Request_unlink p q) = (wf_pid p \<and> wf_pid q)"
| "wf_call (Request_exit p q r) = (wf_pid p \<and> wf_pid q \<and> wf_atom r)"
| "wf_call (Request_exit2 p q r) = (wf_pid p \<and> wf_pid q \<and> wf_atom r)"

lemma variables_fit:
  assumes "typed_writes vars w"
  shows "wf_pid (pid_var w x)" and "wf_atom (name_var w x)"
proof -
  have "wf_pid default_e_pid" "wf_atom ''''" by (simp_all add: wf_pid_def wf_atom_def default_e_pid_def)
  then show "wf_pid (pid_var w x)" "wf_atom (name_var w x)"
    by (auto simp: pid_var_def name_var_def dest!: map_of_SomeD member_of_vars [OF assms] split: option.splits bound.splits)
qed

lemma handler_call:
  assumes "handle_with pf pattern act s = Inr (Some c)" and "spirit pf"
  obtains rest w where "act rest w = Inr c" and "typed_writes (pattern_vars pattern) w"
  using assms match_assigns(1) by (fastforce simp: handle_with_def matchable_range_match_def chain split: if_splits)

lemma handlers_fit:
  assumes "spirit pf" and "h \<in> set (operations_chain pf)" and "h s = Inr (Some c)"
  shows "wf_call c"
  using assms(2,3)
  by (auto simp: operations_chain_def send_handler_def reg_send_handler_def link_handler_def unlink_handler_def
      exit_handler_def exit2_handler_def chain variables_fit elim!: handler_call [OF _ assms(1)])

lemma chain_fits:
  assumes "dispatch_chain pf hs s = Inr c" and "\<And>h c. \<lbrakk>h \<in> set hs; h s = Inr (Some c)\<rbrakk> \<Longrightarrow> wf_call c"
  shows "wf_call c"
  using assms by (induction hs) (auto simp: chain split: option.splits)

section \<open>Properties\<close>

text \<open>C3. Every operation a node can put on the wire is understood by the receiving side, on platforms whose \<open>char\<close> is unsigned: the
  message built for a send, registered send, link, unlink, exit or exit2 is dispatched to
  exactly the call it encodes, with the payload, pids, name and reason it was built from.\<close>

theorem dispatch_inverts_build:
  assumes "spirit pf" and "\<not> char_is_signed pf" and "wf_command c"
  shows "dispatch pf (execute_connected pf c) = Inr (call_of c)"
  using spirit.dispatch_outcome [OF assms(1,3,2)] .

theorem dispatch_inverts_build_witness:
  "dispatch documented_platform (execute_connected documented_platform
     (Control_msg_send [97, 1] \<lparr>node_name = ''a@h'', id_of = 5, serial_of = 0, creation_of = 3\<rparr>)) =
   Inr (Deliver_to_pid [97, 1] \<lparr>node_name = ''a@h'', id_of = 5, serial_of = 0, creation_of = 3\<rparr>)"
  using dispatch_inverts_build [OF doc.spirit_axioms, of
      "Control_msg_send [97, 1] \<lparr>node_name = ''a@h'', id_of = 5, serial_of = 0, creation_of = 3\<rparr>"]
  by (simp add: wf_pid_def wf_atom_def del: execute_connected.simps)

text \<open>Where \<open>char\<close> is signed no message is ever dispatched: the version byte 131 is read into
  a \<open>char\<close>, becomes negative when it is compared with the constant, and every message fails
  in the header check.\<close>

theorem dispatch_refuses_all_signed_char:
  assumes "char_is_signed pf"
  shows "\<exists>e. dispatch pf msg = Inl e"
proof -
  have "\<exists>e. parse_header pf msg = Inl e"
    using version_refused_signed [OF assms]
    by (auto simp: parse_header_def split: option.splits)
  then show ?thesis by (auto simp: dispatch_def)
qed

theorem dispatch_refuses_all_signed_char_witness:
  "\<exists>e. dispatch signed_char_platform (execute_connected signed_char_platform
     (Control_msg_link \<lparr>node_name = ''a@h'', id_of = 5, serial_of = 0, creation_of = 3\<rparr>
        \<lparr>node_name = ''b@h'', id_of = 1, serial_of = 0, creation_of = 1\<rparr>)) = Inl e"
  by (rule dispatch_refuses_all_signed_char) simp

text \<open>Whatever bytes arrive: the pids, the name and the reason of a call that is dispatched fit the fields of
  the format, so that a node can answer to them.\<close>

theorem dispatched_call_fits:
  assumes "spirit pf" and "dispatch pf msg = Inr c"
  shows "wf_call c"
  using assms chain_fits handlers_fit by (fastforce simp: dispatch_def chain)

theorem dispatched_call_fits_witness:
  "wf_call (call_of (Control_msg_link \<lparr>node_name = ''a@h'', id_of = 5, serial_of = 0, creation_of = 3\<rparr>
     \<lparr>node_name = ''b@h'', id_of = 1, serial_of = 0, creation_of = 1\<rparr>))"
  by (rule dispatched_call_fits [OF doc.spirit_axioms doc.dispatch_outcome])
    (simp_all add: wf_pid_def wf_atom_def)

end
