(* ===== verification/Lexer.thy ===== *)
theory Lexer
  imports Dispatcher "HOL-Library.Sublist"
begin

text \<open>
  \<open>msg_lexer\<close> of \<open>impl/utils.cpp\<close>: TCP delivers a stream, the lexer cuts it into messages.
  The size of the next message is read by a virtual function, so the lexer is defined over
  a parameter \<open>read_msg_size\<close> and the locale \<open>framing\<close> states what it needs of it; both concrete
  readers interpret it. \<open>handle_new_condition\<close> calls itself once per message and need not
  return: \<open>None\<close> is the run that never ends. The connected reader adds the header size in 32
  bits, which makes that run reachable from the network.
\<close>

section \<open>The lexer\<close>

record msg_lexer =
  incomplete :: msg_seq
  msgs :: "msg_seq list"

definition new_lexer :: msg_lexer where
  "new_lexer = \<lparr>incomplete = [], msgs = []\<rparr>"

definition has_complete_msg :: "msg_lexer \<Rightarrow> bool" where
  "has_complete_msg l = (msgs l \<noteq> [])"

definition next_message :: "msg_lexer \<Rightarrow> msg_seq option \<times> msg_lexer" where
  "next_message l =
     (case msgs l of [] \<Rightarrow> (None, l) | m # ms \<Rightarrow> (Some m, l\<lparr>msgs := ms\<rparr>))"

definition extract_msg :: "nat \<Rightarrow> msg_lexer \<Rightarrow> msg_lexer" where
  "extract_msg msg_size l = l\<lparr>msgs := msgs l @ [take msg_size (incomplete l)]\<rparr>"

definition strip_incomplete :: "nat \<Rightarrow> msg_lexer \<Rightarrow> msg_lexer result" where
  "strip_incomplete start l =
     (if \<not> start < length (incomplete l) then Inl Assert_failed
      else Inr (l\<lparr>incomplete := drop start (incomplete l)\<rparr>))"

partial_function (option) handle_new_condition ::
  "(msg_seq \<Rightarrow> nat option) \<Rightarrow> msg_lexer \<Rightarrow> msg_lexer result option" where
  "handle_new_condition read_msg_size l =
     (case read_msg_size (incomplete l) of
        None \<Rightarrow> Some (Inr l)
      | Some msg_and_header_size \<Rightarrow>
          let left = length (incomplete l) in
          if left = msg_and_header_size
          then Some (Inr (l\<lparr>msgs := msgs l @ [incomplete l], incomplete := []\<rparr>))
          else if left > msg_and_header_size
          then (case strip_incomplete msg_and_header_size (extract_msg msg_and_header_size l) of
                  Inl e \<Rightarrow> Some (Inl e)
                | Inr l' \<Rightarrow> handle_new_condition read_msg_size l')
          else Some (Inr l))"

definition add :: "(msg_seq \<Rightarrow> nat option) \<Rightarrow> msg_lexer \<Rightarrow> msg_seq \<Rightarrow> (bool \<times> msg_lexer) result option" where
  "add read_msg_size l msg =
     (let l = (if incomplete l \<noteq> [] then l\<lparr>incomplete := incomplete l @ msg\<rparr>
               else l\<lparr>incomplete := msg\<rparr>)
      in map_option (\<lambda>r. and_then r (\<lambda>l. Inr (has_complete_msg l, l)))
           (handle_new_condition read_msg_size l))"

section \<open>The two readers\<close>

text \<open>The sum of the handshake is an \<open>int\<close> and cannot overflow; the other is an \<open>uint32_t\<close>.\<close>

definition read_msg_size_handshake :: "platform \<Rightarrow> msg_seq \<Rightarrow> nat option" where
  "read_msg_size_handshake pf msg =
     (case qi_big_word pf msg of Some (msg_size, _) \<Rightarrow> Some (2 + unat msg_size) | None \<Rightarrow> None)"

definition read_msg_size_connected :: "platform \<Rightarrow> msg_seq \<Rightarrow> nat option" where
  "read_msg_size_connected pf msg =
     (case qi_big_dword pf msg of Some (msg_size, _) \<Rightarrow> Some (unat (4 + msg_size)) | None \<Rightarrow> None)"

section \<open>What a lexer promises\<close>

text \<open>
  The cutting of a byte sequence into complete messages and a rest, as a relation: it has no
  result where the lexer does not return.
\<close>

inductive cut :: "(msg_seq \<Rightarrow> nat option) \<Rightarrow> msg_seq \<Rightarrow> msg_seq list \<Rightarrow> msg_seq \<Rightarrow> bool"
  for rms where
  short: "rms s = None \<or> (\<exists>n. rms s = Some n \<and> length s < n) \<Longrightarrow> cut rms s [] s"
| message: "\<lbrakk>rms s = Some n; n \<le> length s; cut rms (drop n s) ms r\<rbrakk> \<Longrightarrow> cut rms s (take n s # ms) r"

inductive_cases cutE: "cut rms s ms r"
inductive_simps cut_None_simp: "cut rms [] ms r"

lemma cut_conserves: "cut rms s ms r \<Longrightarrow> concat ms @ r = s"
  by (induction rule: cut.induct) auto

lemma cut_deterministic: "cut rms s ms r \<Longrightarrow> cut rms s ms' r' \<Longrightarrow> ms' = ms \<and> r' = r"
proof (induction arbitrary: ms' r' rule: cut.induct)
  case (message s n ms r)
  from message.prems message.hyps(1,2) obtain ms'' where "ms' = take n s # ms''" "cut rms (drop n s) ms'' r'"
    by (cases rule: cut.cases) auto
  with message.IH show ?case by blast
next
  case (short s)
  from short.prems show ?case using short by (cases rule: cut.cases) auto
qed

lemma cut_exact: "rms [] = None \<Longrightarrow> rms s = Some (length s) \<Longrightarrow> cut rms s [s] []"
  using cut.message [of rms s "length s" "[]" "[]"] by (simp add: cut.short)

lemma returns_cut:
  "handle_new_condition rms l = Some x \<Longrightarrow> rms [] = None \<longrightarrow> (\<exists>ms r. cut rms (incomplete l) ms r)"
proof (induction rule: handle_new_condition.raw_induct [rotated, consumes 1, case_names turn])
  case (turn rec rms l x)
  show ?case
  proof (intro impI)
    assume nil: "rms [] = None"
    consider "rms (incomplete l) = None \<or> (\<exists>n. rms (incomplete l) = Some n \<and> length (incomplete l) < n)"
      | "rms (incomplete l) = Some (length (incomplete l))"
      | n where "rms (incomplete l) = Some n" "n < length (incomplete l)"
      by (metis linorder_cases not_None_eq)
    then show "\<exists>ms r. cut rms (incomplete l) ms r"
    proof cases
      case (3 n)
      with turn(2) have "rec rms (l\<lparr>msgs := msgs l @ [take n (incomplete l)], incomplete := drop n (incomplete l)\<rparr>) = Some x"
        by (simp add: Let_def strip_incomplete_def extract_msg_def)
      from turn(1) [OF this] nil have "\<exists>ms r. cut rms (drop n (incomplete l)) ms r" by simp
      then show ?thesis using 3 cut.message [of rms "incomplete l" n] by fastforce
    qed (use cut.short cut_exact nil in blast)+
  qed
qed

text \<open>
  What the lexer needs of its reader: the size of a message is known from its first bytes,
  and not from none at all, and what arrives later does not change it.
\<close>

locale framing =
  fixes rms :: "msg_seq \<Rightarrow> nat option"
  assumes size_Nil: "rms [] = None"
    and size_stable: "rms s = Some n \<Longrightarrow> rms (s @ t) = Some n"
begin

text \<open>One turn of \<open>handle_new_condition\<close>; its assertion always holds.\<close>

lemma run_unfold:
  "handle_new_condition rms l = (case rms (incomplete l) of
     None \<Rightarrow> Some (Inr l)
   | Some n \<Rightarrow>
       if length (incomplete l) = n then Some (Inr (l\<lparr>incomplete := [], msgs := msgs l @ [incomplete l]\<rparr>))
       else if length (incomplete l) > n
       then handle_new_condition rms
              (l\<lparr>incomplete := drop n (incomplete l), msgs := msgs l @ [take n (incomplete l)]\<rparr>)
       else Some (Inr l))"
  by (cases l, subst handle_new_condition.simps)
    (auto simp: strip_incomplete_def extract_msg_def Let_def split: option.splits)

lemma cut_Nil: "cut rms [] [] []"
  by (simp add: cut.short size_Nil)

lemma run_complete:
  assumes "cut rms s ms r" and "incomplete l = s"
  shows "handle_new_condition rms l = Some (Inr (l\<lparr>incomplete := r, msgs := msgs l @ ms\<rparr>))"
  using assms
proof (induction arbitrary: l rule: cut.induct)
  case (short s)
  then show ?case by (subst run_unfold) (auto split: option.splits)
next
  case (message s n ms r)
  show ?case
  proof (cases "length s = n")
    case True
    with message.hyps have "ms = [] \<and> r = []" using cut_deterministic [OF cut_Nil] by simp
    with True message show ?thesis by (subst run_unfold) simp
  next
    case False
    with message show ?thesis by (subst run_unfold) (simp add: message.IH)
  qed
qed

lemma run_sound: "handle_new_condition rms l = Some x \<Longrightarrow> \<exists>ms r. cut rms (incomplete l) ms r"
  using returns_cut size_Nil by blast

text \<open>The lexer implements the specification, also in whether it returns.\<close>

lemma run_refines:
  "handle_new_condition rms l = Some x \<longleftrightarrow>
     (\<exists>ms r. cut rms (incomplete l) ms r \<and> x = Inr (l\<lparr>incomplete := r, msgs := msgs l @ ms\<rparr>))"
  using run_complete run_sound by (metis option.inject)

lemma add_refines:
  "add rms l s = Some x \<longleftrightarrow>
     (\<exists>ms r. cut rms (incomplete l @ s) ms r \<and>
        x = Inr (msgs l @ ms \<noteq> [], l\<lparr>incomplete := r, msgs := msgs l @ ms\<rparr>))"
proof -
  have *: "add rms l s = map_option (\<lambda>r. and_then r (\<lambda>l. Inr (has_complete_msg l, l)))
      (handle_new_condition rms (l\<lparr>incomplete := incomplete l @ s\<rparr>))"
    by (cases "incomplete l = []") (simp_all add: add_def Let_def)
  have **: "handle_new_condition rms (l\<lparr>incomplete := incomplete l @ s\<rparr>) = Some y \<longleftrightarrow>
      (\<exists>ms r. cut rms (incomplete l @ s) ms r \<and> y = Inr (l\<lparr>incomplete := r, msgs := msgs l @ ms\<rparr>))" for y
    using run_refines [of "l\<lparr>incomplete := incomplete l @ s\<rparr>" y] by simp
  have "add rms l s = Some x \<longleftrightarrow> (\<exists>ms r. cut rms (incomplete l @ s) ms r \<and>
      x = and_then (Inr (l\<lparr>incomplete := r, msgs := msgs l @ ms\<rparr>)) (\<lambda>l. Inr (has_complete_msg l, l)))"
    unfolding * map_option_eq_Some ** by blast
  then show ?thesis by (simp add: has_complete_msg_def)
qed

text \<open>Cutting commutes with the arrival of more bytes.\<close>

lemma cut_append:
  "cut rms (a @ b) ms r \<longleftrightarrow> (\<exists>ms1 r1 ms2. cut rms a ms1 r1 \<and> cut rms (r1 @ b) ms2 r \<and> ms = ms1 @ ms2)"
proof
  assume "cut rms (a @ b) ms r"
  then show "\<exists>ms1 r1 ms2. cut rms a ms1 r1 \<and> cut rms (r1 @ b) ms2 r \<and> ms = ms1 @ ms2"
  proof (induction "a @ b" ms r arbitrary: a rule: cut.induct)
    case short
    then have "cut rms a [] a" using size_stable [of a _ b] by (cases "rms a") (auto intro!: cut.short)
    then show ?case using short cut.short by blast
  next
    case (message n ms r)
    show ?case
    proof (cases "rms a = Some n \<and> n \<le> length a")
      case True
      then obtain ms1 r1 ms2 where "cut rms (drop n a) ms1 r1" "cut rms (r1 @ b) ms2 r" "ms = ms1 @ ms2"
        using message.hyps(4) [of "drop n a"] by auto
      with True show ?thesis using cut.message [of rms a n ms1 r1] by (intro exI [of _ "take n a # ms1"]) auto
    next
      case False
      then have "cut rms a [] a"
        using size_stable [of a _ b] message.hyps(1) by (cases "rms a") (auto intro!: cut.short)
      moreover have "cut rms (a @ b) (take n (a @ b) # ms) r" using message.hyps by (intro cut.message)
      ultimately show ?thesis by blast
    qed
  qed
next
  assume "\<exists>ms1 r1 ms2. cut rms a ms1 r1 \<and> cut rms (r1 @ b) ms2 r \<and> ms = ms1 @ ms2"
  then obtain ms1 r1 ms2 where "cut rms a ms1 r1" "cut rms (r1 @ b) ms2 r" "ms = ms1 @ ms2" by blast
  then show "cut rms (a @ b) ms r"
  proof (induction arbitrary: ms rule: cut.induct)
    case (message s n ms1 r1)
    then have "cut rms (s @ b) (take n (s @ b) # ms1 @ ms2) r"
      by (intro cut.message) (auto intro: size_stable)
    then show ?case using message by simp
  qed simp
qed

text \<open>A sequence of complete messages, followed by a part of another one, is cut where it was joined.\<close>

lemma cut_concat:
  assumes "\<forall>m\<in>set ms. rms m = Some (length m)" and "rms r = None \<or> (\<exists>n. rms r = Some n \<and> length r < n)"
  shows "cut rms (concat ms @ r) ms r"
  using assms(1)
proof (induction ms)
  case Nil
  then show ?case using assms(2) by (simp add: cut.short)
next
  case (Cons m ms)
  then show ?case
    using cut.message [of rms "m @ concat ms @ r" "length m" ms r] size_stable [of m "length m"] by simp
qed

text \<open>A divergence: an announced size of zero is never consumed.\<close>

lemma cut_zero_size: "cut rms s ms r \<Longrightarrow> rms s \<noteq> Some 0"
  by (induction rule: cut.induct) (auto intro!: gr0I)

end

text \<open>The bytes of several reads, added one after the other.\<close>

fun add_all :: "(msg_seq \<Rightarrow> nat option) \<Rightarrow> msg_lexer \<Rightarrow> msg_seq list \<Rightarrow> msg_lexer result option" where
  "add_all rms l [] = Some (Inr l)"
| "add_all rms l (c # cs) =
     (case add rms l c of
        None \<Rightarrow> None
      | Some (Inl e) \<Rightarrow> Some (Inl e)
      | Some (Inr (_, l')) \<Rightarrow> add_all rms l' cs)"

context framing
begin

lemma add_all_Cons_iff:
  "add_all rms l (c # cs) = Some x \<longleftrightarrow>
     (\<exists>ms r. cut rms (incomplete l @ c) ms r \<and> add_all rms (l\<lparr>incomplete := r, msgs := msgs l @ ms\<rparr>) cs = Some x)"
proof -
  have "add_all rms l (c # cs) = Some x \<longleftrightarrow>
      (\<exists>e. add rms l c = Some (Inl e) \<and> x = Inl e) \<or>
      (\<exists>b l'. add rms l c = Some (Inr (b, l')) \<and> add_all rms l' cs = Some x)"
    by (auto split: option.split sum.split)
  then show ?thesis unfolding add_refines by blast
qed

lemma add_all_refines:
  assumes "cs \<noteq> []"
  shows "add_all rms l cs = Some x \<longleftrightarrow>
     (\<exists>ms r. cut rms (incomplete l @ concat cs) ms r \<and> x = Inr (l\<lparr>incomplete := r, msgs := msgs l @ ms\<rparr>))"
  using assms
proof (induction cs arbitrary: l)
  case (Cons c cs)
  show ?case
  proof (cases "cs = []")
    case True
    then show ?thesis using add_all_Cons_iff [of l c cs x] by auto
  next
    case False
    have upd: "l\<lparr>incomplete := r1, msgs := m1, incomplete := r2, msgs := m2\<rparr> = l\<lparr>incomplete := r2, msgs := m2\<rparr>"
      for r1 r2 m1 m2 by simp
    have "add_all rms l (c # cs) = Some x \<longleftrightarrow>
        (\<exists>ms r ms' r'. cut rms (incomplete l @ c) ms r \<and> cut rms (r @ concat cs) ms' r' \<and>
           x = Inr (l\<lparr>incomplete := r', msgs := msgs l @ ms @ ms'\<rparr>))"
      unfolding add_all_Cons_iff Cons.IH [OF False] upd by simp
    also have "\<dots> \<longleftrightarrow> (\<exists>ms r. cut rms ((incomplete l @ c) @ concat cs) ms r \<and>
           x = Inr (l\<lparr>incomplete := r, msgs := msgs l @ ms\<rparr>))"
      unfolding cut_append [of "incomplete l @ c" "concat cs"] by blast
    finally show ?thesis by simp
  qed
qed simp

lemma add_all_add:
  assumes "cs \<noteq> []"
  shows "add_all rms l cs = add_all rms l [concat cs]"
proof (rule option.expand)
  have eq: "add_all rms l cs = Some x \<longleftrightarrow> add_all rms l [concat cs] = Some x" for x
    using add_all_refines [OF assms, of l x] add_all_refines [of "[concat cs]" l x] by simp
  show "(add_all rms l cs = None) = (add_all rms l [concat cs] = None)" using eq by (metis option.exhaust)
  show "the (add_all rms l cs) = the (add_all rms l [concat cs])"
    if "add_all rms l cs \<noteq> None" using eq that by (metis option.exhaust_sel)
qed

lemma add_never_asserts: "add rms l s \<noteq> Some (Inl e)"
  by (simp add: add_refines)

end

text \<open>A reader that always announces at least one byte, within the message itself: the lexer returns.\<close>

locale positive_framing = framing +
  assumes size_pos: "rms s = Some n \<Longrightarrow> 0 < n"
    and size_take: "\<lbrakk>rms s = Some n; n \<le> length s\<rbrakk> \<Longrightarrow> rms (take n s) = Some n"
begin

lemma cut_total: "\<exists>ms r. cut rms s ms r"
proof (induction s rule: measure_induct_rule [of length])
  case (less s)
  show ?case
  proof (cases "\<exists>n. rms s = Some n \<and> n \<le> length s")
    case True
    then obtain n where n: "rms s = Some n" "n \<le> length s" by blast
    with size_pos have "length (drop n s) < length s" by fastforce
    with less n cut.message show ?thesis by blast
  next
    case False
    then have "cut rms s [] s" by (cases "rms s") (auto intro!: cut.short)
    then show ?thesis by blast
  qed
qed

lemma cut_complete: "cut rms s ms r \<Longrightarrow> m \<in> set ms \<Longrightarrow> rms m = Some (length m)"
  by (induction rule: cut.induct) (auto simp: size_take)

end

section \<open>The two readers are framings\<close>

lemma two_or_short: "length s < 2 \<or> (\<exists>a b r. s = a # b # r)"
  by (cases s; cases "tl s") auto

lemma four_or_short: "length s < 4 \<or> (\<exists>a b c d r. s = a # b # c # d # r)"
  by (cases s; cases "tl s"; cases "tl (tl s)"; cases "tl (tl (tl s))") auto

context spirit
begin

lemma handshake_size_Cons: "read_msg_size_handshake pf (a # b # s) = Some (2 + unat (be16 a b))"
  by (simp add: read_msg_size_handshake_def)

lemma handshake_size_short: "length s < 2 \<Longrightarrow> read_msg_size_handshake pf s = None"
  by (simp add: read_msg_size_handshake_def)

lemma connected_size_Cons:
  "read_msg_size_connected pf (a # b # c # d # s) = Some (unat (4 + be32 a b c d))"
  by (simp add: read_msg_size_connected_def)

lemma connected_size_short: "length s < 4 \<Longrightarrow> read_msg_size_connected pf s = None"
  by (simp add: read_msg_size_connected_def)

lemma handshake_size_iff:
  "read_msg_size_handshake pf s = Some n \<longleftrightarrow> (\<exists>a b r. s = a # b # r \<and> n = 2 + unat (be16 a b))"
  using two_or_short [of s] by (auto simp: handshake_size_Cons handshake_size_short)

lemma connected_size_iff:
  "read_msg_size_connected pf s = Some n \<longleftrightarrow>
     (\<exists>a b c d r. s = a # b # c # d # r \<and> n = unat (4 + be32 a b c d))"
  using four_or_short [of s] by (auto simp: connected_size_Cons connected_size_short)

end

sublocale spirit \<subseteq> handshake: positive_framing "read_msg_size_handshake pf"
  by unfold_locales (auto simp: handshake_size_iff handshake_size_short)

sublocale spirit \<subseteq> connected: framing "read_msg_size_connected pf"
  by unfold_locales (auto simp: connected_size_iff connected_size_short)

context spirit
begin

text \<open>Every command is one message of the connected lexer, unless its size wraps.\<close>

lemma command_framed:
  assumes "length (command_body pf c) < 2 ^ 32 - 4"
  shows "read_msg_size_connected pf (execute_connected pf c) = Some (length (execute_connected pf c))"
proof -
  have "unat (4 + of_nat (length (command_body pf c)) :: u32) = 4 + length (command_body pf c)"
    using assms unat_of_nat_u32 [of "4 + length (command_body pf c)"] by simp
  then show ?thesis by (simp add: execute_connected_eq read_msg_size_connected_def)
qed

lemma handshake_framing: "framing (read_msg_size_handshake pf)"
  by (rule handshake.framing_axioms)

lemma handshake_total: "\<exists>ms r. cut (read_msg_size_handshake pf) s ms r"
  by (rule handshake.cut_total)

lemma connected_framing: "framing (read_msg_size_connected pf)"
  by (rule connected.framing_axioms)

lemma chunking:
  assumes "rms \<in> {read_msg_size_handshake pf, read_msg_size_connected pf}" and "chunks \<noteq> []"
  shows "add_all rms l chunks = add_all rms l [concat chunks]"
  using assms handshake.add_all_add connected.add_all_add by blast

lemma connected_stream:
  assumes framed: "\<forall>c\<in>set cmds. length (command_body pf c) < 2 ^ 32 - 4"
    and chunks: "concat chunks = concat (map (execute_connected pf) cmds) @ rest" "chunks \<noteq> []"
    and rest: "length rest < 4 \<or> (\<exists>c. rest \<noteq> execute_connected pf c \<and> prefix rest (execute_connected pf c)
       \<and> length (command_body pf c) < 2 ^ 32 - 4)"
  shows "add_all (read_msg_size_connected pf) new_lexer chunks =
    Some (Inr \<lparr>incomplete = rest, msgs = map (execute_connected pf) cmds\<rparr>)"
proof -
  have short: "read_msg_size_connected pf rest = None \<or>
      (\<exists>n. read_msg_size_connected pf rest = Some n \<and> length rest < n)"
    using rest
  proof
    assume "\<exists>c. rest \<noteq> execute_connected pf c \<and> prefix rest (execute_connected pf c)
       \<and> length (command_body pf c) < 2 ^ 32 - 4"
    then obtain c t where c: "execute_connected pf c = rest @ t" "t \<noteq> []"
      "length (command_body pf c) < 2 ^ 32 - 4" by (auto simp: prefix_def)
    show ?thesis
    proof (cases "read_msg_size_connected pf rest")
      case (Some n)
      then show ?thesis
        using connected.size_stable [OF Some, of t] command_framed [OF c(3)] c(1,2) by simp
    qed simp
  qed (simp add: connected_size_short)
  have "cut (read_msg_size_connected pf) (concat (map (execute_connected pf) cmds) @ rest)
      (map (execute_connected pf) cmds) rest"
    using framed by (intro connected.cut_concat short) (auto simp: command_framed)
  then show ?thesis
    using connected.add_all_refines [OF chunks(2), of new_lexer] chunks(1) by (auto simp: new_lexer_def)
qed

lemma handshake_add:
  "\<exists>b l' ms. add (read_msg_size_handshake pf) l s = Some (Inr (b, l')) \<and> msgs l' = msgs l @ ms \<and>
     concat ms @ incomplete l' = incomplete l @ s \<and> (b \<longleftrightarrow> msgs l' \<noteq> []) \<and>
     (\<forall>m\<in>set ms. read_msg_size_handshake pf m = Some (length m))"
proof -
  obtain ms r where *: "cut (read_msg_size_handshake pf) (incomplete l @ s) ms r"
    using handshake.cut_total by blast
  have "add (read_msg_size_handshake pf) l s =
      Some (Inr (msgs l @ ms \<noteq> [], l\<lparr>incomplete := r, msgs := msgs l @ ms\<rparr>))"
    using * handshake.add_refines by blast
  then show ?thesis using cut_conserves [OF *] handshake.cut_complete [OF *] by auto
qed

lemma connected_diverges:
  assumes "incomplete l = []"
  shows "add (read_msg_size_connected pf) l (255 # 255 # 255 # 252 # s) = None"
proof -
  have "read_msg_size_connected pf (255 # 255 # 255 # 252 # s) = Some 0"
    by (simp add: connected_size_Cons be32_def)
  then have "add (read_msg_size_connected pf) l (255 # 255 # 255 # 252 # s) \<noteq> Some x" for x
    using connected.cut_zero_size assms by (auto simp: connected.add_refines)
  then show ?thesis by (cases "add (read_msg_size_connected pf) l (255 # 255 # 255 # 252 # s)") auto
qed

end

section \<open>Properties\<close>

text \<open>C37. The division of the stream into reads does not matter: for both lexers, adding the bytes
  of any number of reads one after the other leaves the same messages and the same rest as
  adding all of them at once, and returns exactly when that returns.\<close>

theorem lexer_chunking:
  assumes "spirit pf" and "rms \<in> {read_msg_size_handshake pf, read_msg_size_connected pf}"
    and "chunks \<noteq> []"
  shows "add_all rms l chunks = add_all rms l [concat chunks]"
  by (rule spirit.chunking [OF assms])

theorem lexer_chunking_witness:
  "add_all (read_msg_size_handshake documented_platform) new_lexer [[0], [1, 7, 0], []] =
   add_all (read_msg_size_handshake documented_platform) new_lexer [[0, 1, 7, 0]]"
  using lexer_chunking [OF doc.spirit_axioms, of "read_msg_size_handshake documented_platform"
      "[[0], [1, 7, 0], []]" new_lexer] by simp

text \<open>C13. The handshake lexer always returns, never fails its assertion and loses no byte: the new
  messages followed by the rest are the old rest followed by the new bytes, each of the
  messages has the length its first two bytes announce, and the answer says whether a
  message is waiting.\<close>

theorem handshake_lexer_total:
  assumes "spirit pf"
  shows "\<exists>b l' ms. add (read_msg_size_handshake pf) l s = Some (Inr (b, l')) \<and> msgs l' = msgs l @ ms \<and>
     concat ms @ incomplete l' = incomplete l @ s \<and> (b \<longleftrightarrow> msgs l' \<noteq> []) \<and>
     (\<forall>m\<in>set ms. read_msg_size_handshake pf m = Some (length m))"
  by (rule spirit.handshake_add [OF assms])

theorem handshake_lexer_total_witness:
  "\<exists>b l' ms. add (read_msg_size_handshake documented_platform) new_lexer [0, 1, 7, 0] = Some (Inr (b, l')) \<and>
     msgs l' = msgs new_lexer @ ms \<and> concat ms @ incomplete l' = incomplete new_lexer @ [0, 1, 7, 0] \<and>
     (b \<longleftrightarrow> msgs l' \<noteq> []) \<and>
     (\<forall>m\<in>set ms. read_msg_size_handshake documented_platform m = Some (length m))"
  by (rule handshake_lexer_total [OF doc.spirit_axioms])

text \<open>C27. The connected lexer need not return: the length field \<open>FF FF FF FC\<close>, to which the four
  bytes of the header are added in 32 bits, announces a message of size zero, and whatever
  follows it the lexer extracts empty messages for ever.\<close>

theorem connected_lexer_diverges:
  assumes "spirit pf" and "incomplete l = []"
  shows "add (read_msg_size_connected pf) l (255 # 255 # 255 # 252 # s) = None"
  by (rule spirit.connected_diverges [OF assms])

theorem connected_lexer_diverges_witness:
  "add (read_msg_size_connected documented_platform) new_lexer [255, 255, 255, 252] = None"
  using connected_lexer_diverges [OF doc.spirit_axioms, of new_lexer "[]"] by (simp add: new_lexer_def)

text \<open>C6. A stream of commands, cut into reads anywhere and broken off inside another command, gives
  the connected lexer exactly the messages that were built, in their order, and keeps the
  broken one; for commands whose size does not wrap the length field.\<close>

theorem connected_stream_reassembled:
  assumes "spirit pf"
    and "\<forall>c\<in>set cmds. length (command_body pf c) < 2 ^ 32 - 4"
    and "concat chunks = concat (map (execute_connected pf) cmds) @ rest" and "chunks \<noteq> []"
    and "length rest < 4 \<or> (\<exists>c. rest \<noteq> execute_connected pf c \<and> prefix rest (execute_connected pf c)
       \<and> length (command_body pf c) < 2 ^ 32 - 4)"
  shows "add_all (read_msg_size_connected pf) new_lexer chunks =
    Some (Inr \<lparr>incomplete = rest, msgs = map (execute_connected pf) cmds\<rparr>)"
  by (rule spirit.connected_stream [OF assms])

theorem connected_stream_reassembled_witness:
  "add_all (read_msg_size_connected documented_platform) new_lexer
     [take 3 (execute_connected documented_platform (Control_msg_link default_e_pid default_e_pid)),
      drop 3 (execute_connected documented_platform (Control_msg_link default_e_pid default_e_pid)) @
        execute_connected documented_platform (Control_msg_send [97, 1] default_e_pid), [0, 0]] =
   Some (Inr \<lparr>incomplete = [0, 0],
     msgs = [execute_connected documented_platform (Control_msg_link default_e_pid default_e_pid),
             execute_connected documented_platform (Control_msg_send [97, 1] default_e_pid)]\<rparr>)"
proof -
  have body: "length (command_body documented_platform (Control_msg_link default_e_pid default_e_pid)) < 2 ^ 32 - 4"
    "length (command_body documented_platform (Control_msg_send [97, 1] default_e_pid)) < 2 ^ 32 - 4"
    by (simp_all add: command_body_def add_message_header_def append_payload_def ctrl_int_def
        default_e_pid_def grammar_defs serialize_int_def)
  let ?m = "execute_connected documented_platform (Control_msg_link default_e_pid default_e_pid)"
  let ?n = "execute_connected documented_platform (Control_msg_send [97, 1] default_e_pid)"
  show ?thesis
    using connected_stream_reassembled [OF doc.spirit_axioms,
      of "[Control_msg_link default_e_pid default_e_pid, Control_msg_send [97, 1] default_e_pid]"
        "[take 3 ?m, drop 3 ?m @ ?n, [0, 0]]" "[0, 0]"] body
    by (simp del: execute_connected.simps)
qed

end
