(* ===== verification/Handshake_Grammar.thy ===== *)
theory Handshake_Grammar
  imports Lexer
begin

text \<open>
  The messages of the distribution handshake, \<open>impl/handshake_grammar.h\<close>: for every grammar of
  the header its parser or generator, in the order of the file, and \<open>parse\<close> and \<open>generate\<close>
  of \<open>impl/utils.h\<close>, which turn a failure into an exception. The lemmas give the round trip of
  every message and that the handshake lexer recognises it as one message.
\<close>

section \<open>Parsing and generating\<close>

definition parse :: "msg_seq \<Rightarrow> 'a parser \<Rightarrow> 'a result" where
  "parse stream p =
     (case p stream of None \<Rightarrow> Inl (Tinch_pp_exception ''Parse failure!'') | Some (attr, _) \<Rightarrow> Inr attr)"

definition generate :: "('a \<Rightarrow> msg_seq option) \<Rightarrow> 'a \<Rightarrow> msg_seq result" where
  "generate g param =
     (case g param of None \<Rightarrow> Inl (Tinch_pp_exception ''Generate failed!'') | Some out \<Rightarrow> Inr out)"

abbreviation byte_n :: byte where "byte_n \<equiv> 110"
abbreviation byte_s :: byte where "byte_s \<equiv> 115"
abbreviation byte_r :: byte where "byte_r \<equiv> 114"
abbreviation byte_a :: byte where "byte_a \<equiv> 97"

section \<open>Names\<close>

record sent_name_type =
  version0 :: int
  version1 :: int
  sent_name :: string

definition send_name :: "platform \<Rightarrow> string \<Rightarrow> msg_seq option" where
  "send_name pf name =
     (let a = to_serializable_string name
      in Some (karma_big_word pf (of_nat (string_size a + 7)) @ karma_byte pf byte_n @
           karma_big_word pf supported_version @ karma_big_dword pf capabilities @
           karma_many (karma_char pf) (string_val a)))"

text \<open>
  The attributes are attached in order: the 16 bits of the version, and then the 32 bits of
  the flags, which become the second \<open>int\<close> of the structure.
\<close>

definition send_name_p :: "platform \<Rightarrow> sent_name_type parser" where
  "send_name_p pf s =
     do { (_, s) \<leftarrow> qi_big_word pf s;
          (_, s) \<leftarrow> qi_byte_lit pf byte_n s;
          (v0, s) \<leftarrow> qi_big_word pf s;
          (v1, s) \<leftarrow> qi_big_dword pf s;
          (name, s) \<leftarrow> qi_plus (qi_char pf) s;
          Some (\<lparr>version0 = uint v0, version1 = sint v1, sent_name = name\<rparr>, s) }"

definition receive_name :: "platform \<Rightarrow> string parser" where
  "receive_name pf s =
     do { (_, s) \<leftarrow> qi_big_word pf s;
          (_, s) \<leftarrow> qi_byte_lit pf byte_n s;
          (_, s) \<leftarrow> qi_big_word pf s;
          (_, s) \<leftarrow> qi_big_dword pf s;
          qi_plus (qi_char pf) s }"

section \<open>Status\<close>

definition receive_status :: "platform \<Rightarrow> string parser" where
  "receive_status pf s =
     do { (_, s) \<leftarrow> qi_big_word pf s;
          (_, s) \<leftarrow> qi_byte_lit pf byte_s s;
          qi_plus (qi_char pf) s }"

definition receive_status_g :: "platform \<Rightarrow> string \<Rightarrow> msg_seq option" where
  "receive_status_g pf status =
     (let a = to_serializable_string status
      in Some (karma_big_word pf (of_nat (string_size a + 1)) @ karma_byte pf byte_s @
           karma_many (karma_char pf) (string_val a)))"

section \<open>Challenges\<close>

record challenge_attributes =
  att_challenge :: u32
  att_node_name :: string

definition recv_challenge :: "platform \<Rightarrow> challenge_attributes parser" where
  "recv_challenge pf s =
     do { (_, s) \<leftarrow> qi_big_word pf s;
          (_, s) \<leftarrow> qi_byte_lit pf byte_n s;
          (_, s) \<leftarrow> qi_big_word pf s;
          (_, s) \<leftarrow> qi_big_dword pf s;
          (c, s) \<leftarrow> qi_big_dword pf s;
          (name, s) \<leftarrow> qi_plus (qi_char pf) s;
          Some (\<lparr>att_challenge = c, att_node_name = name\<rparr>, s) }"

definition send_challenge_g :: "platform \<Rightarrow> challenge_attributes \<Rightarrow> msg_seq option" where
  "send_challenge_g pf attr =
     Some (karma_big_word pf (of_nat (length (att_node_name attr) + 11)) @ karma_byte pf byte_n @
       karma_big_word pf supported_version @ karma_big_dword pf capabilities @
       karma_big_dword pf (att_challenge attr) @ karma_many (karma_char pf) (att_node_name attr))"

abbreviation digest_length :: nat where "digest_length \<equiv> 16"

record challenge_reply_attributes =
  reply_challenge :: u32
  reply_digest :: msg_seq

definition challenge_reply_p :: "platform \<Rightarrow> challenge_reply_attributes parser" where
  "challenge_reply_p pf s =
     do { (_, s) \<leftarrow> qi_big_word_lit pf (of_nat (5 + digest_length)) s;
          (_, s) \<leftarrow> qi_byte_lit pf byte_r s;
          (c, s) \<leftarrow> qi_big_dword pf s;
          (d, s) \<leftarrow> qi_repeat digest_length (qi_byte pf) s;
          Some (\<lparr>reply_challenge = c, reply_digest = d\<rparr>, s) }"

definition challenge_reply :: "platform \<Rightarrow> challenge_reply_attributes \<Rightarrow> msg_seq option" where
  "challenge_reply pf attr =
     do { d \<leftarrow> karma_repeat digest_length (karma_byte pf) (reply_digest attr);
          Some (karma_big_word pf (of_nat (5 + digest_length)) @ karma_byte pf byte_r @
            karma_big_dword pf (reply_challenge attr) @ d) }"

definition recv_challenge_ack_p :: "platform \<Rightarrow> msg_seq parser" where
  "recv_challenge_ack_p pf s =
     do { (_, s) \<leftarrow> qi_big_word_lit pf (of_nat (1 + digest_length)) s;
          (_, s) \<leftarrow> qi_byte_lit pf byte_a s;
          qi_repeat digest_length (qi_byte pf) s }"

definition send_challenge_ack_g :: "platform \<Rightarrow> msg_seq \<Rightarrow> msg_seq option" where
  "send_challenge_ack_g pf digest =
     do { d \<leftarrow> karma_repeat digest_length (karma_byte pf) digest;
          Some (karma_big_word pf (of_nat (1 + digest_length)) @ karma_byte pf byte_a @ d) }"

lemmas handshake_parsers =
  parse_def send_name_p_def receive_name_def receive_status_def recv_challenge_def
  challenge_reply_p_def recv_challenge_ack_p_def

lemmas handshake_generators =
  Let_def generate_def send_name_def receive_status_g_def send_challenge_g_def challenge_reply_def
  send_challenge_ack_g_def

section \<open>Round trips\<close>

lemma capabilities_positive: "sint capabilities = 1284"
  by (simp add: capabilities_def)

context spirit
begin

lemma name_roundtrip:
  assumes "name \<noteq> []" and "length name + 7 < 2 ^ 16"
  shows "\<exists>msg. generate (send_name pf) name = Inr msg \<and>
    parse msg (send_name_p pf) = Inr \<lparr>version0 = 5, version1 = 1284, sent_name = name\<rparr> \<and>
    parse msg (receive_name pf) = Inr name \<and>
    read_msg_size_handshake pf msg = Some (length msg)"
proof -
  have "unat (of_nat (length name + 7) :: u16) = length name + 7"
    by (rule unat_of_nat_u16) (use assms(2) in simp)
  then show ?thesis using assms(1)
    by (auto simp: handshake_generators handshake_parsers read_msg_size_handshake_def capabilities_positive)
qed

lemma status_roundtrip:
  assumes "status \<noteq> []" and "length status + 1 < 2 ^ 16"
  shows "\<exists>msg. generate (receive_status_g pf) status = Inr msg \<and>
    parse msg (receive_status pf) = Inr status \<and> read_msg_size_handshake pf msg = Some (length msg)"
proof -
  have "unat (of_nat (length status + 1) :: u16) = length status + 1"
    by (rule unat_of_nat_u16) (use assms(2) in simp)
  then show ?thesis using assms(1)
    by (auto simp: handshake_generators handshake_parsers read_msg_size_handshake_def)
qed

lemma challenge_roundtrip:
  assumes "att_node_name attr \<noteq> []" and "length (att_node_name attr) + 11 < 2 ^ 16"
  shows "\<exists>msg. generate (send_challenge_g pf) attr = Inr msg \<and>
    parse msg (recv_challenge pf) = Inr attr \<and> read_msg_size_handshake pf msg = Some (length msg)"
proof -
  have "unat (of_nat (length (att_node_name attr) + 11) :: u16) = length (att_node_name attr) + 11"
    by (rule unat_of_nat_u16) (use assms(2) in simp)
  then show ?thesis using assms(1)
    by (auto simp: handshake_generators handshake_parsers read_msg_size_handshake_def)
qed

lemma reply_roundtrip:
  assumes "length (reply_digest attr) = digest_length"
  shows "\<exists>msg. generate (challenge_reply pf) attr = Inr msg \<and>
    parse msg (challenge_reply_p pf) = Inr attr \<and> read_msg_size_handshake pf msg = Some (length msg)"
  using assms by (auto simp: handshake_generators handshake_parsers read_msg_size_handshake_def)

lemma ack_roundtrip:
  assumes "length digest = digest_length"
  shows "\<exists>msg. generate (send_challenge_ack_g pf) digest = Inr msg \<and>
    parse msg (recv_challenge_ack_p pf) = Inr digest \<and> read_msg_size_handshake pf msg = Some (length msg)"
  using assms by (auto simp: handshake_generators handshake_parsers read_msg_size_handshake_def)

end

section \<open>Properties\<close>



end
