(* ===== verification/Md5.thy ===== *)
theory Md5
  imports Platform
begin

text \<open>
  \<open>impl/md5.cpp\<close> and \<open>calculate_digest\<close> of \<open>impl/utils.cpp\<close>, the function that the handshake's
  challenges rest on. The 64 operations of a block are the tables of the source, in its
  order; \<open>md5_append\<close> is the streaming interface with its partial block and its 64-bit count
  in two words. The reference is RFC 1321: pad the message, cut it into blocks and fold the
  block function over them; the development shows that the streaming code computes exactly
  that, however a message is split over calls.
\<close>

section \<open>The block function\<close>

abbreviation T_MASK :: u32 where "T_MASK \<equiv> NOT 0"

type_synonym registers = "u32 \<times> u32 \<times> u32 \<times> u32"

definition rotate_left_32 :: "u32 \<Rightarrow> nat \<Rightarrow> u32" where
  "rotate_left_32 x n = (push_bit n x OR drop_bit (32 - n) x)"

definition md5_F :: "u32 \<Rightarrow> u32 \<Rightarrow> u32 \<Rightarrow> u32" where "md5_F x y z = ((x AND y) OR (NOT x AND z))"
definition md5_G :: "u32 \<Rightarrow> u32 \<Rightarrow> u32 \<Rightarrow> u32" where "md5_G x y z = ((x AND z) OR (y AND NOT z))"
definition md5_H :: "u32 \<Rightarrow> u32 \<Rightarrow> u32 \<Rightarrow> u32" where "md5_H x y z = (x XOR y XOR z)"
definition md5_I :: "u32 \<Rightarrow> u32 \<Rightarrow> u32 \<Rightarrow> u32" where "md5_I x y z = (y XOR (x OR NOT z))"

text \<open>
  \<open>SET(a, b, c, d, k, s, Ti)\<close>. The next operation of the source is on the registers in the order
  \<open>d, a, b, c\<close>, which is the order in which they are returned; after sixteen operations they are
  back in their places.
\<close>

definition md5_set :: "(u32 \<Rightarrow> u32 \<Rightarrow> u32 \<Rightarrow> u32) \<Rightarrow> u32 list \<Rightarrow> nat \<times> nat \<times> u32 \<Rightarrow> registers \<Rightarrow> registers" where
  "md5_set f X = (\<lambda>(k, s, t_i) (a, b, c, d).
     let t = a + f b c d + X ! k + t_i in (d, rotate_left_32 t s + b, b, c))"

text \<open>The constants \<open>T1\<close> to \<open>T64\<close>.\<close>

definition md5_T :: "u32 list" where
  "md5_T =
     [T_MASK XOR 0x28955b87, T_MASK XOR 0x173848a9, 0x242070db, T_MASK XOR 0x3e423111,
      T_MASK XOR 0x0a83f050, 0x4787c62a, T_MASK XOR 0x57cfb9ec, T_MASK XOR 0x02b96afe,
      0x698098d8, T_MASK XOR 0x74bb0850, T_MASK XOR 0x0000a44e, T_MASK XOR 0x76a32841,
      0x6b901122, T_MASK XOR 0x02678e6c, T_MASK XOR 0x5986bc71, 0x49b40821,
      T_MASK XOR 0x09e1da9d, T_MASK XOR 0x3fbf4cbf, 0x265e5a51, T_MASK XOR 0x16493855,
      T_MASK XOR 0x29d0efa2, 0x02441453, T_MASK XOR 0x275e197e, T_MASK XOR 0x182c0437,
      0x21e1cde6, T_MASK XOR 0x3cc8f829, T_MASK XOR 0x0b2af278, 0x455a14ed,
      T_MASK XOR 0x561c16fa, T_MASK XOR 0x03105c07, 0x676f02d9, T_MASK XOR 0x72d5b375,
      T_MASK XOR 0x0005c6bd, T_MASK XOR 0x788e097e, 0x6d9d6122, T_MASK XOR 0x021ac7f3,
      T_MASK XOR 0x5b4115bb, 0x4bdecfa9, T_MASK XOR 0x0944b49f, T_MASK XOR 0x4140438f,
      0x289b7ec6, T_MASK XOR 0x155ed805, T_MASK XOR 0x2b10cf7a, 0x04881d05,
      T_MASK XOR 0x262b2fc6, T_MASK XOR 0x1924661a, 0x1fa27cf8, T_MASK XOR 0x3b53a99a,
      T_MASK XOR 0x0bd6ddbb, 0x432aff97, T_MASK XOR 0x546bdc58, T_MASK XOR 0x036c5fc6,
      0x655b59c3, T_MASK XOR 0x70f3336d, T_MASK XOR 0x00100b82, T_MASK XOR 0x7a7ba22e,
      0x6fa87e4f, T_MASK XOR 0x01d3191f, T_MASK XOR 0x5cfebceb, 0x4e0811a1,
      T_MASK XOR 0x08ac817d, T_MASK XOR 0x42c50dca, 0x2ad7d2bb, T_MASK XOR 0x14792c6e]"

definition Ti :: "nat \<Rightarrow> u32" where
  "Ti i = md5_T ! (i - 1)"

definition md5_round1 :: "(nat \<times> nat \<times> u32) list" where
  "md5_round1 =
     [(0, 7, Ti 1), (1, 12, Ti 2), (2, 17, Ti 3), (3, 22, Ti 4),
      (4, 7, Ti 5), (5, 12, Ti 6), (6, 17, Ti 7), (7, 22, Ti 8),
      (8, 7, Ti 9), (9, 12, Ti 10), (10, 17, Ti 11), (11, 22, Ti 12),
      (12, 7, Ti 13), (13, 12, Ti 14), (14, 17, Ti 15), (15, 22, Ti 16)]"

definition md5_round2 :: "(nat \<times> nat \<times> u32) list" where
  "md5_round2 =
     [(1, 5, Ti 17), (6, 9, Ti 18), (11, 14, Ti 19), (0, 20, Ti 20),
      (5, 5, Ti 21), (10, 9, Ti 22), (15, 14, Ti 23), (4, 20, Ti 24),
      (9, 5, Ti 25), (14, 9, Ti 26), (3, 14, Ti 27), (8, 20, Ti 28),
      (13, 5, Ti 29), (2, 9, Ti 30), (7, 14, Ti 31), (12, 20, Ti 32)]"

definition md5_round3 :: "(nat \<times> nat \<times> u32) list" where
  "md5_round3 =
     [(5, 4, Ti 33), (8, 11, Ti 34), (11, 16, Ti 35), (14, 23, Ti 36),
      (1, 4, Ti 37), (4, 11, Ti 38), (7, 16, Ti 39), (10, 23, Ti 40),
      (13, 4, Ti 41), (0, 11, Ti 42), (3, 16, Ti 43), (6, 23, Ti 44),
      (9, 4, Ti 45), (12, 11, Ti 46), (15, 16, Ti 47), (2, 23, Ti 48)]"

definition md5_round4 :: "(nat \<times> nat \<times> u32) list" where
  "md5_round4 =
     [(0, 6, Ti 49), (7, 10, Ti 50), (14, 15, Ti 51), (5, 21, Ti 52),
      (12, 6, Ti 53), (3, 10, Ti 54), (10, 15, Ti 55), (1, 21, Ti 56),
      (8, 6, Ti 57), (15, 10, Ti 58), (6, 15, Ti 59), (13, 21, Ti 60),
      (4, 6, Ti 61), (11, 10, Ti 62), (2, 15, Ti 63), (9, 21, Ti 64)]"

text \<open>The block as sixteen words, least significant byte first.\<close>

fun md5_words :: "byte list \<Rightarrow> u32 list" where
  "md5_words (a # b # c # d # xp) =
     (ucast a + push_bit 8 (ucast b) + push_bit 16 (ucast c) + push_bit 24 (ucast d)) # md5_words xp"
| "md5_words _ = []"

definition md5_process :: "registers \<Rightarrow> byte list \<Rightarrow> registers" where
  "md5_process abcd data =
     (let X = md5_words data;
          (a, b, c, d) =
            fold (md5_set md5_I X) md5_round4 (fold (md5_set md5_H X) md5_round3
              (fold (md5_set md5_G X) md5_round2 (fold (md5_set md5_F X) md5_round1 abcd)));
          (a0, b0, c0, d0) = abcd
      in (a0 + a, b0 + b, c0 + c, d0 + d))"

section \<open>The streaming interface\<close>

type_synonym c_int = "32 word"

record md5_state =
  count0 :: u32
  count1 :: u32
  abcd :: registers
  buf :: "byte list"

text \<open>The buffer of a fresh state is not initialised; its contents are a parameter.\<close>

definition md5_init :: "byte list \<Rightarrow> md5_state" where
  "md5_init garbage =
     \<lparr>count0 = 0, count1 = 0,
      abcd = (0x67452301, T_MASK XOR 0x10325476, T_MASK XOR 0x67452301, 0x10325476),
      buf = garbage\<rparr>"

text \<open>The loop over the full blocks and the copy of the last, partial one.\<close>

function md5_full_blocks :: "md5_state \<Rightarrow> byte list \<Rightarrow> md5_state" where
  "md5_full_blocks pms p =
     (if length p \<ge> 64 then md5_full_blocks (pms\<lparr>abcd := md5_process (abcd pms) (take 64 p)\<rparr>) (drop 64 p)
      else if p \<noteq> [] then pms\<lparr>buf := p @ drop (length p) (buf pms)\<rparr>
      else pms)"
  by pat_completeness auto

termination by (relation "measure (\<lambda>(_, p). length p)") auto

declare md5_full_blocks.simps [simp del]

text \<open>
  The number of bytes is an \<open>int\<close>, here a word of 32 bits that \<open>sint\<close> reads: nothing happens when it is not
  positive, and \<open>nbytes << 3\<close> leaves the range of an \<open>int\<close> from \<open>2 ^ 28\<close> on. C does not define the result then; the
  model has the bits that remain, which is what the cast to \<open>md5_word_t\<close> asks for. The update of the
  message length is of two words, with a carry.
\<close>

definition md5_count :: "md5_state \<Rightarrow> c_int \<Rightarrow> md5_state" where
  "md5_count pms nbytes =
     (let nbits = push_bit 3 nbytes;
          pms = pms\<lparr>count1 := count1 pms + signed_drop_bit 29 nbytes\<rparr>;
          pms = pms\<lparr>count0 := count0 pms + nbits\<rparr>
      in if count0 pms < nbits then pms\<lparr>count1 := count1 pms + 1\<rparr> else pms)"

definition md5_append :: "md5_state \<Rightarrow> byte list \<Rightarrow> c_int \<Rightarrow> md5_state" where
  "md5_append pms data nbytes =
     (let left = nat (sint nbytes);
          p = take left data;
          offset = unat (drop_bit 3 (count0 pms) AND 63)
      in if sint nbytes \<le> 0 then pms
         else
           let pms = md5_count pms nbytes
           in if offset \<noteq> 0 then
                let copy = (if offset + left > 64 then 64 - offset else left);
                    pms = pms\<lparr>buf := take offset (buf pms) @ take copy p @ drop (offset + copy) (buf pms)\<rparr>
                in if offset + copy < 64 then pms
                   else md5_full_blocks (pms\<lparr>abcd := md5_process (abcd pms) (buf pms)\<rparr>) (drop copy p)
              else md5_full_blocks pms p)"

definition md5_pad :: "byte list" where
  "md5_pad = 0x80 # replicate 63 0"

definition le32_bytes :: "u32 \<Rightarrow> byte list" where
  "le32_bytes w = [ucast w, ucast (drop_bit 8 w), ucast (drop_bit 16 w), ucast (drop_bit 24 w)]"

definition md5_finish :: "md5_state \<Rightarrow> byte list" where
  "md5_finish pms =
     (let data = le32_bytes (count0 pms) @ le32_bytes (count1 pms);
          pms = md5_append pms md5_pad ((55 - drop_bit 3 (count0 pms) AND 63) + 1);
          pms = md5_append pms data 8;
          (a, b, c, d) = abcd pms
      in le32_bytes a @ le32_bytes b @ le32_bytes c @ le32_bytes d)"

text \<open>The size of the string is narrowed to the \<open>int\<close> that \<open>md5_append\<close> takes.\<close>

definition calculate_digest :: "platform \<Rightarrow> byte list \<Rightarrow> u32 \<Rightarrow> string \<Rightarrow> msg_seq" where
  "calculate_digest pf garbage challenge cookie =
     (let chall = lexical_cast pf (uint challenge);
          cs = cookie @ chall
      in md5_finish (md5_append (md5_init garbage) (bytes_of cs) (of_nat (length cs))))"

section \<open>The reference: RFC 1321\<close>

text \<open>The block function over the full blocks of a message; what is left of it after them.\<close>

function md5_fold :: "registers \<Rightarrow> byte list \<Rightarrow> registers" where
  "md5_fold r p = (if length p \<ge> 64 then md5_fold (md5_process r (take 64 p)) (drop 64 p) else r)"
  by pat_completeness auto

termination by (relation "measure (\<lambda>(_, p). length p)") auto

declare md5_fold.simps [simp del]

definition tail_block :: "byte list \<Rightarrow> byte list" where
  "tail_block m = drop (length m - length m mod 64) m"

definition md5_registers :: registers where
  "md5_registers = (0x67452301, 0xefcdab89, 0x98badcfe, 0x10325476)"

definition md5_padded :: "byte list \<Rightarrow> byte list" where
  "md5_padded m =
     m @ 0x80 # replicate (nat ((55 - int (length m)) mod 64)) 0 @
     le32_bytes (word_of_int (8 * int (length m))) @ le32_bytes (word_of_int (8 * int (length m) div 2 ^ 32))"

definition md5_rfc1321 :: "byte list \<Rightarrow> byte list" where
  "md5_rfc1321 m =
     (let (a, b, c, d) = md5_fold md5_registers (md5_padded m)
      in le32_bytes a @ le32_bytes b @ le32_bytes c @ le32_bytes d)"

lemma length_tail_block [simp]: "length (tail_block m) = length m mod 64"
  by (simp add: tail_block_def)

lemma tail_block_short: "length m < 64 \<Longrightarrow> tail_block m = m"
  by (simp add: tail_block_def)

lemma tail_block_drop:
  assumes "64 \<le> length m"
  shows "tail_block (drop 64 m) = tail_block m"
proof -
  have "(length m - 64) mod 64 = length m mod 64" using assms by (simp add: le_mod_geq)
  moreover have "length m mod 64 \<le> length m - 64"
    using calculation mod_less_eq_dividend by metis
  ultimately show ?thesis using assms by (simp add: tail_block_def)
qed

lemma md5_fold_short: "length p < 64 \<Longrightarrow> md5_fold r p = r"
  by (simp add: md5_fold.simps)

lemma md5_fold_append: "md5_fold r (m @ d) = md5_fold (md5_fold r m) (tail_block m @ d)"
proof (induction r m rule: md5_fold.induct)
  case (1 r p)
  show ?case
  proof (cases "64 \<le> length p")
    case True
    then have "md5_fold r (p @ d) = md5_fold (md5_process r (take 64 p)) (drop 64 p @ d)"
      by (simp add: md5_fold.simps [of r "p @ d"])
    then show ?thesis using 1 True by (simp add: tail_block_drop md5_fold.simps [of r p])
  qed (simp add: tail_block_short md5_fold_short)
qed

lemma tail_block_append: "tail_block (m @ d) = tail_block (tail_block m @ d)"
proof (induction m rule: measure_induct_rule [of length])
  case (less m)
  show ?case
  proof (cases "64 \<le> length m")
    case True
    then have "tail_block (m @ d) = tail_block (drop 64 m @ d)"
      using tail_block_drop [of "m @ d"] by simp
    then show ?thesis using less [of "drop 64 m"] True by (simp add: tail_block_drop)
  qed (simp add: tail_block_short)
qed

section \<open>The stream absorbs the message\<close>

definition absorbed :: "md5_state \<Rightarrow> byte list \<Rightarrow> bool" where
  "absorbed pms m \<longleftrightarrow>
     length (buf pms) = 64 \<and> abcd pms = md5_fold md5_registers m \<and>
     take (length m mod 64) (buf pms) = tail_block m \<and>
     count0 pms = word_of_int (8 * int (length m)) \<and>
     count1 pms = word_of_int (8 * int (length m) div 2 ^ 32)"

lemma absorbedI:
  assumes "length (buf pms) = 64" and "abcd pms = md5_fold md5_registers m"
    and "take (length m mod 64) (buf pms) = tail_block m"
    and "count0 pms = word_of_int (8 * int (length m))"
    and "count1 pms = word_of_int (8 * int (length m) div 2 ^ 32)"
  shows "absorbed pms m"
  using assms unfolding absorbed_def by blast

lemma full_blocks_spec:
  assumes "length (buf pms) = 64"
  shows "length (buf (md5_full_blocks pms p)) = 64 \<and>
    abcd (md5_full_blocks pms p) = md5_fold (abcd pms) p \<and>
    take (length p mod 64) (buf (md5_full_blocks pms p)) = tail_block p \<and>
    count0 (md5_full_blocks pms p) = count0 pms \<and> count1 (md5_full_blocks pms p) = count1 pms"
  using assms
proof (induction pms p rule: md5_full_blocks.induct)
  case (1 pms p)
  show ?case
  proof (cases "64 \<le> length p")
    case True
    then have "(length p - 64) mod 64 = length p mod 64" by (simp add: le_mod_geq)
    with 1 True show ?thesis
      by (simp add: md5_full_blocks.simps [of pms p] md5_fold.simps [of _ p] tail_block_drop)
  next
    case False
    then show ?thesis using 1(2)
      by (auto simp: md5_full_blocks.simps [of pms p] md5_fold_short tail_block_short)
  qed
qed

lemma carry_count:
  fixes x y W :: int
  assumes "0 < W"
  shows "(x + y) div W = x div W + y div W + (if (x + y) mod W < y mod W then 1 else 0)"
proof -
  define a b where "a = x mod W" and "b = y mod W"
  then have ab: "0 \<le> a" "a < W" "0 \<le> b" "b < W" using assms by simp_all
  have *: "(x + y) div W = x div W + y div W + (a + b) div W" "(x + y) mod W = (a + b) mod W"
    by (simp_all add: a_def b_def div_add1_eq [of x y W] mod_add_eq)
  show ?thesis
  proof (cases "a + b < W")
    case True
    then show ?thesis using * ab by (simp add: b_def [symmetric])
  next
    case False
    then have "(a + b) div W = 1" "(a + b) mod W = a + b - W"
      using ab int_div_pos_eq [of "a + b" W 1 "a + b - W"] int_mod_pos_eq [of "a + b" W 1 "a + b - W"] by simp_all
    then show ?thesis using * ab by (simp add: b_def [symmetric])
  qed
qed

lemma counts_append:
  assumes "c0 = word_of_int (8 * int l)" and "c1 = word_of_int (8 * int l div 2 ^ 32)"
  shows "c0 + word_of_int (push_bit 3 (int n)) = (word_of_int (8 * int (l + n)) :: u32)"
    and "c1 + word_of_int (drop_bit 29 (int n)) +
        (if c0 + word_of_int (push_bit 3 (int n)) < (word_of_int (push_bit 3 (int n)) :: u32) then 1 else 0) =
      (word_of_int (8 * int (l + n) div 2 ^ 32) :: u32)"
proof -
  have push: "push_bit 3 (int n) = 8 * int n" by (simp add: push_bit_eq_mult)
  show c0: "c0 + word_of_int (push_bit 3 (int n)) = (word_of_int (8 * int (l + n)) :: u32)"
    by (simp add: assms push algebra_simps)
  have "drop_bit 29 (int n) = 8 * int n div 2 ^ 32"
    by (simp add: drop_bit_eq_div)
  moreover have "c0 + word_of_int (push_bit 3 (int n)) < (word_of_int (push_bit 3 (int n)) :: u32) \<longleftrightarrow>
      (8 * int l + 8 * int n) mod 2 ^ 32 < (8 * int n) mod 2 ^ 32"
    unfolding c0 unfolding push word_less_def uint_word_of_int by (simp add: distrib_left)
  ultimately show "c1 + word_of_int (drop_bit 29 (int n)) +
        (if c0 + word_of_int (push_bit 3 (int n)) < (word_of_int (push_bit 3 (int n)) :: u32) then 1 else 0) =
      (word_of_int (8 * int (l + n) div 2 ^ 32) :: u32)"
    using carry_count [of "2 ^ 32" "8 * int l" "8 * int n"] by (simp add: assms algebra_simps)
qed

lemma sint_of_length: "n < 2 ^ 31 \<Longrightarrow> sint (of_nat n :: c_int) = int n"
  by (simp add: signed_of_nat signed_take_bit_int_eq_self)

lemma count_of_length:
  assumes "n < 2 ^ 31"
  shows "push_bit 3 (of_nat n :: c_int) = word_of_int (push_bit 3 (int n))"
    and "signed_drop_bit 29 (of_nat n :: c_int) = word_of_int (drop_bit 29 (int n))"
proof -
  show "push_bit 3 (of_nat n :: c_int) = word_of_int (push_bit 3 (int n))"
    by (simp add: push_bit_eq_mult)
  have "drop_bit 29 (int n) \<le> int n"
    using zdiv_mono2 [of "int n" 1 "2 ^ 29"] unfolding drop_bit_eq_div by simp
  then have "drop_bit 29 (int n) < 2 ^ 31" "- (2 ^ 31) \<le> drop_bit 29 (int n)"
    using assms by (simp_all add: order_trans [of _ 0])
  then have "sint (word_of_int (drop_bit 29 (int n)) :: c_int) = drop_bit 29 (int n)"
    by (simp add: signed_of_int signed_take_bit_int_eq_self)
  moreover have "sint (signed_drop_bit 29 (of_nat n :: c_int)) = drop_bit 29 (int n)"
    using sint_of_length [OF assms] by (simp add: sint_signed_drop_bit_eq)
  ultimately show "signed_drop_bit 29 (of_nat n :: c_int) = word_of_int (drop_bit 29 (int n))"
    by (metis signed_word_eqI)
qed

lemma offset_is_position:
  assumes "c0 = (word_of_int (8 * int l) :: u32)"
  shows "unat (drop_bit 3 c0 AND 63) = l mod 64"
proof -
  have c0: "uint c0 = 8 * int l mod 2 ^ 32" unfolding assms uint_word_of_int by simp
  have "drop_bit 3 c0 AND 63 = take_bit 6 (drop_bit 3 c0)"
    by (simp add: take_bit_eq_mask mask_eq_exp_minus_1)
  then have "uint (drop_bit 3 c0 AND 63) = uint c0 div 8 mod 64"
    by (simp add: take_bit_eq_mod drop_bit_eq_div uint_mod_distrib uint_div_distrib)
  also have "uint c0 div 8 = int l mod 2 ^ 29"
    unfolding c0 using mult_mod_right [of 8 "int l" "2 ^ 29"] by simp
  also have "int l mod 2 ^ 29 mod 64 = int (l mod 64)" by (simp add: mod_mod_cancel zmod_int)
  finally show ?thesis by (metis nat_int unat_eq_nat_uint)
qed

lemma absorbed_init: "length garbage = 64 \<Longrightarrow> absorbed (md5_init garbage) []"
  by (simp add: absorbed_def md5_init_def md5_fold_short md5_registers_def tail_block_def)

lemma count_spec:
  assumes "absorbed pms m" and "n < 2 ^ 31"
  shows "count0 (md5_count pms (of_nat n)) = word_of_int (8 * int (length m + n))"
    and "count1 (md5_count pms (of_nat n)) = word_of_int (8 * int (length m + n) div 2 ^ 32)"
    and "buf (md5_count pms (of_nat n)) = buf pms" and "abcd (md5_count pms (of_nat n)) = abcd pms"
proof -
  have "count0 pms = word_of_int (8 * int (length m))" "count1 pms = word_of_int (8 * int (length m) div 2 ^ 32)"
    using assms by (simp_all only: absorbed_def)
  note c = counts_append [OF this, of n]
  show "count0 (md5_count pms (of_nat n)) = word_of_int (8 * int (length m + n))"
    unfolding c(1) [symmetric] by (simp only: md5_count_def Let_def count_of_length [OF assms(2)]) simp
  show "count1 (md5_count pms (of_nat n)) = word_of_int (8 * int (length m + n) div 2 ^ 32)"
    unfolding c(2) [symmetric] by (simp only: md5_count_def Let_def count_of_length [OF assms(2)]) simp
qed (simp_all add: md5_count_def Let_def)

text \<open>The first block, completed from the buffer, is the first block of what is left of the message.\<close>

lemma absorbed_append:
  assumes "absorbed pms m"
    and n: "length d < 2 ^ 31"
  shows "absorbed (md5_append pms (d @ e) (of_nat (length d))) (m @ d)"
proof (cases "d = []")
  case False
  have left: "nat (sint (of_nat (length d) :: c_int)) = length d" "\<not> sint (of_nat (length d) :: c_int) \<le> 0"
    using False by (simp_all add: sint_of_length [OF n])
  let ?a = "md5_append pms (d @ e) (of_nat (length d))"
  let ?o = "length m mod 64" and ?n = "length d"
  define pms1 where "pms1 = md5_count pms (of_nat ?n)"
  have st: "length (buf pms) = 64" "take ?o (buf pms) = tail_block m" "abcd pms = md5_fold md5_registers m"
    using assms by (simp_all add: absorbed_def)
  have pms1: "length (buf pms1) = 64" "take ?o (buf pms1) = tail_block m" "abcd pms1 = md5_fold md5_registers m"
    "count0 pms1 = word_of_int (8 * int (length (m @ d)))"
    "count1 pms1 = word_of_int (8 * int (length (m @ d)) div 2 ^ 32)"
    using st count_spec [OF assms] by (simp_all add: pms1_def)
  have off: "unat (drop_bit 3 (count0 pms) AND 63) = ?o"
    using assms(1) by (intro offset_is_position) (simp add: absorbed_def)
  have fold: "md5_fold md5_registers (m @ d) = md5_fold (abcd pms1) (tail_block m @ d)"
    using pms1(3) md5_fold_append by simp
  have len: "length (m @ d) mod 64 = (?o + ?n) mod 64" by (simp add: mod_add_left_eq)
  consider "?o = 0" | "?o \<noteq> 0" "?o + ?n < 64" | "?o \<noteq> 0" "64 \<le> ?o + ?n" by linarith
  then show ?thesis
  proof cases
    case 1
    then have "?a = md5_full_blocks pms1 d"
      using left off by (simp add: md5_append_def pms1_def Let_def)
    moreover have "tail_block m = []" using 1 by (metis length_0_conv length_tail_block)
    ultimately show ?thesis
      using full_blocks_spec [OF pms1(1), of d] pms1(4,5) fold 1 len tail_block_append [of m d]
      by (intro absorbedI) simp_all
  next
    case 2
    then have "?a = pms1\<lparr>buf := tail_block m @ d @ drop (?o + ?n) (buf pms1)\<rparr>"
      using left off pms1(2) by (simp add: md5_append_def pms1_def [symmetric] Let_def)
    moreover have "tail_block (m @ d) = tail_block m @ d"
      using 2 tail_block_append [of m d] by (simp add: tail_block_short)
    ultimately show ?thesis
      using pms1 fold 2 len by (intro absorbedI) (simp_all add: md5_fold_short)
  next
    case 3
    let ?c = "64 - ?o"
    have o: "?o < 64" by simp
    let ?s = "pms1\<lparr>buf := tail_block m @ take ?c d, abcd := md5_process (abcd pms1) (tail_block m @ take ?c d)\<rparr>"
    have app: "?a = md5_full_blocks ?s (drop ?c d)"
      using left off 3 pms1(1,2) o by (auto simp: md5_append_def pms1_def [symmetric] Let_def)
    have "length (buf ?s) = 64" using 3 o by simp
    note spec = full_blocks_spec [OF this, of "drop ?c d"]
    have tail: "tail_block (m @ d) = tail_block (drop ?c d)"
      using tail_block_append [of m d] tail_block_drop [of "tail_block m @ d"] 3 by simp
    then have l: "length (drop ?c d) mod 64 = length (m @ d) mod 64" using length_tail_block by metis
    have f: "md5_fold md5_registers (m @ d) =
        md5_fold (md5_process (abcd pms1) (tail_block m @ take ?c d)) (drop ?c d)"
      using fold 3 o by (subst (asm) md5_fold.simps) simp
    show ?thesis
    proof (rule absorbedI)
      show "take (length (m @ d) mod 64) (buf ?a) = tail_block (m @ d)"
        unfolding app tail l [symmetric] using spec by blast
      show "abcd ?a = md5_fold md5_registers (m @ d)"
        unfolding app f using spec by simp
      show "count0 ?a = word_of_int (8 * int (length (m @ d)))"
        unfolding app pms1(4) [symmetric] using spec by simp
      show "count1 ?a = word_of_int (8 * int (length (m @ d)) div 2 ^ 32)"
        unfolding app pms1(5) [symmetric] using spec by simp
      show "length (buf ?a) = 64" unfolding app using spec by blast
    qed
  qed
qed (simp add: md5_append_def assms)

text \<open>For every count that the data covers; one that is not positive is ignored.\<close>

lemma absorbed_count:
  assumes "absorbed pms m" and "nat (sint n) \<le> length data"
  shows "absorbed (md5_append pms data n) (m @ take (nat (sint n)) data)"
proof (cases "sint n \<le> 0")
  case False
  have "sint n < 2 ^ 31" using sint_lt [of n] by simp
  then have "absorbed (md5_append pms (take (nat (sint n)) data @ drop (nat (sint n)) data)
      (of_nat (length (take (nat (sint n)) data)))) (m @ take (nat (sint n)) data)"
    using False assms by (intro absorbed_append) auto
  moreover have "of_nat (length (take (nat (sint n)) data)) = n"
  proof -
    have "of_nat (length (take (nat (sint n)) data)) = (of_nat (nat (sint n)) :: c_int)"
      using assms(2) by (simp add: min_absorb2)
    also have "\<dots> = of_int (int (nat (sint n)))" by simp
    also have "int (nat (sint n)) = sint n" using False by simp
    finally show ?thesis by simp
  qed
  ultimately show ?thesis by simp
qed (use assms(1) in \<open>simp add: md5_append_def\<close>)

lemma narrowed_length: "nat (sint (of_nat (length d) :: c_int)) \<le> length d"
proof -
  have "sint (of_nat (length d) :: c_int) \<le> int (length d)"
    by (simp add: signed_of_nat signed_take_bit_int_less_eq_self_iff)
  then show ?thesis by simp
qed

section \<open>The whole digest\<close>

lemma pad_prefix: "k < 64 \<Longrightarrow> take (k + 1) md5_pad = 0x80 # replicate k 0"
  by (simp add: md5_pad_def)

lemma pad_length:
  assumes "c0 = (word_of_int (8 * int l) :: u32)"
  shows "unat (55 - drop_bit 3 c0 AND 63) = nat ((55 - int l) mod 64)"
proof -
  have c0: "uint c0 = 8 * int l mod 2 ^ 32" unfolding assms uint_word_of_int by simp
  have d: "uint (drop_bit 3 c0) = int l mod 2 ^ 29"
    using mult_mod_right [of 8 "int l" "2 ^ 29"] c0 by (simp add: drop_bit_eq_div uint_div_distrib)
  have "55 - drop_bit 3 c0 AND 63 = take_bit 6 (55 - drop_bit 3 c0)"
    by (simp add: take_bit_eq_mask mask_eq_exp_minus_1)
  then have "uint (55 - drop_bit 3 c0 AND 63) = uint (55 - drop_bit 3 c0) mod 64"
    by (simp add: take_bit_eq_mod uint_mod_distrib)
  also have "uint (55 - drop_bit 3 c0) = (55 - int l mod 2 ^ 29) mod 2 ^ 32"
    by (simp add: uint_word_ariths d)
  also have "(55 - int l mod 2 ^ 29) mod 2 ^ 32 mod 64 = (55 - int l mod 2 ^ 29) mod 64"
    by (simp add: mod_mod_cancel)
  also have "\<dots> = (55 - int l) mod 64"
    using mod_diff_right_eq [of 55 "int l mod 2 ^ 29" 64] mod_diff_right_eq [of 55 "int l" 64]
    by (simp add: mod_mod_cancel)
  finally show ?thesis by (metis unat_eq_nat_uint)
qed

lemma length_le32_bytes [simp]: "length (le32_bytes w) = 4"
  by (simp add: le32_bytes_def)

lemma finish_spec:
  assumes "absorbed pms m"
  shows "md5_finish pms = md5_rfc1321 m"
proof -
  let ?k = "nat ((55 - int (length m)) mod 64)"
  let ?data = "le32_bytes (count0 pms) @ le32_bytes (count1 pms)"
  have c: "count0 pms = word_of_int (8 * int (length m))" "count1 pms = word_of_int (8 * int (length m) div 2 ^ 32)"
    using assms unfolding absorbed_def by blast+
  have "?k < 64" by (simp add: nat_less_iff)
  then have pad: "md5_pad = (0x80 # replicate ?k 0) @ drop (?k + 1) md5_pad"
    by (metis append_take_drop_id pad_prefix)
  have n: "(55 - drop_bit 3 (count0 pms) AND 63) + 1 = (of_nat (length (0x80 # replicate ?k (0 :: byte))) :: c_int)"
    unfolding pad_length [OF c(1), symmetric] by (simp add: add.commute)
  let ?padded = "md5_append pms md5_pad ((55 - drop_bit 3 (count0 pms) AND 63) + 1)"
  have "absorbed ?padded (m @ 0x80 # replicate ?k 0)"
    unfolding n by (subst pad, rule absorbed_append [OF assms]) (use \<open>?k < 64\<close> in simp)
  from absorbed_append [OF this, of ?data "[]"] have "absorbed (md5_append ?padded ?data 8) ((m @ 0x80 # replicate ?k 0) @ ?data)"
    by simp
  also have "(m @ 0x80 # replicate ?k 0) @ ?data = md5_padded m"
    unfolding md5_padded_def c by simp
  finally have "abcd (md5_append ?padded ?data 8) =
      md5_fold md5_registers (md5_padded m)"
    unfolding absorbed_def by blast
  then show ?thesis unfolding md5_finish_def md5_rfc1321_def Let_def by simp
qed

text \<open>A message in pieces, each given with its length.\<close>

abbreviation append_all :: "md5_state \<Rightarrow> byte list list \<Rightarrow> md5_state" where
  "append_all \<equiv> foldl (\<lambda>pms c. md5_append pms c (of_nat (length c)))"

lemma absorbed_chunks:
  "absorbed pms m \<Longrightarrow> \<forall>c\<in>set chunks. length c < 2 ^ 31 \<Longrightarrow> absorbed (append_all pms chunks) (m @ concat chunks)"
proof (induction chunks arbitrary: pms m)
  case (Cons c chunks)
  then show ?case using absorbed_append [OF Cons.prems(1), of c "[]"] by fastforce
qed simp

lemma length_md5_rfc1321: "length (md5_rfc1321 m) = 16"
  by (simp add: md5_rfc1321_def split: prod.splits)

lemma digest_length: "length (calculate_digest pf garbage challenge cookie) = 16"
  by (simp add: calculate_digest_def md5_finish_def Let_def split: prod.splits)

section \<open>Properties\<close>

text \<open>C11. The streaming interface computes MD5 as RFC 1321 defines it: however a message is divided
  over calls of \<open>md5_append\<close>, each piece short enough that an \<open>int\<close> counts its bits (from \<open>2 ^ 28\<close> bytes on the
  code shifts its \<open>int\<close> out of range), and whatever the uninitialised buffer held, the digest is that of the
  padded message, cut into blocks. The whole message may be of any length.\<close>

theorem md5_streaming:
  assumes "length garbage = 64" and "\<forall>c\<in>set chunks. length c < 2 ^ 28"
  shows "md5_finish (foldl (\<lambda>pms c. md5_append pms c (of_nat (length c))) (md5_init garbage) chunks) = md5_rfc1321 (concat chunks)"
  using finish_spec [OF absorbed_chunks [OF absorbed_init [OF assms(1)]]] assms(2) by force

theorem md5_streaming_witness:
  "md5_finish (foldl (\<lambda>pms c. md5_append pms c (of_nat (length c))) (md5_init (replicate 64 255)) [[97], [], [98, 99]]) =
     md5_rfc1321 (concat [[97], [], [98, 99]])"
  by (rule md5_streaming) simp_all

text \<open>The digest of \<open>abc\<close> is the one in the test suite of RFC 1321: the tables, the rotations
  and the round functions are those of the standard.\<close>

theorem md5_test_suite:
  "md5_finish (md5_append (md5_init (replicate 64 0)) (bytes_of ''abc'') 3) =
     [0x90, 0x01, 0x50, 0x98, 0x3c, 0xd2, 0x4f, 0xb0, 0xd6, 0x96, 0x3f, 0x7d, 0x28, 0xe1, 0x7f, 0x72]"
  by code_simp

text \<open>The digest of a challenge is the MD5 of the cookie followed by the decimal digits of the
  challenge, sixteen bytes, for every challenge and every cookie of a length that an \<open>int\<close> can count
  in bits.\<close>

theorem challenge_digest:
  assumes "length garbage = 64" and "length (cookie @ lexical_cast pf (uint challenge)) < 2 ^ 28"
  shows "calculate_digest pf garbage challenge cookie = md5_rfc1321 (bytes_of (cookie @ lexical_cast pf (uint challenge))) \<and>
    length (calculate_digest pf garbage challenge cookie) = 16"
proof
  let ?cs = "cookie @ lexical_cast pf (uint challenge)"
  have "length (bytes_of ?cs) < 2 ^ 31" using assms(2) by simp
  from absorbed_append [OF absorbed_init [OF assms(1)] this, of "[]"] show "calculate_digest pf garbage challenge cookie = md5_rfc1321 (bytes_of (cookie @ lexical_cast pf (uint challenge)))"
    using finish_spec by (simp add: calculate_digest_def Let_def)
qed (rule digest_length)

theorem challenge_digest_witness:
  "calculate_digest documented_platform (replicate 64 0) 1234 ''monster'' =
     md5_rfc1321 (bytes_of (''monster'' @ lexical_cast documented_platform (uint (1234 :: u32)))) \<and>
    length (calculate_digest documented_platform (replicate 64 0) 1234 ''monster'') = 16"
  by (rule challenge_digest) (simp_all add: documented_platform_def decimal.simps)

end
