(* ===== verification/Connection.thy ===== *)
theory Connection
  imports Handshake_Grammar Md5
begin

text \<open>
  A connection to another node: the state objects of \<open>impl/node_connection_state.cpp\<close>, the
  connection itself (\<open>impl/node_connection.cpp\<close>), the asynchronous reads and writes of
  \<open>impl/node_async_tcp_ip.cpp\<close> and the binding of callbacks of \<open>impl/networker.h\<close>. A handler runs to
  its end in the I/O thread, so a handler is a function on the connection, which also says
  which exception it left with; a completed read or write is an event. The callbacks that
  the code binds are values of a datatype. What the connection asks of the rest of the
  program is recorded in it: the messages given to \<open>async_write\<close>, the results signalled to the
  connector and the calls on the node.
\<close>

section \<open>State\<close>

datatype connection_state =
    Connected_tcp | Waiting_for_status | Receiving_challenge | Sending_challenge_reply
  | Receiving_challenge_ack | Sending_status | Waiting_for_challenge_reply
  | Sending_challenge_ack | Connected

datatype read_callback =
    Name_read | Status_read | Challenge_read | Challenge_ack_read | Reply_received | Msg_received

datatype write_callback =
    Handshake_sent | Reply_sent | Challenge_written | Challenge_ack_written | Ignore_write_notification

datatype lexer_id = Handshake_msgs | Connected_msgs

record node_connection =
  peer_name :: "string option"
  conn_name :: string
  conn_state :: connection_state
  handshake_msgs :: msg_lexer
  connected_msgs :: msg_lexer
  current_lexer :: lexer_id
  own_challenge :: u32
  pending_reads :: "(read_callback \<times> lexer_id) list"
  write_queue :: "(msg_seq \<times> write_callback) list"
  write_in_flight :: bool
  started_writes :: "msg_seq list"
  signals :: "bool list"
  node_calls :: "access_call list"

text \<open>What a connection uses of its node and of the platform.\<close>

record conn_env =
  env_platform :: platform
  env_garbage :: "byte list"
  env_cookie :: string

text \<open>A handler: the connection afterwards, and the exception it threw, if any.\<close>

type_synonym handled = "node_connection \<times> cpp_error option"

definition digest_of :: "conn_env \<Rightarrow> u32 \<Rightarrow> msg_seq" where
  "digest_of env challenge = calculate_digest (env_platform env) (env_garbage env) challenge (env_cookie env)"

section \<open>Asynchronous reads and writes\<close>

definition trigger_read_on :: "read_callback \<Rightarrow> lexer_id \<Rightarrow> node_connection \<Rightarrow> node_connection" where
  "trigger_read_on callback received_msgs c =
     c\<lparr>pending_reads := pending_reads c @ [(callback, received_msgs)]\<rparr>"

definition trigger_checked_read :: "read_callback \<Rightarrow> node_connection \<Rightarrow> node_connection" where
  "trigger_checked_read callback c = trigger_read_on callback (current_lexer c) c"

text \<open>
  The front of the queue is the message that is being written; after a failed write it stays
  there, and no write is in flight.
\<close>

definition async_write_front :: "node_connection \<Rightarrow> node_connection" where
  "async_write_front c =
     (case write_queue c of [] \<Rightarrow> c | (msg, _) # _ \<Rightarrow> c\<lparr>write_in_flight := True, started_writes := started_writes c @ [msg]\<rparr>)"

definition trigger_checked_write :: "msg_seq \<Rightarrow> write_callback \<Rightarrow> node_connection \<Rightarrow> node_connection" where
  "trigger_checked_write msg callback c =
     (let write_in_progress = (write_queue c \<noteq> []);
          c = c\<lparr>write_queue := write_queue c @ [(msg, callback)]\<rparr>
      in if \<not> write_in_progress then async_write_front c else c)"

section \<open>The connection\<close>

definition peer_node_name :: "node_connection \<Rightarrow> string result" where
  "peer_node_name c =
     (case peer_name c of
        None \<Rightarrow> Inl (Tinch_pp_exception (''Unknown peer node for '' @ conn_name c))
      | Some n \<Rightarrow> Inr n)"

definition got_peer_name :: "string \<Rightarrow> node_connection \<Rightarrow> node_connection" where
  "got_peer_name name c = c\<lparr>peer_name := Some name\<rparr>"

definition handshake_complete :: "node_connection \<Rightarrow> node_connection" where
  "handshake_complete c = c\<lparr>current_lexer := Connected_msgs, signals := signals c @ [True]\<rparr>"

definition report_failure :: "node_connection \<Rightarrow> node_connection" where
  "report_failure c = c\<lparr>conn_state := Connected_tcp, signals := signals c @ [False]\<rparr>"

text \<open>The reaction to an I/O error depends on the state.\<close>

definition handle_io_error :: "string \<Rightarrow> node_connection \<Rightarrow> handled" where
  "handle_io_error err c =
     (if conn_state c = Connected
      then (c, Some (case peer_node_name c of Inl e \<Rightarrow> e | Inr n \<Rightarrow> Connection_io_error err n))
      else (report_failure c, None))"

section \<open>States: sending\<close>

text \<open>\<open>change_state_to\<close> constructs the state, whose constructor may start a read or writes.\<close>

definition make_transition_to_connected :: "node_connection \<Rightarrow> node_connection" where
  "make_transition_to_connected c =
     trigger_checked_read Msg_received (handshake_complete (c\<lparr>conn_state := Connected\<rparr>))"

definition to_receiving_challenge_ack :: "node_connection \<Rightarrow> node_connection" where
  "to_receiving_challenge_ack c =
     (trigger_checked_read Challenge_ack_read c)\<lparr>conn_state := Receiving_challenge_ack\<rparr>"

definition to_waiting_for_challenge_reply :: "node_connection \<Rightarrow> node_connection" where
  "to_waiting_for_challenge_reply c =
     (trigger_checked_read Reply_received c)\<lparr>conn_state := Waiting_for_challenge_reply\<rparr>"

definition to_waiting_for_status :: "node_connection \<Rightarrow> node_connection" where
  "to_waiting_for_status c = (trigger_checked_read Status_read c)\<lparr>conn_state := Waiting_for_status\<rparr>"

definition write_generated :: "msg_seq result \<Rightarrow> write_callback \<Rightarrow> node_connection \<Rightarrow> handled" where
  "write_generated generated callback c =
     (case generated of Inl e \<Rightarrow> (c, Some e) | Inr msg \<Rightarrow> (trigger_checked_write msg callback c, None))"

definition send_status :: "conn_env \<Rightarrow> node_connection \<Rightarrow> handled" where
  "send_status env c =
     write_generated (generate (receive_status_g (env_platform env)) ''ok'') Ignore_write_notification c"

definition send_challenge :: "conn_env \<Rightarrow> node_connection \<Rightarrow> handled" where
  "send_challenge env c =
     write_generated (generate (send_challenge_g (env_platform env))
       \<lparr>att_challenge = own_challenge c, att_node_name = conn_name c\<rparr>) Challenge_written c"

text \<open>An exception of the constructor leaves the old state in place.\<close>

definition to_sending_status :: "conn_env \<Rightarrow> node_connection \<Rightarrow> handled" where
  "to_sending_status env c =
     (case send_status env c of
        (c, Some e) \<Rightarrow> (c, Some e)
      | (c, None) \<Rightarrow>
          (case send_challenge env c of
             (c, Some e) \<Rightarrow> (c, Some e)
           | (c, None) \<Rightarrow> (c\<lparr>conn_state := Sending_status\<rparr>, None)))"

definition send_ack :: "conn_env \<Rightarrow> u32 \<Rightarrow> node_connection \<Rightarrow> handled" where
  "send_ack env challenge c =
     write_generated (generate (send_challenge_ack_g (env_platform env)) (digest_of env challenge))
       Challenge_ack_written c"

definition send_reply :: "conn_env \<Rightarrow> u32 \<Rightarrow> node_connection \<Rightarrow> handled" where
  "send_reply env challenge_from_B c =
     write_generated (generate (challenge_reply (env_platform env))
       \<lparr>reply_challenge = own_challenge c, reply_digest = digest_of env challenge_from_B\<rparr>) Reply_sent c"

definition initiate_handshake :: "conn_env \<Rightarrow> node_connection \<Rightarrow> handled" where
  "initiate_handshake env c =
     write_generated (generate (send_name (env_platform env)) (conn_name c)) Handshake_sent c"

fun write_done_callback :: "write_callback \<Rightarrow> node_connection \<Rightarrow> node_connection" where
  "write_done_callback Handshake_sent c = to_waiting_for_status c"
| "write_done_callback Reply_sent c = to_receiving_challenge_ack c"
| "write_done_callback Challenge_written c = to_waiting_for_challenge_reply c"
| "write_done_callback Challenge_ack_written c = make_transition_to_connected c"
| "write_done_callback Ignore_write_notification c = c"

section \<open>States: receiving\<close>

definition pop_message :: "lexer_id \<Rightarrow> node_connection \<Rightarrow> msg_seq option \<times> node_connection" where
  "pop_message l c =
     (case l of
        Handshake_msgs \<Rightarrow> (let (m, q) = next_message (handshake_msgs c) in (m, c\<lparr>handshake_msgs := q\<rparr>))
      | Connected_msgs \<Rightarrow> (let (m, q) = next_message (connected_msgs c) in (m, c\<lparr>connected_msgs := q\<rparr>)))"

text \<open>\<open>*read_msgs.next_message()\<close>: the message, dereferenced without a test, and parsed.\<close>

definition parse_next :: "lexer_id \<Rightarrow> 'a parser \<Rightarrow> ('a \<Rightarrow> node_connection \<Rightarrow> handled) \<Rightarrow> node_connection \<Rightarrow> handled" where
  "parse_next l p k c =
     (case pop_message l c of
        (None, c) \<Rightarrow> (c, Some Undefined_behaviour)
      | (Some msg, c) \<Rightarrow> (case parse msg p of Inl e \<Rightarrow> (c, Some e) | Inr attr \<Rightarrow> k attr c))"

definition supported :: "sent_name_type \<Rightarrow> bool" where
  "supported received \<longleftrightarrow>
     uint supported_version \<ge> version0 received \<and> uint supported_version \<le> version1 received"

definition name_read :: "conn_env \<Rightarrow> lexer_id \<Rightarrow> node_connection \<Rightarrow> handled" where
  "name_read env l = parse_next l (send_name_p (env_platform env)) (\<lambda>received c.
     if supported received then to_sending_status env (got_peer_name (sent_name received) c)
     else (report_failure c, None))"

definition challenge_read :: "conn_env \<Rightarrow> lexer_id \<Rightarrow> node_connection \<Rightarrow> handled" where
  "challenge_read env l = parse_next l (recv_challenge (env_platform env)) (\<lambda>attributes c.
     send_reply env (att_challenge attributes) (c\<lparr>conn_state := Sending_challenge_reply\<rparr>))"

definition has_complete :: "lexer_id \<Rightarrow> node_connection \<Rightarrow> bool" where
  "has_complete l c = has_complete_msg (case l of Handshake_msgs \<Rightarrow> handshake_msgs c | Connected_msgs \<Rightarrow> connected_msgs c)"

definition receive_challenge :: "conn_env \<Rightarrow> lexer_id \<Rightarrow> node_connection \<Rightarrow> handled" where
  "receive_challenge env l c =
     (if has_complete l c then challenge_read env l c else (trigger_checked_read Challenge_read c, None))"

definition status_read :: "conn_env \<Rightarrow> lexer_id \<Rightarrow> node_connection \<Rightarrow> handled" where
  "status_read env l = parse_next l (receive_status (env_platform env)) (\<lambda>status c.
     if status = ''ok'' \<or> status = ''ok_simultaneous''
     then receive_challenge env l (c\<lparr>conn_state := Receiving_challenge\<rparr>)
     else (report_failure c, None))"

definition reply_received :: "conn_env \<Rightarrow> lexer_id \<Rightarrow> node_connection \<Rightarrow> handled" where
  "reply_received env l = parse_next l (challenge_reply_p (env_platform env)) (\<lambda>reply c.
     if digest_of env (own_challenge c) = reply_digest reply
     then send_ack env (reply_challenge reply) (c\<lparr>conn_state := Sending_challenge_ack\<rparr>)
     else (report_failure c, None))"

definition challenge_ack_read :: "conn_env \<Rightarrow> lexer_id \<Rightarrow> node_connection \<Rightarrow> handled" where
  "challenge_ack_read env l = parse_next l (recv_challenge_ack_p (env_platform env)) (\<lambda>digest c.
     if digest_of env (own_challenge c) \<noteq> digest
     then (c, Some (Tinch_pp_exception ''Handshake failure with remote node - check your cookies!''))
     else (make_transition_to_connected c, None))"

text \<open>The connected state: ticks are answered, everything else is dispatched; one message per call.\<close>

definition is_tick :: "msg_seq \<Rightarrow> bool" where
  "is_tick msg \<longleftrightarrow> msg = replicate 4 0"

definition send_tock :: "node_connection \<Rightarrow> node_connection" where
  "send_tock = trigger_checked_write (replicate 4 0) Ignore_write_notification"

fun is_tinch_pp_exception :: "cpp_error \<Rightarrow> bool" where
  "is_tinch_pp_exception Undefined_behaviour = False"
| "is_tinch_pp_exception Assert_failed = False"
| "is_tinch_pp_exception Out_of_fuel = False"
| "is_tinch_pp_exception _ = True"

text \<open>
  Whether the call on the node throws does not matter here: both ways the next read is
  triggered.
\<close>

definition msg_received :: "conn_env \<Rightarrow> lexer_id \<Rightarrow> node_connection \<Rightarrow> handled" where
  "msg_received env l c =
     (case pop_message l c of
        (None, c) \<Rightarrow> (c, Some Undefined_behaviour)
      | (Some msg, c) \<Rightarrow>
          if is_tick msg then (trigger_checked_read Msg_received (send_tock c), None)
          else
            (case dispatch (env_platform env) msg of
               Inr call \<Rightarrow> (trigger_checked_read Msg_received (c\<lparr>node_calls := node_calls c @ [call]\<rparr>), None)
             | Inl e \<Rightarrow>
                 if is_tinch_pp_exception e then (trigger_checked_read Msg_received c, None)
                 else (c, Some e)))"

fun read_done_callback :: "conn_env \<Rightarrow> read_callback \<Rightarrow> lexer_id \<Rightarrow> node_connection \<Rightarrow> handled" where
  "read_done_callback env Name_read l c = name_read env l c"
| "read_done_callback env Status_read l c = status_read env l c"
| "read_done_callback env Challenge_read l c = challenge_read env l c"
| "read_done_callback env Challenge_ack_read l c = challenge_ack_read env l c"
| "read_done_callback env Reply_received l c = reply_received env l c"
| "read_done_callback env Msg_received l c = msg_received env l c"

section \<open>Events\<close>

definition lexer_add :: "conn_env \<Rightarrow> lexer_id \<Rightarrow> msg_seq \<Rightarrow> node_connection \<Rightarrow> (bool \<times> node_connection) result option" where
  "lexer_add env l data c =
     (case l of
        Handshake_msgs \<Rightarrow> map_option (\<lambda>r. and_then r (\<lambda>(b, q). Inr (b, c\<lparr>handshake_msgs := q\<rparr>)))
          (add (read_msg_size_handshake (env_platform env)) (handshake_msgs c) data)
      | Connected_msgs \<Rightarrow> map_option (\<lambda>r. and_then r (\<lambda>(b, q). Inr (b, c\<lparr>connected_msgs := q\<rparr>)))
          (add (read_msg_size_connected (env_platform env)) (connected_msgs c) data))"

text \<open>The completion of a read; \<open>None\<close> when the lexer does not return.\<close>

definition checked_read :: "conn_env \<Rightarrow> read_callback \<Rightarrow> lexer_id \<Rightarrow> string + msg_seq \<Rightarrow> node_connection \<Rightarrow> handled option" where
  "checked_read env callback l res c =
     (case res of
        Inl err \<Rightarrow> Some (handle_io_error err c)
      | Inr data \<Rightarrow>
          (case lexer_add env l data c of
             None \<Rightarrow> None
           | Some (Inl e) \<Rightarrow> Some (c, Some e)
           | Some (Inr (complete, c)) \<Rightarrow>
               if complete then Some (read_done_callback env callback l c)
               else Some (trigger_read_on callback l c, None)))"

definition checked_write :: "string option \<Rightarrow> node_connection \<Rightarrow> handled" where
  "checked_write err c =
     (let c = c\<lparr>write_in_flight := False\<rparr> in
      case write_queue c of
        [] \<Rightarrow> (c, Some Assert_failed)
      | (_, callback) # queue \<Rightarrow>
          (case err of
             Some e \<Rightarrow> handle_io_error e c
           | None \<Rightarrow> (write_done_callback callback (async_write_front (c\<lparr>write_queue := queue\<rparr>)), None)))"

text \<open>\<open>request\<close>: an operation of a state that is not \<open>connected\<close> does nothing.\<close>

definition request :: "conn_env \<Rightarrow> control_msg \<Rightarrow> node_connection \<Rightarrow> node_connection" where
  "request env distributed_operation c =
     (if conn_state c = Connected
      then trigger_checked_write (execute_connected (env_platform env) distributed_operation)
             Ignore_write_notification c
      else c)"

definition create_connection :: "string option \<Rightarrow> string \<Rightarrow> node_connection" where
  "create_connection peer name =
     \<lparr>peer_name = peer, conn_name = name, conn_state = Connected_tcp, handshake_msgs = new_lexer,
      connected_msgs = new_lexer, current_lexer = Handshake_msgs, own_challenge = 0,
      pending_reads = [], write_queue = [], write_in_flight = False,
      started_writes = [], signals = [], node_calls = []\<rparr>"

definition start_handshake_as_A :: "conn_env \<Rightarrow> u32 \<Rightarrow> node_connection \<Rightarrow> handled" where
  "start_handshake_as_A env challenge c =
     (let c = c\<lparr>own_challenge := challenge\<rparr>
      in if conn_state c = Connected_tcp then initiate_handshake env c else (c, None))"

definition start_handshake_as_B :: "u32 \<Rightarrow> node_connection \<Rightarrow> node_connection" where
  "start_handshake_as_B challenge c =
     (let c = c\<lparr>own_challenge := challenge\<rparr>
      in if conn_state c = Connected_tcp then trigger_checked_read Name_read c else c)"

section \<open>Runs\<close>

datatype conn_event =
    Read_done msg_seq | Read_failed string | Write_done | Write_failed string | Request control_msg

text \<open>An event completes an operation that is under way; the bytes of a read are at most its buffer.\<close>

inductive conn_step :: "conn_env \<Rightarrow> node_connection \<Rightarrow> conn_event \<Rightarrow> node_connection \<Rightarrow> bool" for env where
  read_done: "\<lbrakk>pending_reads c = (cb, l) # rest; length data \<le> 128;
     checked_read env cb l (Inr data) (c\<lparr>pending_reads := rest\<rparr>) = Some (c', e)\<rbrakk>
   \<Longrightarrow> conn_step env c (Read_done data) c'"
| read_failed: "\<lbrakk>pending_reads c = (cb, l) # rest;
     checked_read env cb l (Inl err) (c\<lparr>pending_reads := rest\<rparr>) = Some (c', e)\<rbrakk>
   \<Longrightarrow> conn_step env c (Read_failed err) c'"
| write_done: "\<lbrakk>write_in_flight c; checked_write None c = (c', e)\<rbrakk> \<Longrightarrow> conn_step env c Write_done c'"
| write_failed: "\<lbrakk>write_in_flight c; checked_write (Some err) c = (c', e)\<rbrakk> \<Longrightarrow> conn_step env c (Write_failed err) c'"
| requested: "conn_step env c (Request msg) (request env msg c)"

inductive conn_run :: "conn_env \<Rightarrow> node_connection \<Rightarrow> conn_event list \<Rightarrow> node_connection \<Rightarrow> bool" for env where
  start: "conn_run env c [] c"
| snoc: "\<lbrakk>conn_run env c es c'; conn_step env c' e c''\<rbrakk> \<Longrightarrow> conn_run env c (es @ [e]) c''"

fun bytes_read :: "conn_event \<Rightarrow> msg_seq" where
  "bytes_read (Read_done data) = data" | "bytes_read _ = []"

text \<open>The connections from which a handshake starts, in either role.\<close>

definition handshake_start :: "conn_env \<Rightarrow> u32 \<Rightarrow> node_connection \<Rightarrow> bool" where
  "handshake_start env challenge c \<longleftrightarrow>
     (\<exists>peer name. c = fst (start_handshake_as_A env challenge (create_connection (Some peer) name))) \<or>
     (\<exists>name. c = start_handshake_as_B challenge (create_connection None name))"

section \<open>One operation at a time\<close>

lemmas trigger_defs =
  trigger_read_on_def trigger_checked_read_def async_write_front_def trigger_checked_write_def Let_def

lemmas state_defs =
  handshake_complete_def report_failure_def make_transition_to_connected_def to_receiving_challenge_ack_def
  to_waiting_for_challenge_reply_def to_waiting_for_status_def got_peer_name_def handle_io_error_def

lemma trigger_write_fields [simp]:
  "pending_reads (trigger_checked_write m cb c) = pending_reads c"
  "conn_state (trigger_checked_write m cb c) = conn_state c"
  "current_lexer (trigger_checked_write m cb c) = current_lexer c"
  "own_challenge (trigger_checked_write m cb c) = own_challenge c"
  "handshake_msgs (trigger_checked_write m cb c) = handshake_msgs c"
  "connected_msgs (trigger_checked_write m cb c) = connected_msgs c"
  "signals (trigger_checked_write m cb c) = signals c"
  "node_calls (trigger_checked_write m cb c) = node_calls c"
  "conn_name (trigger_checked_write m cb c) = conn_name c"
  "write_queue (trigger_checked_write m cb c) = write_queue c @ [(m, cb)]"
  by (auto simp: trigger_defs split: list.splits)

lemma async_write_front_fields [simp]:
  "pending_reads (async_write_front c) = pending_reads c"
  "conn_state (async_write_front c) = conn_state c"
  "current_lexer (async_write_front c) = current_lexer c"
  "own_challenge (async_write_front c) = own_challenge c"
  "handshake_msgs (async_write_front c) = handshake_msgs c"
  "connected_msgs (async_write_front c) = connected_msgs c"
  "signals (async_write_front c) = signals c"
  "node_calls (async_write_front c) = node_calls c"
  "conn_name (async_write_front c) = conn_name c"
  "write_queue (async_write_front c) = write_queue c"
  by (auto simp: async_write_front_def split: list.splits)

text \<open>
  During the handshake at most \<open>k\<close> operations are under way that something waits for: reads,
  and writes with a callback. Afterwards there is one read.
\<close>

definition shaking :: "nat \<Rightarrow> node_connection \<Rightarrow> bool" where
  "shaking k c \<longleftrightarrow>
     current_lexer c = Handshake_msgs \<and> conn_state c \<noteq> Connected \<and>
     (\<forall>r\<in>set (pending_reads c). snd r = Handshake_msgs \<and> fst r \<noteq> Msg_received) \<and>
     length (pending_reads c) + length (filter (\<lambda>w. snd w \<noteq> Ignore_write_notification) (write_queue c)) \<le> k"

definition talking :: "nat \<Rightarrow> node_connection \<Rightarrow> bool" where
  "talking k c \<longleftrightarrow>
     current_lexer c = Connected_msgs \<and> conn_state c = Connected \<and>
     (\<forall>r\<in>set (pending_reads c). r = (Msg_received, Connected_msgs)) \<and> length (pending_reads c) \<le> k \<and>
     (\<forall>w\<in>set (write_queue c). snd w = Ignore_write_notification)"

definition one_at_a_time :: "node_connection \<Rightarrow> bool" where
  "one_at_a_time c \<longleftrightarrow> shaking 1 c \<or> talking 1 c"

lemma shaking_mono: "shaking 0 c \<Longrightarrow> shaking 1 c"
  by (simp add: shaking_def)

lemma shaking_one: "shaking 1 c \<Longrightarrow> one_at_a_time c"
  by (simp add: one_at_a_time_def)

lemma talking_one: "talking k c \<Longrightarrow> k \<le> 1 \<Longrightarrow> one_at_a_time c"
  by (auto simp: one_at_a_time_def talking_def)

lemma all_ignored:
  "shaking 0 c \<Longrightarrow> w \<in> set (write_queue c) \<Longrightarrow> snd w = Ignore_write_notification"
  by (auto simp: shaking_def filter_empty_conv)

lemma shaking_transition: "shaking 0 c \<Longrightarrow> one_at_a_time (make_transition_to_connected c)"
  by (auto simp: shaking_def talking_def one_at_a_time_def state_defs trigger_defs filter_empty_conv)

lemma shaking_write: "shaking 0 c \<Longrightarrow> shaking 1 (trigger_checked_write m cb c)"
  by (auto simp: shaking_def)

lemma shaking_write_generated: "shaking 0 c \<Longrightarrow> shaking 1 (fst (write_generated g cb c))"
  by (auto simp: write_generated_def shaking_write shaking_mono simp del: One_nat_def split: sum.split)

lemma shaking_read: "shaking 0 c \<Longrightarrow> cb \<noteq> Msg_received \<Longrightarrow> shaking 1 (trigger_checked_read cb c)"
  by (auto simp: shaking_def trigger_defs)

lemma shaking_state: "shaking k c \<Longrightarrow> st \<noteq> Connected \<Longrightarrow> shaking k (c\<lparr>conn_state := st\<rparr>)"
  by (simp add: shaking_def)

lemma shaking_failure: "shaking k c \<Longrightarrow> shaking k (report_failure c)"
  by (simp add: shaking_def report_failure_def)

lemma shaking_pop: "shaking k c \<Longrightarrow> shaking k (snd (pop_message l c))"
  by (auto simp: shaking_def pop_message_def split: lexer_id.split prod.split)

lemma shaking_parse_next:
  assumes "shaking 0 c" and "\<And>attr c. shaking 0 c \<Longrightarrow> one_at_a_time (fst (k attr c))"
  shows "one_at_a_time (fst (parse_next l p k c))"
proof -
  obtain m c' where pop: "pop_message l c = (m, c')" by (cases "pop_message l c")
  then have "shaking 0 c'" using shaking_pop [OF assms(1), of l] by simp
  then show ?thesis using assms(2) shaking_mono
    by (auto simp: parse_next_def pop one_at_a_time_def split: option.split sum.split)
qed

lemma to_sending_status_shaking: "shaking 0 c \<Longrightarrow> shaking 1 (fst (to_sending_status env c))"
  by (auto simp: to_sending_status_def send_status_def send_challenge_def write_generated_def
      generate_def receive_status_g_def send_challenge_g_def shaking_def)

lemma challenge_read_shaking: "shaking 0 c \<Longrightarrow> one_at_a_time (fst (challenge_read env l c))"
  unfolding challenge_read_def send_reply_def
  by (erule shaking_parse_next) (auto intro!: shaking_one shaking_write_generated shaking_state simp del: One_nat_def)

lemma handlers_shaking:
  assumes "shaking 0 c"
  shows "one_at_a_time (fst (name_read env l c))" and "one_at_a_time (fst (status_read env l c))"
    and "one_at_a_time (fst (reply_received env l c))" and "one_at_a_time (fst (challenge_ack_read env l c))"
proof -
  have got: "shaking 0 (got_peer_name n c)" if "shaking 0 c" for n c
    using that by (simp add: shaking_def got_peer_name_def)
  have fail: "shaking 1 (report_failure c)" if "shaking 0 c" for c
    using shaking_failure shaking_mono that by blast
  show "one_at_a_time (fst (name_read env l c))"
    unfolding name_read_def using assms
    by (rule shaking_parse_next) (auto intro!: fail shaking_one to_sending_status_shaking got simp del: One_nat_def)
  show "one_at_a_time (fst (status_read env l c))"
    unfolding status_read_def using assms
  proof (rule shaking_parse_next)
    fix attr c assume "shaking 0 c"
    then show "one_at_a_time (fst (if attr = ''ok'' \<or> attr = ''ok_simultaneous''
        then receive_challenge env l (c\<lparr>conn_state := Receiving_challenge\<rparr>) else (report_failure c, None)))"
      using challenge_read_shaking [of "c\<lparr>conn_state := Receiving_challenge\<rparr>" env l]
        shaking_read [of "c\<lparr>conn_state := Receiving_challenge\<rparr>" Challenge_read]
      by (auto simp: receive_challenge_def shaking_state intro!: fail shaking_one simp del: One_nat_def)
  qed
  show "one_at_a_time (fst (reply_received env l c))"
    unfolding reply_received_def send_ack_def using assms
    by (rule shaking_parse_next)
      (auto intro!: fail shaking_one shaking_write_generated shaking_state simp del: One_nat_def)
  show "one_at_a_time (fst (challenge_ack_read env l c))"
    unfolding challenge_ack_read_def using assms
    by (rule shaking_parse_next)
      (auto intro: shaking_transition dest: shaking_mono [THEN shaking_one])
qed

lemma read_callback_shaking:
  assumes "shaking 0 c" and "cb \<noteq> Msg_received"
  shows "one_at_a_time (fst (read_done_callback env cb l c))"
  using assms handlers_shaking challenge_read_shaking by (cases cb) simp_all

lemma talking_read: "talking 0 c \<Longrightarrow> one_at_a_time (trigger_checked_read Msg_received c)"
  by (rule talking_one [of 1]) (simp_all add: talking_def trigger_defs)

lemma msg_received_talking:
  assumes "talking 0 c"
  shows "one_at_a_time (fst (msg_received env Connected_msgs c))"
proof -
  obtain m c' where pop: "pop_message Connected_msgs c = (m, c')" by (cases "pop_message Connected_msgs c")
  then have t: "talking 0 c'" using assms by (auto simp: pop_message_def talking_def split: prod.splits)
  then have "talking 0 (send_tock c')" "talking 0 (c'\<lparr>node_calls := calls\<rparr>)" for calls
    by (simp_all add: talking_def send_tock_def)
  then show ?thesis
    using t by (auto simp: msg_received_def pop intro!: talking_read talking_one [of 0]
        split: option.split sum.split)
qed

lemma lexer_add_form:
  assumes "lexer_add env l data c = Some (Inr (b, c'))"
  obtains q where "c' = c\<lparr>handshake_msgs := q\<rparr>" | q where "c' = c\<lparr>connected_msgs := q\<rparr>"
  using assms by (cases l) (auto simp: lexer_add_def and_then_Inr_iff)

lemma lexer_add_fields:
  assumes "lexer_add env l data c = Some (Inr (b, c'))"
  shows "shaking k c' = shaking k c" and "talking k c' = talking k c"
  using assms by (auto elim!: lexer_add_form simp: shaking_def talking_def)

lemma checked_read_keeps:
  assumes "checked_read env cb l res c = Some (c', e)"
    and "shaking 0 c \<and> cb \<noteq> Msg_received \<and> l = Handshake_msgs \<or> talking 0 c \<and> cb = Msg_received \<and> l = Connected_msgs"
  shows "one_at_a_time c'"
proof -
  have keep: "one_at_a_time c" using assms(2) shaking_mono shaking_one talking_one by auto
  consider err where "res = Inl err" | data b c1 where "res = Inr data" "lexer_add env l data c = Some (Inr (b, c1))"
    | "c' = c"
    using assms(1) by (cases res) (auto simp: checked_read_def split: option.splits sum.splits)
  then show ?thesis
  proof cases
    case (1 err)
    then have "c' = c \<or> c' = report_failure c \<and> conn_state c \<noteq> Connected"
      using assms(1) by (auto simp: checked_read_def handle_io_error_def split: if_splits)
    then show ?thesis
      using keep assms(2) shaking_failure shaking_mono shaking_one by (auto simp: talking_def)
  next
    case (2 data b c1)
    from assms(2) show ?thesis
    proof
      assume *: "shaking 0 c \<and> cb \<noteq> Msg_received \<and> l = Handshake_msgs"
      then have c1: "shaking 0 c1" using lexer_add_fields [OF 2(2)] by simp
      then have "shaking 1 (trigger_read_on cb l c1)" using * by (simp add: shaking_def trigger_read_on_def)
      then show ?thesis
        using assms(1) 2 read_callback_shaking [OF c1, of cb env l] * shaking_one
        by (cases b) (auto simp: checked_read_def)
    next
      assume *: "talking 0 c \<and> cb = Msg_received \<and> l = Connected_msgs"
      then have c1: "talking 0 c1" using lexer_add_fields [OF 2(2)] by simp
      then have "talking 1 (trigger_read_on cb l c1)" using * by (simp add: talking_def trigger_read_on_def)
      then show ?thesis
        using assms(1) 2 msg_received_talking [OF c1, of env] * talking_one [of 1]
        by (cases b) (auto simp: checked_read_def)
    qed
  qed (use keep in simp)
qed

lemma checked_write_keeps:
  assumes "one_at_a_time c"
  shows "one_at_a_time (fst (checked_write err c))"
proof (cases "write_queue c")
  case Nil
  then show ?thesis using assms by (simp add: checked_write_def Let_def one_at_a_time_def shaking_def talking_def)
next
  case (Cons w queue)
  obtain m cb where w: "w = (m, cb)" by (cases w)
  show ?thesis
  proof (cases err)
    case (Some e)
    then show ?thesis using assms Cons w
      by (auto simp: checked_write_def Let_def one_at_a_time_def shaking_def talking_def handle_io_error_def report_failure_def)
  next
    case None
    let ?c = "async_write_front (c\<lparr>write_in_flight := False, write_queue := queue\<rparr>)"
    have "one_at_a_time (write_done_callback cb ?c)"
    proof (cases "cb = Ignore_write_notification")
      case True
      then show ?thesis using assms Cons w by (auto simp: one_at_a_time_def shaking_def talking_def)
    next
      case False
      then have "shaking 0 ?c" using assms Cons w by (auto simp: one_at_a_time_def shaking_def talking_def)
      then show ?thesis
        using False shaking_transition [of ?c] shaking_read [of ?c]
        by (cases cb) (simp_all add: one_at_a_time_def state_defs shaking_state del: One_nat_def)
    qed
    then show ?thesis using None Cons w by (simp add: checked_write_def Let_def)
  qed
qed

lemma step_one_at_a_time:
  assumes "conn_step env c e c'" and "one_at_a_time c"
  shows "one_at_a_time c'"
  using assms
proof (induction rule: conn_step.induct)
  case (read_done c cb l rest data c' e)
  then show ?case
    by (intro checked_read_keeps [OF read_done(3)]) (auto simp: one_at_a_time_def shaking_def talking_def)
next
  case (read_failed c cb l rest err c' e)
  then show ?case
    by (intro checked_read_keeps [OF read_failed(2)]) (auto simp: one_at_a_time_def shaking_def talking_def)
next
  case (write_done c c' e)
  then show ?case using checked_write_keeps by (metis fst_conv)
next
  case (write_failed c err c' e)
  then show ?case using checked_write_keeps by (metis fst_conv)
next
  case (requested c msg)
  then show ?case by (auto simp: request_def one_at_a_time_def shaking_def talking_def)
qed

lemma start_one_at_a_time: "handshake_start env challenge c \<Longrightarrow> one_at_a_time c"
  unfolding one_at_a_time_def
  by (rule disjI1) (auto simp: handshake_start_def start_handshake_as_A_def start_handshake_as_B_def Let_def
      initiate_handshake_def create_connection_def shaking_def trigger_defs write_generated_def
      generate_def send_name_def)

lemma run_one_at_a_time:
  assumes "conn_run env c es c'" and "one_at_a_time c"
  shows "one_at_a_time c'"
  using assms by (induction rule: conn_run.induct) (auto intro: step_one_at_a_time)

section \<open>No trust without a digest\<close>

text \<open>A message that shows that its sender knows the cookie: the digest of our own challenge.\<close>

definition proves :: "conn_env \<Rightarrow> u32 \<Rightarrow> msg_seq \<Rightarrow> bool" where
  "proves env challenge m \<longleftrightarrow>
     (\<exists>r. parse m (challenge_reply_p (env_platform env)) = Inr r \<and> reply_digest r = digest_of env challenge) \<or>
     parse m (recv_challenge_ack_p (env_platform env)) = Inr (digest_of env challenge)"

definition trusted :: "node_connection \<Rightarrow> bool" where
  "trusted c \<longleftrightarrow> conn_state c \<in> {Sending_challenge_ack, Connected} \<or> Challenge_ack_written \<in> snd ` set (write_queue c)"

definition auth :: "conn_env \<Rightarrow> u32 \<Rightarrow> msg_seq list \<Rightarrow> node_connection \<Rightarrow> bool" where
  "auth env challenge popped c \<longleftrightarrow>
     own_challenge c = challenge \<and> (trusted c \<longrightarrow> (\<exists>m\<in>set popped. proves env challenge m))"

text \<open>A handler may take messages off the lexer; with those, and the messages \<open>M\<close>, trust stays justified.\<close>

definition adv :: "conn_env \<Rightarrow> u32 \<Rightarrow> msg_seq set \<Rightarrow> node_connection \<Rightarrow> node_connection \<Rightarrow> bool" where
  "adv env challenge M c c' \<longleftrightarrow>
     (\<exists>ps. msgs (handshake_msgs c) = ps @ msgs (handshake_msgs c') \<and>
        incomplete (handshake_msgs c') = incomplete (handshake_msgs c) \<and>
        (\<forall>popped. M \<subseteq> set popped \<longrightarrow> auth env challenge popped c \<longrightarrow> auth env challenge (popped @ ps) c'))"

lemma adv_refl [simp]: "adv env challenge M c c"
  by (auto simp: adv_def)

lemma adv_same_lexer:
  assumes "handshake_msgs c' = handshake_msgs c" and "own_challenge c' = own_challenge c"
    and "trusted c' \<Longrightarrow> trusted c \<or> (own_challenge c = challenge \<longrightarrow> (\<exists>m\<in>M. proves env challenge m))"
  shows "adv env challenge M c c'"
  using assms unfolding adv_def auth_def by (intro exI [of _ "[]"]) auto

lemma adv_trans:
  assumes "adv env challenge M c c'" and "adv env challenge M c' c''"
  shows "adv env challenge M c c''"
proof -
  obtain ps where ps: "msgs (handshake_msgs c) = ps @ msgs (handshake_msgs c')"
    "incomplete (handshake_msgs c') = incomplete (handshake_msgs c)"
    "\<And>popped. M \<subseteq> set popped \<Longrightarrow> auth env challenge popped c \<Longrightarrow> auth env challenge (popped @ ps) c'"
    using assms(1) unfolding adv_def by blast
  obtain qs where qs: "msgs (handshake_msgs c') = qs @ msgs (handshake_msgs c'')"
    "incomplete (handshake_msgs c'') = incomplete (handshake_msgs c')"
    "\<And>popped. M \<subseteq> set popped \<Longrightarrow> auth env challenge popped c' \<Longrightarrow> auth env challenge (popped @ qs) c''"
    using assms(2) unfolding adv_def by blast
  show ?thesis unfolding adv_def
  proof (intro exI conjI allI impI)
    show "msgs (handshake_msgs c) = (ps @ qs) @ msgs (handshake_msgs c'')" using ps(1) qs(1) by simp
    show "incomplete (handshake_msgs c'') = incomplete (handshake_msgs c)" using ps(2) qs(2) by simp
    fix popped assume *: "M \<subseteq> set popped" "auth env challenge popped c"
    have "auth env challenge ((popped @ ps) @ qs) c''"
      using qs(3) [of "popped @ ps"] ps(3) [OF *] * by auto
    then show "auth env challenge (popped @ ps @ qs) c''" by simp
  qed
qed

lemma untrusted_queue:
  "shaking 0 c \<Longrightarrow> trusted (c\<lparr>conn_state := st\<rparr>) \<longleftrightarrow> st \<in> {Sending_challenge_ack, Connected}"
  using all_ignored [of c] by (force simp: trusted_def)

lemma trusted_write [simp]:
  "trusted (trigger_checked_write m cb c) \<longleftrightarrow> trusted c \<or> cb = Challenge_ack_written"
  by (auto simp: trusted_def)

lemma trusted_read [simp]: "trusted (trigger_checked_read cb c) \<longleftrightarrow> trusted c"
  by (simp add: trusted_def trigger_defs)

lemma adv_parse_next:
  assumes "shaking 0 c"
    and k: "\<And>m attr c. \<lbrakk>parse m p = Inr attr; shaking 0 c\<rbrakk> \<Longrightarrow> adv env challenge {m} c (fst (k attr c))"
  shows "adv env challenge M c (fst (parse_next Handshake_msgs p k c))"
proof (cases "msgs (handshake_msgs c)")
  case Nil
  then show ?thesis by (simp add: parse_next_def pop_message_def next_message_def)
next
  case (Cons m rest)
  let ?c = "c\<lparr>handshake_msgs := (handshake_msgs c)\<lparr>msgs := rest\<rparr>\<rparr>"
  have pop: "pop_message Handshake_msgs c = (Some m, ?c)"
    by (simp add: pop_message_def next_message_def Cons)
  have s: "shaking 0 ?c" using assms(1) by (simp add: shaking_def)
  have same: "auth env challenge popped c \<Longrightarrow> auth env challenge (popped @ [m]) ?c" for popped
    by (auto simp: auth_def trusted_def)
  show ?thesis
  proof (cases "parse m p")
    case (Inl e)
    then show ?thesis unfolding adv_def using Cons same
      by (intro exI [of _ "[m]"]) (simp add: parse_next_def pop)
  next
    case (Inr attr)
    then obtain ps where ps: "rest = ps @ msgs (handshake_msgs (fst (k attr ?c)))"
      "incomplete (handshake_msgs (fst (k attr ?c))) = incomplete (handshake_msgs c)"
      "\<And>popped. m \<in> set popped \<Longrightarrow> auth env challenge popped ?c \<Longrightarrow> auth env challenge (popped @ ps) (fst (k attr ?c))"
      using k [OF Inr s] unfolding adv_def by auto
    have "auth env challenge (popped @ m # ps) (fst (k attr ?c))" if "auth env challenge popped c" for popped
      using ps(3) [of "popped @ [m]"] same [OF that] by simp
    then show ?thesis unfolding adv_def using Cons ps Inr
      by (intro exI [of _ "m # ps"]) (simp add: parse_next_def pop)
  qed
qed

lemma adv_write_generated:
  assumes "shaking 0 c" and "st \<notin> {Sending_challenge_ack, Connected}" and "cb \<noteq> Challenge_ack_written"
  shows "adv env challenge M c (fst (write_generated g cb (c\<lparr>conn_state := st\<rparr>)))"
  using assms untrusted_queue [OF assms(1), of st]
  by (intro adv_same_lexer) (auto simp: write_generated_def split: sum.splits)

lemma adv_failure: "shaking 0 c \<Longrightarrow> adv env challenge M c (report_failure c)"
  by (intro adv_same_lexer) (auto simp: report_failure_def trusted_def)

lemma adv_challenge_read:
  "shaking 0 c \<Longrightarrow> adv env challenge M c (fst (challenge_read env Handshake_msgs c))"
  unfolding challenge_read_def send_reply_def by (erule adv_parse_next) (simp add: adv_write_generated)

lemma adv_to_sending_status:
  "shaking 0 c \<Longrightarrow> adv env challenge M c (fst (to_sending_status env (got_peer_name n c)))"
  using all_ignored [of c]
  by (intro adv_same_lexer)
    (force simp: to_sending_status_def send_status_def send_challenge_def write_generated_def got_peer_name_def
      generate_def receive_status_g_def send_challenge_g_def trusted_def)+

lemma adv_status_read: "shaking 0 c \<Longrightarrow> adv env challenge M c (fst (status_read env Handshake_msgs c))"
  unfolding status_read_def
proof (erule adv_parse_next)
  fix m attr c assume s: "shaking 0 c"
  let ?c = "c\<lparr>conn_state := Receiving_challenge\<rparr>"
  have c: "shaking 0 ?c" "\<not> trusted ?c" using s untrusted_queue by (simp_all add: shaking_state)
  then have first: "adv env challenge {m} c ?c" by (intro adv_same_lexer) simp_all
  have "adv env challenge {m} ?c (fst (receive_challenge env Handshake_msgs ?c))"
    using adv_challenge_read [OF c(1)]
    by (auto simp: receive_challenge_def intro!: adv_same_lexer) (simp_all add: trigger_defs)
  with first have "adv env challenge {m} c (fst (receive_challenge env Handshake_msgs ?c))" by (rule adv_trans)
  then show "adv env challenge {m} c (fst (if attr = ''ok'' \<or> attr = ''ok_simultaneous''
      then receive_challenge env Handshake_msgs ?c else (report_failure c, None)))"
    using adv_failure [OF s] by simp
qed

lemma adv_reply_received: "shaking 0 c \<Longrightarrow> adv env challenge M c (fst (reply_received env Handshake_msgs c))"
  unfolding reply_received_def
proof (erule adv_parse_next)
  fix m attr c assume *: "parse m (challenge_reply_p (env_platform env)) = Inr attr" "shaking 0 c"
  then have "adv env challenge {m} c (fst (send_ack env x (c\<lparr>conn_state := Sending_challenge_ack\<rparr>)))"
    if "digest_of env (own_challenge c) = reply_digest attr" for x
    using that by (intro adv_same_lexer) (auto simp: send_ack_def write_generated_def proves_def split: sum.splits)
  then show "adv env challenge {m} c (fst (if digest_of env (own_challenge c) = reply_digest attr
      then send_ack env (reply_challenge attr) (c\<lparr>conn_state := Sending_challenge_ack\<rparr>) else (report_failure c, None)))"
    using adv_failure [OF *(2)] by simp
qed

lemma adv_ack_read: "shaking 0 c \<Longrightarrow> adv env challenge M c (fst (challenge_ack_read env Handshake_msgs c))"
  unfolding challenge_ack_read_def
proof (erule adv_parse_next)
  fix m attr c assume *: "parse m (recv_challenge_ack_p (env_platform env)) = Inr attr" "shaking 0 c"
  then have "adv env challenge {m} c (make_transition_to_connected c)"
    if "digest_of env (own_challenge c) = attr"
    using that by (intro adv_same_lexer) (auto simp: state_defs trigger_defs proves_def)
  then show "adv env challenge {m} c (fst (if digest_of env (own_challenge c) \<noteq> attr
      then (c, Some (Tinch_pp_exception ''Handshake failure with remote node - check your cookies!''))
      else (make_transition_to_connected c, None)))"
    by simp
qed

lemma adv_read_callback:
  assumes "shaking 0 c" and "cb \<noteq> Msg_received"
  shows "adv env challenge M c (fst (read_done_callback env cb Handshake_msgs c))"
proof -
  have "adv env challenge M c (fst (name_read env Handshake_msgs c))"
    unfolding name_read_def using assms(1)
    by (rule adv_parse_next) (simp add: adv_to_sending_status adv_failure)
  then show ?thesis
    using assms adv_status_read adv_challenge_read adv_ack_read adv_reply_received by (cases cb) simp_all
qed

text \<open>The bytes that were read are the messages taken, the contents of the lexer and what came later.\<close>

definition authenticated :: "conn_env \<Rightarrow> u32 \<Rightarrow> msg_seq \<Rightarrow> node_connection \<Rightarrow> bool" where
  "authenticated env challenge received c \<longleftrightarrow>
     (\<exists>popped later. concat popped @ concat (msgs (handshake_msgs c)) @ incomplete (handshake_msgs c) @ later = received \<and>
        (current_lexer c = Handshake_msgs \<longrightarrow> later = []) \<and> auth env challenge popped c)"

lemma authenticated_same:
  assumes "authenticated env challenge received c"
    and "handshake_msgs c' = handshake_msgs c" and "own_challenge c' = own_challenge c"
    and "trusted c' \<Longrightarrow> trusted c" and "current_lexer c' = Handshake_msgs \<Longrightarrow> current_lexer c = Handshake_msgs"
  shows "authenticated env challenge received c'"
  using assms(1,4,5) unfolding authenticated_def auth_def assms(2,3) by blast

lemma authenticated_later:
  assumes "authenticated env challenge received c" and "current_lexer c = Connected_msgs"
  shows "authenticated env challenge (received @ data) c"
proof -
  obtain popped later where
    "concat popped @ concat (msgs (handshake_msgs c)) @ incomplete (handshake_msgs c) @ later = received"
    "auth env challenge popped c"
    using assms(1) unfolding authenticated_def by blast
  then show ?thesis unfolding authenticated_def using assms(2)
    by (intro exI [of _ popped] exI [of _ "later @ data"]) auto
qed

lemma authenticated_adv:
  assumes "authenticated env challenge received c" and "current_lexer c = Handshake_msgs"
    and "adv env challenge {} c c'"
  shows "authenticated env challenge received c'"
proof -
  obtain popped where p: "concat popped @ concat (msgs (handshake_msgs c)) @ incomplete (handshake_msgs c) = received"
    "auth env challenge popped c"
    using assms(1,2) unfolding authenticated_def by auto
  obtain ps where "msgs (handshake_msgs c) = ps @ msgs (handshake_msgs c')"
    "incomplete (handshake_msgs c') = incomplete (handshake_msgs c)" "auth env challenge (popped @ ps) c'"
    using assms(3) p(2) unfolding adv_def by blast
  then show ?thesis unfolding authenticated_def using p(1)
    by (intro exI [of _ "popped @ ps"] exI [of _ "[]"]) auto
qed

lemma lexer_add_handshake:
  assumes "spirit (env_platform env)" and "lexer_add env Handshake_msgs data c = Some (Inr (b, c'))"
  shows "\<exists>q. c' = c\<lparr>handshake_msgs := q\<rparr> \<and>
    concat (msgs q) @ incomplete q = concat (msgs (handshake_msgs c)) @ incomplete (handshake_msgs c) @ data"
proof -
  obtain q where q: "add (read_msg_size_handshake (env_platform env)) (handshake_msgs c) data = Some (Inr (b, q))"
    "c' = c\<lparr>handshake_msgs := q\<rparr>"
    using assms(2) by (auto simp: lexer_add_def and_then_Inr_iff)
  then obtain ms where "msgs q = msgs (handshake_msgs c) @ ms"
    "concat ms @ incomplete q = incomplete (handshake_msgs c) @ data"
    using spirit.handshake_add [OF assms(1), of "handshake_msgs c" data] by auto
  then show ?thesis using q(2) by auto
qed

lemma authenticated_lexer:
  assumes "authenticated env challenge received c" and "current_lexer c = Handshake_msgs"
    and "concat (msgs q) @ incomplete q = concat (msgs (handshake_msgs c)) @ incomplete (handshake_msgs c) @ data"
  shows "authenticated env challenge (received @ data) (c\<lparr>handshake_msgs := q\<rparr>)"
proof -
  obtain popped where p: "concat popped @ concat (msgs (handshake_msgs c)) @ incomplete (handshake_msgs c) = received"
    "auth env challenge popped c"
    using assms(1,2) unfolding authenticated_def by auto
  then have "auth env challenge popped (c\<lparr>handshake_msgs := q\<rparr>)" by (simp add: auth_def trusted_def)
  then show ?thesis unfolding authenticated_def using p(1) assms(3)
    by (intro exI [of _ popped] exI [of _ "[]"]) auto
qed

lemma msg_received_same:
  "handshake_msgs (fst (msg_received env Connected_msgs c)) = handshake_msgs c"
  "own_challenge (fst (msg_received env Connected_msgs c)) = own_challenge c"
  "conn_state (fst (msg_received env Connected_msgs c)) = conn_state c"
  "current_lexer (fst (msg_received env Connected_msgs c)) = current_lexer c"
  by (auto simp: msg_received_def pop_message_def next_message_def send_tock_def trigger_checked_read_def
      trigger_read_on_def split: option.splits list.splits sum.splits)

lemma lexer_add_connected:
  assumes "lexer_add env Connected_msgs data c = Some (Inr (b, c'))"
  shows "\<exists>q. c' = c\<lparr>connected_msgs := q\<rparr>"
  using assms by (auto simp: lexer_add_def and_then_Inr_iff)

lemma io_error_authenticated:
  "authenticated env challenge received c \<Longrightarrow> authenticated env challenge received (fst (handle_io_error err c))"
  by (erule authenticated_same) (auto simp: handle_io_error_def report_failure_def trusted_def split: if_splits)

lemma read_authenticated:
  assumes sp: "spirit (env_platform env)" and auth: "authenticated env challenge received c"
    and read: "checked_read env cb l (Inr data) c = Some (c', e)"
    and mode: "shaking 0 c \<and> cb \<noteq> Msg_received \<and> l = Handshake_msgs \<or> talking 0 c \<and> cb = Msg_received \<and> l = Connected_msgs"
  shows "authenticated env challenge (received @ data) c'"
proof -
  have "lexer_add env l data c \<noteq> Some (Inl e)" for e
    using framing.add_never_asserts spirit.connected_framing [OF sp] spirit.handshake_framing [OF sp]
    by (cases l) (auto simp: lexer_add_def and_then_Inl_iff)
  then obtain b c1 where add: "lexer_add env l data c = Some (Inr (b, c1))"
    using read by (auto simp: checked_read_def split: option.splits sum.splits)
  from mode show ?thesis
  proof
    assume m: "shaking 0 c \<and> cb \<noteq> Msg_received \<and> l = Handshake_msgs"
    then obtain q where q: "c1 = c\<lparr>handshake_msgs := q\<rparr>"
      "concat (msgs q) @ incomplete q = concat (msgs (handshake_msgs c)) @ incomplete (handshake_msgs c) @ data"
      using lexer_add_handshake [OF sp] add by blast
    have c1: "authenticated env challenge (received @ data) c1" "current_lexer c1 = Handshake_msgs" "shaking 0 c1"
      using authenticated_lexer [OF auth _ q(2)] m q(1) by (simp_all add: shaking_def)
    have "adv env challenge {} c1 c'"
    proof (cases b)
      case True
      then show ?thesis using read add m adv_read_callback [OF c1(3), of cb env challenge "{}"]
        by (auto simp: checked_read_def)
    next
      case False
      then have "c' = trigger_read_on cb l c1" using read add by (auto simp: checked_read_def)
      then show ?thesis by (auto intro!: adv_same_lexer simp: trigger_read_on_def trusted_def)
    qed
    with c1 show ?thesis by (blast intro: authenticated_adv)
  next
    assume m: "talking 0 c \<and> cb = Msg_received \<and> l = Connected_msgs"
    then obtain q where q: "c1 = c\<lparr>connected_msgs := q\<rparr>" using lexer_add_connected add by blast
    have "authenticated env challenge (received @ data) c"
      using authenticated_later [OF auth] m by (simp add: talking_def)
    then show ?thesis
      by (rule authenticated_same)
        (use read add m q msg_received_same [of env c1] in
          \<open>auto simp: checked_read_def trigger_read_on_def trusted_def talking_def split: if_splits\<close>)
  qed
qed

lemma write_authenticated:
  assumes "authenticated env challenge received c" and "one_at_a_time c"
  shows "authenticated env challenge received (fst (checked_write err c))"
proof (cases "write_queue c")
  case Nil
  then show ?thesis using assms(1)
    by (auto elim!: authenticated_same simp: checked_write_def Let_def trusted_def)
next
  case (Cons w queue)
  obtain m cb where w: "w = (m, cb)" by (cases w)
  show ?thesis
  proof (cases err)
    case (Some e)
    have "authenticated env challenge received (c\<lparr>write_in_flight := False\<rparr>)"
      using assms(1) by (rule authenticated_same) (simp_all add: trusted_def)
    then show ?thesis using io_error_authenticated Some Cons w by (simp add: checked_write_def Let_def)
  next
    case None
    show ?thesis using assms(1)
      by (rule authenticated_same)
        (use None Cons w in \<open>cases cb; auto simp: checked_write_def Let_def state_defs trigger_checked_read_def
          trigger_read_on_def trusted_def\<close>)+
  qed
qed

lemma step_authenticated:
  assumes sp: "spirit (env_platform env)" and "conn_step env c e c'" and "one_at_a_time c"
    and "authenticated env challenge received c"
  shows "authenticated env challenge (received @ bytes_read e) c'"
  using assms(2-4)
proof (induction rule: conn_step.induct)
  case (read_done c cb l rest data c' e)
  have "authenticated env challenge received (c\<lparr>pending_reads := rest\<rparr>)"
    using read_done.prems(2) by (rule authenticated_same) (simp_all add: trusted_def)
  then show ?case
    using read_authenticated [OF sp _ read_done(3)] read_done(1,4)
    by (auto simp: one_at_a_time_def shaking_def talking_def)
next
  case (read_failed c cb l rest err c' e)
  have "authenticated env challenge received (c\<lparr>pending_reads := rest\<rparr>)"
    using read_failed.prems(2) by (rule authenticated_same) (simp_all add: trusted_def)
  then show ?case
    using io_error_authenticated [of env challenge received "c\<lparr>pending_reads := rest\<rparr>" err] read_failed(2)
    by (simp add: checked_read_def)
next
  case (write_done c c' e)
  then show ?case using write_authenticated [of env challenge received c None] by simp
next
  case (write_failed c err c' e)
  then show ?case using write_authenticated [of env challenge received c "Some err"] by simp
next
  case (requested c msg)
  from requested.prems(2) show ?case
    by (auto elim!: authenticated_same simp: request_def)
qed

lemma start_authenticated: "handshake_start env challenge c \<Longrightarrow> authenticated env challenge [] c"
  unfolding authenticated_def
  by (intro exI [of _ "[]"])
    (auto simp: handshake_start_def start_handshake_as_A_def start_handshake_as_B_def Let_def initiate_handshake_def
      create_connection_def new_lexer_def trigger_defs write_generated_def generate_def send_name_def auth_def trusted_def)

lemma run_authenticated:
  assumes "spirit (env_platform env)" and "conn_run env c es c'" and "one_at_a_time c"
    and "authenticated env challenge [] c"
  shows "authenticated env challenge (concat (map bytes_read es)) c'"
  using assms(2-4)
proof (induction rule: conn_run.induct)
  case (snoc c es c' e c'')
  then show ?case
    using step_authenticated [OF assms(1) snoc.hyps(2)] run_one_at_a_time [OF snoc.hyps(1)] by simp
qed simp

end
