(* ===== verification/Handshake.thy ===== *)
theory Handshake
  imports Connection
begin

text \<open>
  What the handshake of \<open>Connection\<close> achieves: an exchange between two honest nodes completes on
  both sides, a connection is only trusted after a message with the digest of its own
  challenge, and what becomes of a handshake that goes wrong. Also the behaviour of a
  connection once it is connected: the order of its writes and the messages it handles per
  read.
\<close>

section \<open>Two honest nodes\<close>

lemma digest_environment:
  assumes "env_platform e1 = env_platform e2" and "env_cookie e1 = env_cookie e2"
    and "length (env_garbage e1) = 64" and "length (env_garbage e2) = 64"
  shows "digest_of e1 c = digest_of e2 c"
proof -
  have "md5_finish (md5_append (md5_init g) (bytes_of m) (of_nat (length m))) =
      md5_rfc1321 (take (nat (sint (of_nat (length m) :: c_int))) (bytes_of m))" if "length g = 64" for g m
    using finish_spec [OF absorbed_count [OF absorbed_init [OF that], of "of_nat (length m)" "bytes_of m"]]
      narrowed_length [of m] by simp
  then show ?thesis using assms
    by (simp add: digest_of_def calculate_digest_def Let_def)
qed

lemma add_one_message:
  assumes "framing rms" and "rms m = Some (length m)" and "m \<noteq> []"
  shows "add rms \<lparr>incomplete = [], msgs = []\<rparr> m = Some (Inr (True, \<lparr>incomplete = [], msgs = [m]\<rparr>))"
proof -
  have "cut rms m [m] []" using cut_exact assms framing.size_Nil by blast
  then show ?thesis using framing.add_refines [OF assms(1), of "\<lparr>incomplete = [], msgs = []\<rparr>" m] by fastforce
qed

text \<open>A message of the handshake that arrives at an empty lexer is given to the callback.\<close>

lemma read_one_message:
  assumes "spirit (env_platform env)" and "handshake_msgs c = new_lexer"
    and "read_msg_size_handshake (env_platform env) m = Some (length m)" and "m \<noteq> []"
  shows "checked_read env cb Handshake_msgs (Inr m) c =
    Some (read_done_callback env cb Handshake_msgs (c\<lparr>handshake_msgs := \<lparr>incomplete = [], msgs = [m]\<rparr>\<rparr>))"
  using add_one_message [OF spirit.handshake_framing [OF assms(1)] assms(3,4)] assms(2)
  by (simp add: checked_read_def lexer_add_def new_lexer_def)

lemma parse_one_message:
  assumes "handshake_msgs c = \<lparr>incomplete = [], msgs = [m]\<rparr>" and "parse m p = Inr attr"
  shows "parse_next Handshake_msgs p k c = k attr (c\<lparr>handshake_msgs := new_lexer\<rparr>)"
  using assms by (simp add: parse_next_def pop_message_def next_message_def new_lexer_def)

lemma run_read:
  assumes "conn_run env c es c'" and "pending_reads c' = (cb, Handshake_msgs) # rest" and "length m \<le> 128"
    and "spirit (env_platform env)" and "handshake_msgs c' = new_lexer"
    and "read_msg_size_handshake (env_platform env) m = Some (length m)" and "m \<noteq> []"
    and "read_done_callback env cb Handshake_msgs
           (c'\<lparr>pending_reads := rest, handshake_msgs := \<lparr>incomplete = [], msgs = [m]\<rparr>\<rparr>) = (c'', e)"
  shows "conn_run env c (es @ [Read_done m]) c''"
  using assms read_one_message [of env "c'\<lparr>pending_reads := rest\<rparr>" m cb]
  by (intro conn_run.snoc [OF assms(1)] conn_step.read_done [OF assms(2,3)]) simp

lemma run_written:
  assumes "conn_run env c es c'" and "write_in_flight c'" and "write_queue c' = (m, cb) # queue"
  shows "conn_run env c (es @ [Write_done])
    (write_done_callback cb (async_write_front (c'\<lparr>write_in_flight := False, write_queue := queue\<rparr>)))"
  using assms by (intro conn_run.snoc [OF assms(1)] conn_step.write_done) (simp_all add: checked_write_def Let_def)

lemma digest_of_length [simp]: "length (digest_of env c) = 16"
  by (simp add: digest_of_def digest_length)

text \<open>B: it reads the name, sends the status and its challenge, reads the reply and sends the acknowledgement.\<close>

lemma honest_B:
  assumes sp: "spirit (env_platform env)"
    and M: "parse M (send_name_p (env_platform env)) = Inr \<lparr>version0 = 5, version1 = 1284, sent_name = peer\<rparr>"
      "read_msg_size_handshake (env_platform env) M = Some (length M)" "M \<noteq> []" "length M \<le> 128"
    and S: "generate (receive_status_g (env_platform env)) ''ok'' = Inr S"
    and C: "generate (send_challenge_g (env_platform env)) \<lparr>att_challenge = challenge, att_node_name = name\<rparr> = Inr C"
    and R: "parse R (challenge_reply_p (env_platform env)) = Inr \<lparr>reply_challenge = other, reply_digest = digest_of env challenge\<rparr>"
      "read_msg_size_handshake (env_platform env) R = Some (length R)" "R \<noteq> []" "length R \<le> 128"
    and K: "generate (send_challenge_ack_g (env_platform env)) (digest_of env other) = Inr K"
  shows "\<exists>c. conn_run env (start_handshake_as_B challenge (create_connection None name))
      [Read_done M, Write_done, Write_done, Read_done R, Write_done] c \<and>
    conn_state c = Connected \<and> current_lexer c = Connected_msgs \<and> signals c = [True] \<and> peer_name c = Some peer \<and>
    started_writes c = [S, C, K] \<and> write_queue c = [] \<and> pending_reads c = [(Msg_received, Connected_msgs)] \<and>
    handshake_msgs c = new_lexer \<and> connected_msgs c = new_lexer"
proof -
  let ?b0 = "start_handshake_as_B challenge (create_connection None name)"
  note simps = start_handshake_as_B_def Let_def create_connection_def trigger_defs state_defs write_generated_def
  have r0: "conn_run env ?b0 [] ?b0" by (rule conn_run.start)
  have "conn_run env ?b0 ([] @ [Read_done M])
     \<lparr>peer_name = Some peer, conn_name = name, conn_state = Sending_status, handshake_msgs = new_lexer,
      connected_msgs = new_lexer, current_lexer = Handshake_msgs, own_challenge = challenge, pending_reads = [],
      write_queue = [(S, Ignore_write_notification), (C, Challenge_written)], write_in_flight = True,
      started_writes = [S], signals = [], node_calls = []\<rparr>" (is "conn_run _ _ _ ?b1")
    by (rule run_read [OF r0, of Name_read "[]" M])
      (use sp M S C in \<open>simp_all add: simps name_read_def parse_one_message supported_def to_sending_status_def
        send_status_def send_challenge_def\<close>)
  from run_written [OF this, of S Ignore_write_notification "[(C, Challenge_written)]"]
  have "conn_run env ?b0 [Read_done M, Write_done]
     (?b1\<lparr>write_queue := [(C, Challenge_written)], started_writes := [S, C]\<rparr>)" (is "conn_run _ _ _ ?b2")
    by (simp add: async_write_front_def)
  from run_written [OF this, of C Challenge_written "[]"]
  have r3: "conn_run env ?b0 [Read_done M, Write_done, Write_done]
     (?b2\<lparr>write_queue := [], write_in_flight := False, pending_reads := [(Reply_received, Handshake_msgs)],
        conn_state := Waiting_for_challenge_reply\<rparr>)" (is "conn_run _ _ _ ?b3")
    by (simp add: simps)
  have "conn_run env ?b0 ([Read_done M, Write_done, Write_done] @ [Read_done R])
     (?b3\<lparr>pending_reads := [], conn_state := Sending_challenge_ack, write_queue := [(K, Challenge_ack_written)],
        write_in_flight := True, started_writes := [S, C, K]\<rparr>)" (is "conn_run _ _ _ ?b4")
    by (rule run_read [OF r3, of Reply_received "[]" R])
      (use sp R K in \<open>simp_all add: reply_received_def parse_one_message send_ack_def write_generated_def trigger_defs\<close>)
  from run_written [OF this, of K Challenge_ack_written "[]"]
  have "conn_run env ?b0 [Read_done M, Write_done, Write_done, Read_done R, Write_done]
     (?b4\<lparr>write_queue := [], write_in_flight := False, conn_state := Connected, current_lexer := Connected_msgs,
        signals := [True], pending_reads := [(Msg_received, Connected_msgs)]\<rparr>)"
    by (simp add: simps)
  then show ?thesis by (intro exI conjI) (assumption | simp)+
qed

text \<open>A: it sends its name, reads the status and the challenge, sends its reply and reads the acknowledgement.\<close>

lemma honest_A:
  assumes sp: "spirit (env_platform env)"
    and M: "generate (send_name (env_platform env)) name = Inr M"
    and S: "parse S (receive_status (env_platform env)) = Inr ''ok''"
      "read_msg_size_handshake (env_platform env) S = Some (length S)" "S \<noteq> []" "length S \<le> 128"
    and C: "parse C (recv_challenge (env_platform env)) = Inr \<lparr>att_challenge = other, att_node_name = peer\<rparr>"
      "read_msg_size_handshake (env_platform env) C = Some (length C)" "C \<noteq> []" "length C \<le> 128"
    and R: "generate (challenge_reply (env_platform env)) \<lparr>reply_challenge = challenge, reply_digest = digest_of env other\<rparr> = Inr R"
    and K: "parse K (recv_challenge_ack_p (env_platform env)) = Inr (digest_of env challenge)"
      "read_msg_size_handshake (env_platform env) K = Some (length K)" "K \<noteq> []" "length K \<le> 128"
  shows "\<exists>c. conn_run env (fst (start_handshake_as_A env challenge (create_connection (Some short) name)))
      [Write_done, Read_done S, Read_done C, Write_done, Read_done K] c \<and>
    conn_state c = Connected \<and> current_lexer c = Connected_msgs \<and> signals c = [True] \<and> peer_name c = Some short \<and>
    started_writes c = [M, R] \<and> write_queue c = [] \<and> pending_reads c = [(Msg_received, Connected_msgs)] \<and>
    handshake_msgs c = new_lexer \<and> connected_msgs c = new_lexer"
proof -
  let ?a0 = "fst (start_handshake_as_A env challenge (create_connection (Some short) name))"
  note simps = trigger_defs state_defs write_generated_def
  have a0: "?a0 =
     \<lparr>peer_name = Some short, conn_name = name, conn_state = Connected_tcp, handshake_msgs = new_lexer,
      connected_msgs = new_lexer, current_lexer = Handshake_msgs, own_challenge = challenge, pending_reads = [],
      write_queue = [(M, Handshake_sent)], write_in_flight = True, started_writes = [M], signals = [], node_calls = []\<rparr>"
    (is "_ = ?b0") using M by (simp add: start_handshake_as_A_def Let_def create_connection_def initiate_handshake_def simps)
  have "conn_run env ?b0 [] ?b0" by (rule conn_run.start)
  from run_written [OF this, of M Handshake_sent "[]"]
  have r1: "conn_run env ?b0 [Write_done]
     (?b0\<lparr>write_queue := [], write_in_flight := False, pending_reads := [(Status_read, Handshake_msgs)],
        conn_state := Waiting_for_status\<rparr>)" (is "conn_run _ _ _ ?b1")
    by (simp add: simps)
  have r2: "conn_run env ?b0 ([Write_done] @ [Read_done S])
     (?b1\<lparr>pending_reads := [(Challenge_read, Handshake_msgs)], conn_state := Receiving_challenge\<rparr>)" (is "conn_run _ _ _ ?b2")
    by (rule run_read [OF r1, of Status_read "[]" S])
      (use sp S in \<open>simp_all add: status_read_def parse_one_message receive_challenge_def has_complete_def
        has_complete_msg_def new_lexer_def trigger_defs\<close>)
  have "conn_run env ?b0 (([Write_done] @ [Read_done S]) @ [Read_done C])
     (?b2\<lparr>pending_reads := [], conn_state := Sending_challenge_reply, write_queue := [(R, Reply_sent)],
        write_in_flight := True, started_writes := [M, R]\<rparr>)" (is "conn_run _ _ _ ?b3")
    by (rule run_read [OF r2, of Challenge_read "[]" C])
      (use sp C R in \<open>simp_all add: challenge_read_def parse_one_message send_reply_def simps\<close>)
  from run_written [OF this, of R Reply_sent "[]"]
  have r4: "conn_run env ?b0 [Write_done, Read_done S, Read_done C, Write_done]
     (?b3\<lparr>write_queue := [], write_in_flight := False, pending_reads := [(Challenge_ack_read, Handshake_msgs)],
        conn_state := Receiving_challenge_ack\<rparr>)" (is "conn_run _ _ _ ?b4")
    by (simp add: simps)
  have "conn_run env ?b0 ([Write_done, Read_done S, Read_done C, Write_done] @ [Read_done K])
     (?b4\<lparr>conn_state := Connected, current_lexer := Connected_msgs, signals := [True],
        pending_reads := [(Msg_received, Connected_msgs)]\<rparr>)"
    by (rule run_read [OF r4, of Challenge_ack_read "[]" K])
      (use sp K in \<open>simp_all add: challenge_ack_read_def parse_one_message simps\<close>)
  then show ?thesis unfolding a0 by (intro exI conjI) (simp | assumption)+
qed

context spirit
begin

lemma handshake_lengths:
  "generate (send_name pf) name = Inr M \<Longrightarrow> length M = length name + 9"
  "generate (receive_status_g pf) status = Inr S \<Longrightarrow> length S = length status + 3"
  "generate (send_challenge_g pf) attr = Inr C \<Longrightarrow> length C = length (att_node_name attr) + 13"
  "generate (challenge_reply pf) rattr = Inr R \<Longrightarrow> length R = 23"
  "generate (send_challenge_ack_g pf) digest = Inr K \<Longrightarrow> length K = 19"
  by (auto simp: handshake_generators split: if_splits)

end

text \<open>The exchange between the two, message by message.\<close>

lemma honest_exchange:
  assumes "spirit pf" and "length gA = 64" and "length gB = 64"
    and "nameA \<noteq> []" and "length nameA \<le> 100" and "nameB \<noteq> []" and "length nameB \<le> 100"
  shows "\<exists>esA a esB b.
    conn_run \<lparr>env_platform = pf, env_garbage = gA, env_cookie = cookie\<rparr>
      (fst (start_handshake_as_A \<lparr>env_platform = pf, env_garbage = gA, env_cookie = cookie\<rparr> chA
        (create_connection (Some short) nameA))) esA a \<and>
    conn_run \<lparr>env_platform = pf, env_garbage = gB, env_cookie = cookie\<rparr>
      (start_handshake_as_B chB (create_connection None nameB)) esB b \<and>
    concat (map bytes_read esA) = concat (started_writes b) \<and>
    concat (map bytes_read esB) = concat (started_writes a) \<and>
    conn_state a = Connected \<and> conn_state b = Connected \<and> signals a = [True] \<and> signals b = [True] \<and>
    peer_name b = Some nameA"
proof -
  let ?A = "\<lparr>env_platform = pf, env_garbage = gA, env_cookie = cookie\<rparr>"
  let ?B = "\<lparr>env_platform = pf, env_garbage = gB, env_cookie = cookie\<rparr>"
  have dig: "digest_of ?B c = digest_of ?A c" for c by (rule digest_environment) (simp_all add: assms)
  obtain M where M: "generate (send_name pf) nameA = Inr M"
    "parse M (send_name_p pf) = Inr \<lparr>version0 = 5, version1 = 1284, sent_name = nameA\<rparr>"
    "read_msg_size_handshake pf M = Some (length M)"
    using spirit.name_roundtrip [OF assms(1,4)] assms(5) by auto
  obtain S where S: "generate (receive_status_g pf) ''ok'' = Inr S" "parse S (receive_status pf) = Inr ''ok''"
    "read_msg_size_handshake pf S = Some (length S)"
    using spirit.status_roundtrip [OF assms(1), of "''ok''"] by auto
  obtain C where C: "generate (send_challenge_g pf) \<lparr>att_challenge = chB, att_node_name = nameB\<rparr> = Inr C"
    "parse C (recv_challenge pf) = Inr \<lparr>att_challenge = chB, att_node_name = nameB\<rparr>"
    "read_msg_size_handshake pf C = Some (length C)"
    using spirit.challenge_roundtrip [OF assms(1), of "\<lparr>att_challenge = chB, att_node_name = nameB\<rparr>"] assms(6,7) by auto
  obtain R where R: "generate (challenge_reply pf) \<lparr>reply_challenge = chA, reply_digest = digest_of ?A chB\<rparr> = Inr R"
    "parse R (challenge_reply_p pf) = Inr \<lparr>reply_challenge = chA, reply_digest = digest_of ?A chB\<rparr>"
    "read_msg_size_handshake pf R = Some (length R)"
    using spirit.reply_roundtrip [OF assms(1), of "\<lparr>reply_challenge = chA, reply_digest = digest_of ?A chB\<rparr>"] by auto
  obtain K where K: "generate (send_challenge_ack_g pf) (digest_of ?A chA) = Inr K"
    "parse K (recv_challenge_ack_p pf) = Inr (digest_of ?A chA)" "read_msg_size_handshake pf K = Some (length K)"
    using spirit.ack_roundtrip [OF assms(1), of "digest_of ?A chA"] by auto
  note len = spirit.handshake_lengths [OF assms(1)]
  have nz: "M \<noteq> []" "S \<noteq> []" "C \<noteq> []" "R \<noteq> []" "K \<noteq> []" and "length M \<le> 128" "length S \<le> 128"
    "length C \<le> 128" "length R \<le> 128" "length K \<le> 128"
    using len(1) [OF M(1)] len(2) [OF S(1)] len(3) [OF C(1)] len(4) [OF R(1)] len(5) [OF K(1)] assms(5,7) by auto
  obtain a where a: "conn_run ?A (fst (start_handshake_as_A ?A chA (create_connection (Some short) nameA)))
      [Write_done, Read_done S, Read_done C, Write_done, Read_done K] a"
    "conn_state a = Connected" "signals a = [True]" "started_writes a = [M, R]"
    using honest_A [of ?A nameA M S C chB nameB chA R K short] M S C R K nz \<open>length S \<le> 128\<close>
      \<open>length C \<le> 128\<close> \<open>length K \<le> 128\<close> assms(1) by auto
  obtain b where b: "conn_run ?B (start_handshake_as_B chB (create_connection None nameB))
      [Read_done M, Write_done, Write_done, Read_done R, Write_done] b"
    "conn_state b = Connected" "signals b = [True]" "started_writes b = [S, C, K]" "peer_name b = Some nameA"
    using honest_B [of ?B M nameA S chB nameB C R chA K] M S C R K nz \<open>length M \<le> 128\<close>
      \<open>length R \<le> 128\<close> assms(1) dig by auto
  show ?thesis
    using a b by (intro exI conjI) (assumption | simp)+
qed

section \<open>Dead ends\<close>

text \<open>A connection with no operation under way that is not connected never changes again.\<close>

definition dead :: "node_connection \<Rightarrow> bool" where
  "dead c \<longleftrightarrow> pending_reads c = [] \<and> \<not> write_in_flight c \<and> conn_state c \<noteq> Connected"

lemma dead_run: "conn_run env c es c' \<Longrightarrow> dead c \<Longrightarrow> c' = c"
proof (induction rule: conn_run.induct)
  case (snoc c es c' e c'')
  then have "dead c'" "c' = c" by simp_all
  with snoc.hyps(2) show ?case by (cases rule: conn_step.cases) (auto simp: dead_def request_def)
qed simp

text \<open>A failed write leaves its message at the front of the queue, and no write is started any more.\<close>

definition wedged :: "node_connection \<Rightarrow> bool" where
  "wedged c \<longleftrightarrow> write_queue c \<noteq> [] \<and> \<not> write_in_flight c"

definition stays_wedged :: "node_connection \<Rightarrow> node_connection \<Rightarrow> bool" where
  "stays_wedged c c' \<longleftrightarrow> (wedged c \<longrightarrow> wedged c' \<and> started_writes c' = started_writes c)"

lemma stays_wedged_trans: "stays_wedged a b \<Longrightarrow> stays_wedged b c \<Longrightarrow> stays_wedged a c"
  by (auto simp: stays_wedged_def)

lemma stays_wedged_same:
  "\<lbrakk>write_queue c' = write_queue c; write_in_flight c' = write_in_flight c; started_writes c' = started_writes c\<rbrakk>
    \<Longrightarrow> stays_wedged c c'"
  by (simp add: stays_wedged_def wedged_def)

lemma stays_wedged_write: "stays_wedged c (trigger_checked_write m cb c)"
  by (auto simp: stays_wedged_def wedged_def trigger_defs)

lemma stays_wedged_generated: "stays_wedged c (fst (write_generated g cb c))"
  by (auto simp: write_generated_def stays_wedged_write stays_wedged_same split: sum.split)

lemma stays_wedged_parse_next:
  assumes "\<And>attr c. stays_wedged c (fst (k attr c))"
  shows "stays_wedged c (fst (parse_next l p k c))"
proof -
  obtain m c' where pop: "pop_message l c = (m, c')" by (cases "pop_message l c")
  then have "stays_wedged c c'"
    by (auto simp: pop_message_def intro!: stays_wedged_same split: lexer_id.splits prod.splits)
  then show ?thesis using stays_wedged_trans assms
    by (auto simp: parse_next_def pop split: option.split sum.split)
qed

lemma stays_wedged_state: "stays_wedged (c\<lparr>conn_state := st\<rparr>) c' \<Longrightarrow> stays_wedged c c'"
  by (simp add: stays_wedged_def wedged_def)

lemma stays_wedged_status: "stays_wedged c (fst (to_sending_status env (got_peer_name n c)))"
proof -
  have *: "stays_wedged c (got_peer_name n c)" by (rule stays_wedged_same) (simp_all add: got_peer_name_def)
  obtain c1 e1 where 1: "send_status env (got_peer_name n c) = (c1, e1)" by (cases "send_status env (got_peer_name n c)")
  obtain c2 e2 where 2: "send_challenge env c1 = (c2, e2)" by (cases "send_challenge env c1")
  have "stays_wedged (got_peer_name n c) c1" "stays_wedged c1 c2"
    using stays_wedged_generated [of "got_peer_name n c"] stays_wedged_generated [of c1] 1 2
    unfolding send_status_def send_challenge_def by (metis fst_conv)+
  with * have "stays_wedged c c1" "stays_wedged c c2" using stays_wedged_trans by blast+
  then show ?thesis
    by (auto simp: to_sending_status_def 1 2 stays_wedged_def wedged_def split: option.split)
qed

lemma stays_wedged_read:
  "stays_wedged c (trigger_checked_read cb c)" "stays_wedged c (report_failure c)"
  "stays_wedged c (make_transition_to_connected c)"
  by (rule stays_wedged_same; simp add: trigger_defs state_defs)+

lemma stays_wedged_callback: "stays_wedged c (fst (read_done_callback env cb l c))"
proof -
  have challenge: "stays_wedged c (fst (challenge_read env l c))" for c
    unfolding challenge_read_def send_reply_def
    by (rule stays_wedged_parse_next, rule stays_wedged_state, rule stays_wedged_generated)
  have "stays_wedged c (fst (name_read env l c))"
    unfolding name_read_def by (rule stays_wedged_parse_next) (simp add: stays_wedged_status stays_wedged_read)
  moreover have "stays_wedged c (fst (status_read env l c))"
    unfolding status_read_def
    by (rule stays_wedged_parse_next)
      (auto simp: receive_challenge_def stays_wedged_read intro!: stays_wedged_state [OF challenge]
        stays_wedged_state [OF stays_wedged_read(1)])
  moreover have "stays_wedged c (fst (reply_received env l c))"
    unfolding reply_received_def send_ack_def
    by (rule stays_wedged_parse_next)
      (auto simp: stays_wedged_read intro!: stays_wedged_state [OF stays_wedged_generated])
  moreover have "stays_wedged c (fst (challenge_ack_read env l c))"
    unfolding challenge_ack_read_def
    by (rule stays_wedged_parse_next) (auto simp: stays_wedged_read stays_wedged_same)
  moreover have "stays_wedged c (fst (msg_received env l c))"
    by (auto simp: msg_received_def pop_message_def next_message_def send_tock_def stays_wedged_def wedged_def
        trigger_defs split: lexer_id.splits list.splits sum.splits)
  ultimately show ?thesis using challenge by (cases cb) simp_all
qed

lemma stays_wedged_step:
  assumes "conn_step env c e c'"
  shows "stays_wedged c c'"
  using assms
proof (induction rule: conn_step.induct)
  case (read_done c cb l rest data c' e)
  have *: "stays_wedged c (c\<lparr>pending_reads := rest\<rparr>)" by (simp add: stays_wedged_same)
  have add: "stays_wedged (c\<lparr>pending_reads := rest\<rparr>) c1"
    if "lexer_add env l data (c\<lparr>pending_reads := rest\<rparr>) = Some (Inr (b, c1))" for b c1
    using that by (auto elim!: lexer_add_form intro!: stays_wedged_same)
  have "stays_wedged (c\<lparr>pending_reads := rest\<rparr>) c'"
  proof (cases "\<exists>b c1. lexer_add env l data (c\<lparr>pending_reads := rest\<rparr>) = Some (Inr (b, c1))")
    case True
    then obtain b c1 where c1: "lexer_add env l data (c\<lparr>pending_reads := rest\<rparr>) = Some (Inr (b, c1))" by blast
    have "c' = fst (read_done_callback env cb l c1) \<or> c' = trigger_read_on cb l c1"
      using read_done(3) c1 by (auto simp: checked_read_def split: if_splits)
    then show ?thesis
      using add [OF c1] stays_wedged_callback [of c1 env cb l] stays_wedged_trans
        stays_wedged_same [of "trigger_read_on cb l c1" c1] by (auto simp: trigger_read_on_def)
  next
    case False
    then have "c' = c\<lparr>pending_reads := rest\<rparr>"
      using read_done(3) by (auto simp: checked_read_def split: option.splits sum.splits)
    then show ?thesis by (simp add: stays_wedged_same)
  qed
  with * show ?case by (rule stays_wedged_trans)
next
  case (read_failed c cb l rest err c' e)
  then show ?case
    by (auto simp: checked_read_def handle_io_error_def report_failure_def stays_wedged_same split: if_splits)
next
  case (requested c msg)
  then show ?case by (simp add: request_def stays_wedged_write stays_wedged_same)
qed (auto simp: stays_wedged_def wedged_def)

lemma stays_wedged_run: "conn_run env c es c' \<Longrightarrow> stays_wedged c c'"
  by (induction rule: conn_run.induct) (auto intro: stays_wedged_same stays_wedged_step stays_wedged_trans)

section \<open>Properties of the handshake\<close>

text \<open>Two nodes that share the cookie complete the handshake: there is an exchange in which each
  side reads exactly the bytes the other one wrote, both end in the connected state, both
  report success once, and the accepting side has learnt the name of the other.\<close>

theorem handshake_completes:
  assumes "spirit pf" and "length gA = 64" and "length gB = 64"
    and "nameA \<noteq> []" and "length nameA \<le> 100" and "nameB \<noteq> []" and "length nameB \<le> 100"
  shows "\<exists>esA a esB b.
    conn_run \<lparr>env_platform = pf, env_garbage = gA, env_cookie = cookie\<rparr>
      (fst (start_handshake_as_A \<lparr>env_platform = pf, env_garbage = gA, env_cookie = cookie\<rparr> chA
        (create_connection (Some short) nameA))) esA a \<and>
    conn_run \<lparr>env_platform = pf, env_garbage = gB, env_cookie = cookie\<rparr>
      (start_handshake_as_B chB (create_connection None nameB)) esB b \<and>
    concat (map bytes_read esA) = concat (started_writes b) \<and>
    concat (map bytes_read esB) = concat (started_writes a) \<and>
    conn_state a = Connected \<and> conn_state b = Connected \<and> signals a = [True] \<and> signals b = [True] \<and>
    peer_name b = Some nameA"
  by (rule honest_exchange [OF assms])

theorem handshake_completes_witness:
  "\<exists>esA a esB b.
    conn_run \<lparr>env_platform = documented_platform, env_garbage = replicate 64 1, env_cookie = ''c''\<rparr>
      (fst (start_handshake_as_A \<lparr>env_platform = documented_platform, env_garbage = replicate 64 1, env_cookie = ''c''\<rparr> 7
        (create_connection (Some ''b'') ''a@h''))) esA a \<and>
    conn_run \<lparr>env_platform = documented_platform, env_garbage = replicate 64 2, env_cookie = ''c''\<rparr>
      (start_handshake_as_B 9 (create_connection None ''b@h'')) esB b \<and>
    concat (map bytes_read esA) = concat (started_writes b) \<and>
    concat (map bytes_read esB) = concat (started_writes a) \<and>
    conn_state a = Connected \<and> conn_state b = Connected \<and> signals a = [True] \<and> signals b = [True] \<and>
    peer_name b = Some ''a@h''"
  by (rule handshake_completes [OF doc.spirit_axioms]) simp_all

lemma connected_has_proof:
  assumes "spirit (env_platform env)" and "handshake_start env challenge c0" and "conn_run env c0 es c"
    and "conn_state c = Connected"
  shows "\<exists>pre m post. concat (map bytes_read es) = pre @ m @ post \<and> proves env challenge m"
proof -
  have "authenticated env challenge (concat (map bytes_read es)) c"
    using run_authenticated [OF assms(1,3)] start_authenticated [OF assms(2)] start_one_at_a_time [OF assms(2)] by blast
  moreover have "trusted c" using assms(4) by (simp add: trusted_def)
  ultimately obtain popped rest m where p: "concat popped @ rest = concat (map bytes_read es)"
    "m \<in> set popped" "proves env challenge m"
    unfolding authenticated_def auth_def by blast
  obtain xs ys where "popped = xs @ m # ys" using p(2) by (auto simp: in_set_conv_decomp)
  then have "concat (map bytes_read es) = concat xs @ m @ concat ys @ rest" using p(1) by simp
  with p(3) show ?thesis by blast
qed

text \<open>C4. No trust without a digest: in every run of a handshake, in either role and against any
  peer, the connection is only connected if among the bytes it has read is a message, a
  challenge reply or a challenge acknowledgement, that carries the digest of its own
  challenge with its own cookie.\<close>

theorem connected_is_authenticated:
  assumes "spirit (env_platform env)" and "handshake_start env challenge c0" and "conn_run env c0 es c"
    and "conn_state c = Connected"
  shows "\<exists>pre m post. concat (map bytes_read es) = pre @ m @ post \<and> proves env challenge m"
  using connected_has_proof [OF assms] .

theorem connected_is_authenticated_witness:
  "\<exists>es c pre m post.
     conn_run \<lparr>env_platform = documented_platform, env_garbage = replicate 64 2, env_cookie = ''c''\<rparr>
       (start_handshake_as_B 9 (create_connection None ''b@h'')) es c \<and> conn_state c = Connected \<and>
     concat (map bytes_read es) = pre @ m @ post \<and>
     proves \<lparr>env_platform = documented_platform, env_garbage = replicate 64 2, env_cookie = ''c''\<rparr> 9 m"
proof -
  let ?env = "\<lparr>env_platform = documented_platform, env_garbage = replicate 64 2, env_cookie = ''c''\<rparr>"
  let ?c0 = "start_handshake_as_B 9 (create_connection None ''b@h'')"
  obtain es c where run: "conn_run ?env ?c0 es c" "conn_state c = Connected"
    using honest_exchange [OF doc.spirit_axioms, of "replicate 64 2" "replicate 64 2" "''a@h''" "''b@h''" "''c''" 7 "''b''" 9]
    by auto
  have "\<exists>pre m post. concat (map bytes_read es) = pre @ m @ post \<and> proves ?env 9 m"
    by (rule connected_is_authenticated [OF _ _ run])
      (simp_all add: doc.spirit_axioms handshake_start_def, blast)
  with run show ?thesis by blast
qed

text \<open>In every run at most one read is outstanding, which the single read buffer of a connection
  relies on, and the lexer for connected nodes is in use exactly in the connected state.\<close>

theorem one_read_outstanding:
  assumes "handshake_start env challenge c0" and "conn_run env c0 es c"
  shows "length (pending_reads c) \<le> 1 \<and> (current_lexer c = Connected_msgs \<longleftrightarrow> conn_state c = Connected)"
  using run_one_at_a_time [OF assms(2) start_one_at_a_time [OF assms(1)]]
  by (auto simp: one_at_a_time_def shaking_def talking_def)

theorem one_read_outstanding_witness:
  "length (pending_reads (start_handshake_as_B 9 (create_connection None ''b@h''))) \<le> 1 \<and>
   (current_lexer (start_handshake_as_B 9 (create_connection None ''b@h'')) = Connected_msgs \<longleftrightarrow>
    conn_state (start_handshake_as_B 9 (create_connection None ''b@h'')) = Connected)"
  by (rule one_read_outstanding [of "\<lparr>env_platform = documented_platform, env_garbage = [], env_cookie = ''c''\<rparr>" 9, OF _ conn_run.start])
    (auto simp: handshake_start_def)

text \<open>C33. A handshake message that cannot be parsed ends the handshake without a result: whatever
  state the connection is in, the exception leaves it with nothing under way, and it never
  reports success or failure afterwards. For the node that accepts connections this is also
  the end of accepting, since the report is what triggers the next accept.\<close>

theorem malformed_message_kills_handshake:
  assumes "spirit (env_platform env)" and "conn_state c \<noteq> Connected" and "handshake_msgs c = new_lexer"
    and "pending_reads c = [(cb, Handshake_msgs)]" and "\<not> write_in_flight c"
    and "read_msg_size_handshake (env_platform env) m = Some (length m)" and "m \<noteq> []"
    and "cb = Name_read \<and> parse m (send_name_p (env_platform env)) = Inl err \<or>
         cb = Status_read \<and> parse m (receive_status (env_platform env)) = Inl err \<or>
         cb = Challenge_read \<and> parse m (recv_challenge (env_platform env)) = Inl err \<or>
         cb = Reply_received \<and> parse m (challenge_reply_p (env_platform env)) = Inl err \<or>
         cb = Challenge_ack_read \<and> parse m (recv_challenge_ack_p (env_platform env)) = Inl err"
  shows "\<exists>c'. checked_read env cb Handshake_msgs (Inr m) (c\<lparr>pending_reads := []\<rparr>) = Some (c', Some err) \<and>
    (\<forall>es c''. conn_run env c' es c'' \<longrightarrow> signals c'' = signals c \<and> conn_state c'' \<noteq> Connected)"
proof -
  let ?c = "c\<lparr>pending_reads := [], handshake_msgs := new_lexer\<rparr>"
  have "checked_read env cb Handshake_msgs (Inr m) (c\<lparr>pending_reads := []\<rparr>) = Some (?c, Some err)"
    using read_one_message [OF assms(1) _ assms(6,7), of "c\<lparr>pending_reads := []\<rparr>" cb] assms(3,8)
    by (auto simp: name_read_def status_read_def challenge_read_def reply_received_def challenge_ack_read_def
        parse_next_def pop_message_def next_message_def new_lexer_def)
  moreover have "dead ?c" using assms(2,5) by (simp add: dead_def)
  ultimately show ?thesis using dead_run [of env ?c] assms(2) by fastforce
qed

theorem malformed_message_kills_handshake_witness:
  "\<exists>c'. checked_read \<lparr>env_platform = documented_platform, env_garbage = [], env_cookie = ''c''\<rparr> Name_read Handshake_msgs
      (Inr [0, 1, 0]) ((start_handshake_as_B 9 (create_connection None ''b@h''))\<lparr>pending_reads := []\<rparr>) =
      Some (c', Some (Tinch_pp_exception ''Parse failure!'')) \<and>
    (\<forall>es c''. conn_run \<lparr>env_platform = documented_platform, env_garbage = [], env_cookie = ''c''\<rparr> c' es c'' \<longrightarrow>
       signals c'' = signals (start_handshake_as_B 9 (create_connection None ''b@h'')) \<and> conn_state c'' \<noteq> Connected)"
  by (rule malformed_message_kills_handshake)
    (simp_all add: doc.spirit_axioms start_handshake_as_B_def Let_def create_connection_def trigger_defs
      doc.handshake_size_Cons be16_def parse_def send_name_p_def)

text \<open>The originator that receives an acknowledgement with the wrong digest throws and reports
  nothing: its connection has nothing under way any more, and the thread that waits for
  the result of the handshake waits for ever.\<close>

theorem wrong_ack_never_reported:
  assumes "spirit (env_platform env)" and "conn_state c = Receiving_challenge_ack" and "handshake_msgs c = new_lexer"
    and "pending_reads c = [(Challenge_ack_read, Handshake_msgs)]" and "\<not> write_in_flight c"
    and "generate (send_challenge_ack_g (env_platform env)) digest = Inr m" and "length digest = 16"
    and "digest \<noteq> digest_of env (own_challenge c)"
  shows "\<exists>c' e. checked_read env Challenge_ack_read Handshake_msgs (Inr m) (c\<lparr>pending_reads := []\<rparr>) = Some (c', Some e) \<and>
    (\<forall>es c''. conn_run env c' es c'' \<longrightarrow> signals c'' = signals c \<and> conn_state c'' \<noteq> Connected)"
proof -
  let ?c = "c\<lparr>pending_reads := [], handshake_msgs := new_lexer\<rparr>"
  have m: "read_msg_size_handshake (env_platform env) m = Some (length m)" "m \<noteq> []"
    "parse m (recv_challenge_ack_p (env_platform env)) = Inr digest"
    using spirit.ack_roundtrip [OF assms(1,7)] assms(6) spirit.handshake_lengths(5) [OF assms(1,6)] by auto
  have "checked_read env Challenge_ack_read Handshake_msgs (Inr m) (c\<lparr>pending_reads := []\<rparr>) =
      Some (?c, Some (Tinch_pp_exception ''Handshake failure with remote node - check your cookies!''))"
    using read_one_message [OF assms(1) _ m(1,2), of "c\<lparr>pending_reads := []\<rparr>" Challenge_ack_read] assms(3,8) m(3)
    by (simp add: challenge_ack_read_def parse_one_message)
  moreover have "dead ?c" using assms(2,5) by (simp add: dead_def)
  ultimately show ?thesis using dead_run [of env ?c] assms(2) by fastforce
qed

lemma map_successor: "xs \<noteq> [] \<Longrightarrow> map (\<lambda>b. b + 1) xs \<noteq> (xs :: byte list)"
  by (cases xs) simp_all

theorem wrong_ack_never_reported_witness:
  "\<exists>m c' e. generate (send_challenge_ack_g documented_platform)
        (map (\<lambda>b. b + 1) (digest_of \<lparr>env_platform = documented_platform, env_garbage = replicate 64 0, env_cookie = ''c''\<rparr> 0)) = Inr m \<and>
    checked_read \<lparr>env_platform = documented_platform, env_garbage = replicate 64 0, env_cookie = ''c''\<rparr>
      Challenge_ack_read Handshake_msgs (Inr m)
      ((to_receiving_challenge_ack (create_connection (Some ''b'') ''a@h''))\<lparr>pending_reads := []\<rparr>) = Some (c', Some e) \<and>
    (\<forall>es c''. conn_run \<lparr>env_platform = documented_platform, env_garbage = replicate 64 0, env_cookie = ''c''\<rparr> c' es c'' \<longrightarrow>
       signals c'' = signals (to_receiving_challenge_ack (create_connection (Some ''b'') ''a@h'')) \<and> conn_state c'' \<noteq> Connected)"
proof -
  let ?env = "\<lparr>env_platform = documented_platform, env_garbage = replicate 64 0, env_cookie = ''c''\<rparr>"
  let ?c = "(to_receiving_challenge_ack (create_connection (Some ''b'') ''a@h''))"
  let ?d = "map (\<lambda>b. b + 1) (digest_of ?env 0)"
  have "digest_of ?env 0 \<noteq> []" using digest_of_length [of ?env 0] by force
  then have d: "?d \<noteq> digest_of ?env 0" "length ?d = 16"
    by (rule map_successor, simp)
  then obtain m where m: "generate (send_challenge_ack_g documented_platform) ?d = Inr m"
    using doc.ack_roundtrip [of ?d] by auto
  have c: "own_challenge ?c = 0" "conn_state ?c = Receiving_challenge_ack" "handshake_msgs ?c = new_lexer"
    "pending_reads ?c = [(Challenge_ack_read, Handshake_msgs)]" "\<not> write_in_flight ?c"
    by (simp_all add: to_receiving_challenge_ack_def create_connection_def trigger_defs)
  have "\<exists>c' e. checked_read ?env Challenge_ack_read Handshake_msgs (Inr m) (?c\<lparr>pending_reads := []\<rparr>) = Some (c', Some e) \<and>
    (\<forall>es c''. conn_run ?env c' es c'' \<longrightarrow> signals c'' = signals ?c \<and> conn_state c'' \<noteq> Connected)"
    by (rule wrong_ack_never_reported [OF _ c(2-5), of _ ?d]) (use m d c(1) in \<open>simp_all add: doc.spirit_axioms\<close>)
  with m show ?thesis by blast
qed

lemma cut_after_message:
  assumes "framing rms" and "rms m = Some (length m)" and "m \<noteq> []" and "cut rms extra ms r"
  shows "cut rms (m @ extra) (m # ms) r"
  using cut.message [of rms "m @ extra" "length m" ms r] framing.size_stable [OF assms(1,2)] assms(4) by simp

text \<open>Bytes that arrive together with the last message of the handshake are lost: the originator
  that reads the acknowledgement followed by more bytes becomes connected with an empty
  lexer for the connected state; the bytes stay in the lexer of the handshake, which is
  never read again.\<close>

theorem early_bytes_are_lost:
  assumes "spirit (env_platform env)" and "conn_state c = Receiving_challenge_ack" and "handshake_msgs c = new_lexer"
    and "connected_msgs c = new_lexer" and "generate (send_challenge_ack_g (env_platform env)) (digest_of env (own_challenge c)) = Inr m"
  shows "\<exists>c'. checked_read env Challenge_ack_read Handshake_msgs (Inr (m @ extra)) (c\<lparr>pending_reads := []\<rparr>) = Some (c', None) \<and>
    conn_state c' = Connected \<and> connected_msgs c' = new_lexer \<and>
    pending_reads c' = [(Msg_received, Connected_msgs)] \<and>
    concat (msgs (handshake_msgs c')) @ incomplete (handshake_msgs c') = extra"
proof -
  let ?rms = "read_msg_size_handshake (env_platform env)"
  have m: "?rms m = Some (length m)" "m \<noteq> []"
    "parse m (recv_challenge_ack_p (env_platform env)) = Inr (digest_of env (own_challenge c))"
    using spirit.ack_roundtrip [OF assms(1) digest_of_length [of env "own_challenge c"]] assms(5) spirit.handshake_lengths(5) [OF assms(1,5)] by auto
  obtain ms r where cut: "cut ?rms extra ms r" using spirit.handshake_total [OF assms(1)] by blast
  have "add ?rms new_lexer (m @ extra) = Some (Inr (True, \<lparr>incomplete = r, msgs = m # ms\<rparr>))"
    using framing.add_refines [OF spirit.handshake_framing [OF assms(1)], of new_lexer "m @ extra"]
      cut_after_message [OF spirit.handshake_framing [OF assms(1)] m(1,2) cut]
    by (fastforce simp: new_lexer_def)
  then have "checked_read env Challenge_ack_read Handshake_msgs (Inr (m @ extra)) (c\<lparr>pending_reads := []\<rparr>) =
      Some (make_transition_to_connected
        (c\<lparr>pending_reads := [], handshake_msgs := \<lparr>incomplete = r, msgs = ms\<rparr>\<rparr>), None)"
    using assms(3) m(3)
    by (simp add: checked_read_def lexer_add_def challenge_ack_read_def parse_next_def pop_message_def next_message_def)
  then show ?thesis using assms(4) cut_conserves [OF cut] by (simp add: state_defs trigger_defs)
qed

theorem early_bytes_are_lost_witness:
  "\<exists>m c'. generate (send_challenge_ack_g documented_platform) (digest_of \<lparr>env_platform = documented_platform, env_garbage = replicate 64 0, env_cookie = ''c''\<rparr> 0) = Inr m \<and>
    checked_read \<lparr>env_platform = documented_platform, env_garbage = replicate 64 0, env_cookie = ''c''\<rparr> Challenge_ack_read Handshake_msgs (Inr (m @ [0, 0, 0, 0]))
      ((to_receiving_challenge_ack (create_connection (Some ''b'') ''a@h''))\<lparr>pending_reads := []\<rparr>) = Some (c', None) \<and>
    conn_state c' = Connected \<and> connected_msgs c' = new_lexer \<and>
    pending_reads c' = [(Msg_received, Connected_msgs)] \<and>
    concat (msgs (handshake_msgs c')) @ incomplete (handshake_msgs c') = [0, 0, 0, 0]"
proof -
  let ?env = "\<lparr>env_platform = documented_platform, env_garbage = replicate 64 0, env_cookie = ''c''\<rparr>"
  let ?c = "(to_receiving_challenge_ack (create_connection (Some ''b'') ''a@h''))"
  obtain m where m: "generate (send_challenge_ack_g documented_platform) (digest_of ?env 0) = Inr m"
    using doc.ack_roundtrip [OF digest_of_length] by blast
  have c: "own_challenge ?c = 0" "conn_state ?c = Receiving_challenge_ack" "handshake_msgs ?c = new_lexer"
    "connected_msgs ?c = new_lexer"
    by (simp_all add: to_receiving_challenge_ack_def create_connection_def trigger_defs)
  have "\<exists>c'. checked_read ?env Challenge_ack_read Handshake_msgs (Inr (m @ [0, 0, 0, 0])) (?c\<lparr>pending_reads := []\<rparr>) =
      Some (c', None) \<and>
    conn_state c' = Connected \<and> connected_msgs c' = new_lexer \<and>
    pending_reads c' = [(Msg_received, Connected_msgs)] \<and>
    concat (msgs (handshake_msgs c')) @ incomplete (handshake_msgs c') = [0, 0, 0, 0]"
    by (rule early_bytes_are_lost [OF _ c(2-4)]) (use m c(1) in \<open>simp_all add: doc.spirit_axioms\<close>)
  with m show ?thesis by blast
qed

text \<open>The peer's version is compared with its capability flags: a name message with version \<open>v\<close> and
  flags \<open>f\<close> is accepted exactly if \<open>v\<close> is at most 5 and \<open>f\<close>, read as a signed number, is at least
  5. A node that sets the highest flag is refused, whatever its version.\<close>

theorem version_check_uses_flags:
  assumes "spirit (env_platform env)" and "name \<noteq> []" and "handshake_msgs c = \<lparr>incomplete = [], msgs = [msg]\<rparr>"
    and "msg = be16_bytes sz @ [byte_n] @ be16_bytes v @ be32_bytes f @ bytes_of name"
  shows "if uint v \<le> 5 \<and> 5 \<le> sint f
    then conn_state (fst (name_read env Handshake_msgs c)) = Sending_status \<and>
         peer_name (fst (name_read env Handshake_msgs c)) = Some name
    else name_read env Handshake_msgs c = (report_failure (c\<lparr>handshake_msgs := new_lexer\<rparr>), None)"
proof -
  have "parse msg (send_name_p (env_platform env)) = Inr \<lparr>version0 = uint v, version1 = sint f, sent_name = name\<rparr>"
    using assms(2,4) spirit.primitives [OF assms(1)]
    by (simp add: parse_def send_name_p_def spirit.qi_big_word_be16 [OF assms(1)] spirit.qi_big_dword_be32 [OF assms(1)]
        spirit.qi_byte_lit_Cons [OF assms(1)] spirit.qi_plus_char [OF assms(1)])
  then have "name_read env Handshake_msgs c = (if uint v \<le> 5 \<and> 5 \<le> sint f
      then to_sending_status env (got_peer_name name (c\<lparr>handshake_msgs := new_lexer\<rparr>))
      else (report_failure (c\<lparr>handshake_msgs := new_lexer\<rparr>), None))"
    using assms(3) by (simp add: name_read_def parse_one_message supported_def)
  then show ?thesis
    by (simp add: to_sending_status_def send_status_def send_challenge_def write_generated_def generate_def
        receive_status_g_def send_challenge_g_def got_peer_name_def trigger_defs)
qed

theorem version_check_uses_flags_witness:
  "name_read \<lparr>env_platform = documented_platform, env_garbage = replicate 64 0, env_cookie = ''c''\<rparr> Handshake_msgs ((create_connection None ''b@h'')\<lparr>handshake_msgs := \<lparr>incomplete = [], msgs = [[0, 8, 110, 0, 5, 128, 0, 5, 4, 97]]\<rparr>\<rparr>) = (report_failure (((create_connection None ''b@h'')\<lparr>handshake_msgs := \<lparr>incomplete = [], msgs = [[0, 8, 110, 0, 5, 128, 0, 5, 4, 97]]\<rparr>\<rparr>)\<lparr>handshake_msgs := new_lexer\<rparr>), None)"
proof -
  have "if uint (5 :: u16) \<le> 5 \<and> 5 \<le> sint (0x80000504 :: u32)
    then conn_state (fst (name_read \<lparr>env_platform = documented_platform, env_garbage = replicate 64 0, env_cookie = ''c''\<rparr> Handshake_msgs ((create_connection None ''b@h'')\<lparr>handshake_msgs := \<lparr>incomplete = [], msgs = [[0, 8, 110, 0, 5, 128, 0, 5, 4, 97]]\<rparr>\<rparr>))) = Sending_status \<and>
         peer_name (fst (name_read \<lparr>env_platform = documented_platform, env_garbage = replicate 64 0, env_cookie = ''c''\<rparr> Handshake_msgs ((create_connection None ''b@h'')\<lparr>handshake_msgs := \<lparr>incomplete = [], msgs = [[0, 8, 110, 0, 5, 128, 0, 5, 4, 97]]\<rparr>\<rparr>))) = Some ''a''
    else name_read \<lparr>env_platform = documented_platform, env_garbage = replicate 64 0, env_cookie = ''c''\<rparr> Handshake_msgs ((create_connection None ''b@h'')\<lparr>handshake_msgs := \<lparr>incomplete = [], msgs = [[0, 8, 110, 0, 5, 128, 0, 5, 4, 97]]\<rparr>\<rparr>) = (report_failure (((create_connection None ''b@h'')\<lparr>handshake_msgs := \<lparr>incomplete = [], msgs = [[0, 8, 110, 0, 5, 128, 0, 5, 4, 97]]\<rparr>\<rparr>)\<lparr>handshake_msgs := new_lexer\<rparr>), None)"
    by (rule version_check_uses_flags [of _ _ _ "[0, 8, 110, 0, 5, 128, 0, 5, 4, 97]" 8])
      (simp_all add: doc.spirit_axioms be16_bytes_def be32_bytes_def bytes_of_def byte_of_def)
  then show ?thesis by simp
qed

section \<open>Properties of a connected node\<close>

lemma command_is_no_tick: "spirit pf \<Longrightarrow> \<not> is_tick (execute_connected pf c)"
  using spirit.execute_connected_eq [of pf c]
  by (auto simp: is_tick_def command_body_def add_message_header_def dest: arg_cong [of _ _ length])

lemma framed_commands:
  assumes "spirit pf" and "\<forall>c\<in>set cmds. length (command_body pf c) < 2 ^ 32 - 4"
  shows "cut (read_msg_size_connected pf) (concat (map (execute_connected pf) cmds)) (map (execute_connected pf) cmds) []"
  using framing.cut_concat [OF spirit.connected_framing [OF assms(1)], of "map (execute_connected pf) cmds" "[]"]
    framing.size_Nil [OF spirit.connected_framing [OF assms(1)]] assms(2)
  by (simp add: spirit.command_framed [OF assms(1)])

text \<open>C36. One message per read, on platforms whose \<open>char\<close> is unsigned: however many commands a read completes, and however many wait from
  earlier reads, the connected state handles exactly the oldest one and then waits for more
  bytes; the others stay in the lexer until the peer sends again.\<close>

theorem one_message_per_read:
  assumes "spirit (env_platform env)" and "\<not> char_is_signed (env_platform env)" and "talking 0 c"
    and "connected_msgs c = \<lparr>incomplete = [], msgs = map (execute_connected (env_platform env)) waiting\<rparr>"
    and "\<forall>cmd\<in>set (waiting @ arriving). wf_command cmd \<and> length (command_body (env_platform env) cmd) < 2 ^ 32 - 4"
    and "waiting @ arriving = first # others"
  shows "\<exists>c'. checked_read env Msg_received Connected_msgs
        (Inr (concat (map (execute_connected (env_platform env)) arriving))) c = Some (c', None) \<and>
    node_calls c' = node_calls c @ [call_of first] \<and>
    connected_msgs c' = \<lparr>incomplete = [], msgs = map (execute_connected (env_platform env)) others\<rparr> \<and>
    pending_reads c' = [(Msg_received, Connected_msgs)]"
proof -
  let ?x = "execute_connected (env_platform env)" and ?rms = "read_msg_size_connected (env_platform env)"
  have "cut ?rms (concat (map ?x arriving)) (map ?x arriving) []"
    using framed_commands [OF assms(1)] assms(5) by simp
  moreover have all: "map ?x waiting @ map ?x arriving = map ?x (first # others)" using assms(6) by (metis map_append)
  ultimately have "add ?rms (connected_msgs c) (concat (map ?x arriving)) =
      Some (Inr (True, \<lparr>incomplete = [], msgs = map ?x (first # others)\<rparr>))"
    using framing.add_refines [OF spirit.connected_framing [OF assms(1)], of "connected_msgs c"] assms(4) by fastforce
  then have "lexer_add env Connected_msgs (concat (map ?x arriving)) c =
      Some (Inr (True, c\<lparr>connected_msgs := \<lparr>incomplete = [], msgs = ?x first # map ?x others\<rparr>\<rparr>))"
    by (simp add: lexer_add_def)
  moreover have "dispatch (env_platform env) (?x first) = Inr (call_of first)"
    using spirit.dispatch_outcome [OF assms(1), of first] assms(2,5,6) by (metis list.set_intros(1))
  ultimately show ?thesis
    using command_is_no_tick [OF assms(1), of first] assms(3)
    by (simp add: checked_read_def msg_received_def pop_message_def next_message_def trigger_defs talking_def
        del: execute_connected.simps)
qed

theorem one_message_per_read_witness:
  "\<exists>c'. checked_read \<lparr>env_platform = documented_platform, env_garbage = replicate 64 0, env_cookie = ''c''\<rparr> Msg_received Connected_msgs
        (Inr (concat (map (execute_connected documented_platform) [Control_msg_link default_e_pid default_e_pid, Control_msg_unlink default_e_pid default_e_pid]))) ((create_connection None ''b@h'')\<lparr>conn_state := Connected, current_lexer := Connected_msgs\<rparr>) = Some (c', None) \<and>
    node_calls c' = node_calls ((create_connection None ''b@h'')\<lparr>conn_state := Connected, current_lexer := Connected_msgs\<rparr>) @ [call_of (Control_msg_link default_e_pid default_e_pid)] \<and>
    connected_msgs c' = \<lparr>incomplete = [], msgs = map (execute_connected documented_platform) [Control_msg_unlink default_e_pid default_e_pid]\<rparr> \<and>
    pending_reads c' = [(Msg_received, Connected_msgs)]"
proof -
  have p: "env_platform \<lparr>env_platform = documented_platform, env_garbage = replicate 64 0, env_cookie = ''c''\<rparr> = documented_platform" by simp
  show ?thesis
    by (rule one_message_per_read [of "\<lparr>env_platform = documented_platform, env_garbage = replicate 64 0, env_cookie = ''c''\<rparr>" "(create_connection None ''b@h'')\<lparr>conn_state := Connected, current_lexer := Connected_msgs\<rparr>" "[]" "[Control_msg_link default_e_pid default_e_pid, Control_msg_unlink default_e_pid default_e_pid]", unfolded p])
      (simp_all add: doc.spirit_axioms talking_def create_connection_def new_lexer_def wf_pid_def wf_atom_def
        default_e_pid_def command_body_def add_message_header_def ctrl_int_def grammar_defs serialize_int_def)
qed

section \<open>Properties of the writes\<close>

text \<open>Messages that are given to a connection, and completions of the write in flight.\<close>

fun write_op :: "msg_seq option \<Rightarrow> node_connection \<Rightarrow> node_connection" where
  "write_op (Some msg) c = trigger_checked_write msg Ignore_write_notification c"
| "write_op None c = (if write_in_flight c then fst (checked_write None c) else c)"

fun requested_of :: "msg_seq option \<Rightarrow> msg_seq list" where
  "requested_of (Some msg) = [msg]" | "requested_of None = []"

definition write_inv :: "msg_seq list \<Rightarrow> node_connection \<Rightarrow> bool" where
  "write_inv requested c \<longleftrightarrow>
     started_writes c @ map fst (tl (write_queue c)) = requested \<and>
     (write_in_flight c \<longleftrightarrow> write_queue c \<noteq> []) \<and>
     (\<forall>w\<in>set (write_queue c). snd w = Ignore_write_notification)"

lemma write_op_inv:
  assumes "write_inv requested c"
  shows "write_inv (requested @ requested_of x) (write_op x c)"
proof (cases x)
  case (Some m)
  then show ?thesis using assms by (cases "write_queue c") (auto simp: write_inv_def trigger_defs)
next
  case None
  show ?thesis
  proof (cases "write_queue c")
    case Nil
    then show ?thesis using assms None by (simp add: write_inv_def)
  next
    case (Cons w queue)
    then show ?thesis using assms None
      by (cases w; cases queue) (auto simp: write_inv_def checked_write_def Let_def async_write_front_def)
  qed
qed

lemma write_ops_inv:
  "write_inv requested c \<Longrightarrow> write_inv (requested @ concat (map requested_of xs)) (fold write_op xs c)"
proof (induction xs arbitrary: requested c)
  case (Cons x xs)
  then show ?case using write_op_inv [OF Cons.prems, of x] by fastforce
qed simp

text \<open>The messages of a connection reach the socket in the order in which they were given to it,
  each of them once and one at a time: those handed to \<open>async_write\<close>, followed by those still
  in the queue behind the one that is being written, are the messages given, in order, and a
  write is in flight exactly while the queue is not empty.\<close>

theorem writes_in_order:
  "started_writes (fold write_op xs (create_connection peer name)) @
     map fst (tl (write_queue (fold write_op xs (create_connection peer name)))) = concat (map requested_of xs) \<and>
   (write_in_flight (fold write_op xs (create_connection peer name)) \<longleftrightarrow>
      write_queue (fold write_op xs (create_connection peer name)) \<noteq> [])"
proof -
  have "write_inv [] (create_connection peer name)" by (simp add: write_inv_def create_connection_def)
  from write_ops_inv [OF this, of xs] show ?thesis by (simp add: write_inv_def)
qed

text \<open>After a failed write a connection never writes again: the failed message stays at the front
  of the queue, so that every later message is taken to wait for it. Whatever happens next,
  nothing more is handed to the socket.\<close>

theorem failed_write_wedges:
  assumes "write_queue c \<noteq> []" and "checked_write (Some err) c = (c', e)" and "conn_run env c' es c''"
  shows "started_writes c'' = started_writes c"
proof -
  have "wedged c'" "started_writes c' = started_writes c"
    using assms(1,2) by (auto simp: checked_write_def Let_def handle_io_error_def report_failure_def wedged_def
        split: list.splits if_splits)
  then show ?thesis using stays_wedged_run [OF assms(3)] by (simp add: stays_wedged_def)
qed

theorem failed_write_wedges_witness:
  "started_writes (request \<lparr>env_platform = documented_platform, env_garbage = replicate 64 0, env_cookie = ''c''\<rparr> (Control_msg_link default_e_pid default_e_pid) (fst (checked_write (Some ''e'') (trigger_checked_write [1] Ignore_write_notification ((create_connection None ''b@h'')\<lparr>conn_state := Connected, current_lexer := Connected_msgs\<rparr>))))) =
   started_writes (trigger_checked_write [1] Ignore_write_notification ((create_connection None ''b@h'')\<lparr>conn_state := Connected, current_lexer := Connected_msgs\<rparr>))"
proof -
  let ?c = "trigger_checked_write [1] Ignore_write_notification ((create_connection None ''b@h'')\<lparr>conn_state := Connected, current_lexer := Connected_msgs\<rparr>)"
  let ?c' = "fst (checked_write (Some ''e'') ?c)"
  have "conn_run \<lparr>env_platform = documented_platform, env_garbage = replicate 64 0, env_cookie = ''c''\<rparr> ?c' ([] @ [Request (Control_msg_link default_e_pid default_e_pid)]) (request \<lparr>env_platform = documented_platform, env_garbage = replicate 64 0, env_cookie = ''c''\<rparr> (Control_msg_link default_e_pid default_e_pid) ?c')"
    by (rule conn_run.snoc [OF conn_run.start conn_step.requested])
  from failed_write_wedges [OF _ _ this, of ?c "''e''" "snd (checked_write (Some ''e'') ?c)"]
  show ?thesis by simp
qed

end
