(* ===== verification/Epmd.thy ===== *)
theory Epmd
  imports Handshake_Grammar
begin

text \<open>
  The client of the port mapper daemon: the messages of \<open>impl/epmd_protocol.h\<close> and the requests
  of \<open>impl/epmd_requestor.cpp\<close>, with \<open>connect_socket\<close> of \<open>impl/utils.cpp\<close>. What the sockets do is an argument of
  the requests: which of the resolved addresses accepts a connection, the outcome of writing, and of the one call of \<open>read_some\<close>. The reader's buffer has a fixed size
  and is filled with zeros beforehand, and how many bytes were read is not looked at.
\<close>

section \<open>Protocol\<close>

record alive2_req_params =
  msg_length :: nat
  alive_name :: string
  node_name_length :: nat
  alive_port :: int

definition make_alive2_req_params :: "string \<Rightarrow> int \<Rightarrow> alive2_req_params" where
  "make_alive2_req_params a_node_name a_port =
     \<lparr>msg_length = 13 + length a_node_name, alive_name = a_node_name, node_name_length = length a_node_name,
      alive_port = a_port\<rparr>"

definition alive2_req_g :: "platform \<Rightarrow> alive2_req_params \<Rightarrow> msg_seq option" where
  "alive2_req_g pf p =
     Some (karma_big_word pf (of_nat (msg_length p)) @ karma_byte pf 120 @
       karma_big_word pf (word_of_int (alive_port p)) @ karma_byte pf 72 @ karma_byte pf 0 @
       karma_big_word pf 5 @ karma_big_word pf 5 @
       karma_big_word pf (of_nat (node_name_length p)) @ karma_many (karma_char pf) (alive_name p) @
       karma_big_word pf 0)"

record alive2_resp_result =
  alive_result :: int
  alive_creation :: u16

definition alive2_resp :: "platform \<Rightarrow> alive2_resp_result parser" where
  "alive2_resp pf s =
     do { (_, s) \<leftarrow> qi_byte_lit pf 121 s;
          (r, s) \<leftarrow> qi_byte pf s;
          (c, s) \<leftarrow> qi_big_word pf s;
          Some (\<lparr>alive_result = uint r, alive_creation = c\<rparr>, s) }"

definition port2_resp_result :: "platform \<Rightarrow> int parser" where
  "port2_resp_result pf s =
     do { (_, s) \<leftarrow> qi_byte_lit pf 119 s; (r, s) \<leftarrow> qi_byte pf s; Some (uint r, s) }"

text \<open>\<open>omit[port2_resp_result] >> big_word\<close>.\<close>

definition port2_resp_port :: "platform \<Rightarrow> int parser" where
  "port2_resp_port pf s =
     do { (_, s) \<leftarrow> port2_resp_result pf s; (p, s) \<leftarrow> qi_big_word pf s; Some (uint p, s) }"

section \<open>Connecting\<close>

text \<open>
  What the resolver answers is a list of endpoints, of which each accepts the connection or not; a host that cannot be
  resolved is a failure of the resolver. The loop ends with the error of the last attempt, which is
  \<open>host_not_found\<close> before the first one.
\<close>

fun connect_endpoints :: "bool \<Rightarrow> bool list \<Rightarrow> bool" where
  "connect_endpoints error [] = error"
| "connect_endpoints error (accepts # endpoints) = (if error then connect_endpoints (\<not> accepts) endpoints else error)"

definition connect_socket :: "platform \<Rightarrow> bool list result \<Rightarrow> string \<Rightarrow> int \<Rightarrow> unit result" where
  "connect_socket pf resolved host port =
     and_then resolved (\<lambda>endpoints.
       if connect_endpoints True endpoints
       then Inl (Tinch_pp_exception (''Failed to connect to host = '' @ host @ '', port = '' @ lexical_cast pf port))
       else Inr ())"

lemma connect_endpoints_iff: "connect_endpoints e es \<longleftrightarrow> e \<and> True \<notin> set es"
  by (induction e es rule: connect_endpoints.induct) auto

lemma connect_socket_iff: "connect_socket pf resolved host port = Inr () \<longleftrightarrow> (\<exists>es. resolved = Inr es \<and> True \<in> set es)"
  by (auto simp: connect_socket_def connect_endpoints_iff chain)

section \<open>Requests\<close>

text \<open>A socket, seen from a request: what it connects to, whether the write succeeds, what is read.\<close>

record epmd_socket =
  sock_endpoints :: "bool list result"
  sock_write_error :: bool
  sock_read :: "msg_seq option"

definition read_some :: "nat \<Rightarrow> msg_seq \<Rightarrow> msg_seq" where
  "read_some n data = take n data @ replicate (n - length data) 0"

definition send_to_epmd :: "epmd_socket \<Rightarrow> msg_seq \<Rightarrow> unit result" where
  "send_to_epmd sock msg =
     (if sock_write_error sock then Inl (Tinch_pp_exception ''Write failure to EPMD: '') else Inr ())"

definition alive2_req :: "platform \<Rightarrow> string \<Rightarrow> int \<Rightarrow> msg_seq result" where
  "alive2_req pf node port = generate (alive2_req_g pf) (make_alive2_req_params node port)"

definition receive_alive_response :: "platform \<Rightarrow> epmd_socket \<Rightarrow> int result" where
  "receive_alive_response pf sock =
     (case sock_read sock of
        None \<Rightarrow> Inl (Tinch_pp_exception ''Failed to read ALIVE2_RESP from EPMD'')
      | Some data \<Rightarrow>
          and_then (parse (read_some 16 data) (alive2_resp pf)) (\<lambda>response.
            if alive_result response \<noteq> 0
            then Inl (Tinch_pp_exception (''Failed to register node at EPMD, result = '' @
                   lexical_cast pf (alive_result response)))
            else Inr (uint (alive_creation response))))"

definition port_please2_req :: "platform \<Rightarrow> string \<Rightarrow> msg_seq result" where
  "port_please2_req pf peer_node =
     generate (\<lambda>name. Some (karma_big_word pf (of_nat (1 + length peer_node)) @ karma_byte pf 122 @
       karma_many (karma_char pf) name)) peer_node"

definition receive_port_resp :: "platform \<Rightarrow> epmd_socket \<Rightarrow> string \<Rightarrow> int result" where
  "receive_port_resp pf sock peer_node =
     (case sock_read sock of
        None \<Rightarrow> Inl (Tinch_pp_exception ''Failed to read PORT2_RESP from EPMD'')
      | Some data \<Rightarrow>
          and_then (parse (read_some 128 data) (port2_resp_result pf)) (\<lambda>result.
            if result \<noteq> 0
            then Inl (Tinch_pp_exception (''EPMD denies the port number for the node = '' @ peer_node @
                   ''. Connection aborted.''))
            else parse (read_some 128 data) (port2_resp_port pf)))"

definition alive2_request :: "platform \<Rightarrow> epmd_socket \<Rightarrow> string \<Rightarrow> int \<Rightarrow> int result" where
  "alive2_request pf sock node incoming_connections =
     and_then (alive2_req pf node incoming_connections) (\<lambda>msg.
     and_then (send_to_epmd sock msg) (\<lambda>_. receive_alive_response pf sock))"

text \<open>The host of a requestor is an argument; its port is always 4369.\<close>

definition epmd_connect :: "platform \<Rightarrow> string \<Rightarrow> epmd_socket \<Rightarrow> unit result" where
  "epmd_connect pf epmd_host sock = connect_socket pf (sock_endpoints sock) epmd_host 4369"

definition port_please2_request :: "platform \<Rightarrow> string \<Rightarrow> epmd_socket \<Rightarrow> string \<Rightarrow> int result" where
  "port_please2_request pf epmd_host sock peer_node =
     and_then (connect_socket pf (sock_endpoints sock) epmd_host 4369) (\<lambda>_.
     and_then (port_please2_req pf peer_node) (\<lambda>msg.
     and_then (send_to_epmd sock msg) (\<lambda>_. receive_port_resp pf sock peer_node)))"

lemmas epmd_defs =
  alive2_request_def alive2_req_def alive2_req_g_def make_alive2_req_params_def send_to_epmd_def
  receive_alive_response_def alive2_resp_def port_please2_request_def port_please2_req_def
  receive_port_resp_def port2_resp_result_def port2_resp_port_def parse_def generate_def

section \<open>Layout and answers\<close>

context spirit
begin

lemma alive2_req_layout:
  "alive2_req pf node port =
     Inr (be16_bytes (of_nat (length node + 13)) @ 120 # be16_bytes (word_of_int port) @ [72, 0] @
       be16_bytes 5 @ be16_bytes 5 @ be16_bytes (of_nat (length node)) @ bytes_of node @ be16_bytes 0)"
  by (simp add: epmd_defs add.commute)

lemma port_please2_req_layout:
  "port_please2_req pf peer = Inr (be16_bytes (of_nat (length peer + 1)) @ 122 # bytes_of peer)"
  by (simp add: epmd_defs)

lemma port_answer:
  assumes "sock_endpoints sock = Inr es" and "True \<in> set es" and "\<not> sock_write_error sock"
    and "sock_read sock = Some (119 # r # be16_bytes port @ extra)"
  shows "port_please2_request pf host sock peer =
    (if r = 0 then Inr (uint port)
     else Inl (Tinch_pp_exception (''EPMD denies the port number for the node = '' @ peer @ ''. Connection aborted.'')))"
proof -
  have "read_some 128 (119 # r # be16_bytes port @ extra) = 119 # r # be16_bytes port @ read_some 124 extra"
    by (simp add: read_some_def be16_bytes_def)
  then show ?thesis using assms connect_socket_iff [of pf "sock_endpoints sock" host 4369]
    by (cases "r = 0") (simp_all add: epmd_defs uint_0_iff)
qed

lemma alive_answer:
  assumes "\<not> sock_write_error sock" and "sock_read sock = Some (121 # r # be16_bytes creation @ extra)"
  shows "alive2_request pf sock node p =
    (if r = 0 then Inr (uint creation)
     else Inl (Tinch_pp_exception (''Failed to register node at EPMD, result = '' @ lexical_cast pf (uint r))))"
proof -
  have "read_some 16 (121 # r # be16_bytes creation @ extra) = 121 # r # be16_bytes creation @ read_some 12 extra"
    by (simp add: read_some_def be16_bytes_def)
  then show ?thesis using assms by (cases "r = 0") (simp_all add: epmd_defs uint_0_iff)
qed

end

section \<open>Properties\<close>

text \<open>C23. The port mapper's protocol is spoken as documented. The registration is, after the length of the
  rest, the tag 120, the port, node type 72, protocol 0, the highest and the lowest distribution version 5, the name with its
  length and no extra; the request for a port is the tag 122 and the name. For a node name whose messages have a length of
  two bytes, these lengths are what follows. The answer to a registration gives the creation number, and any result but 0 is the
  exception that names it; the answer to a request for a port gives the port, or the
  refusal. The answers are those read at once: one that arrives in pieces is misread (\<open>partial_answer_misread\<close>).\<close>

theorem epmd_protocol:
  assumes "spirit pf" and "length node + 13 < 2 ^ 16"
    and "sock_endpoints sock = Inr es" and "True \<in> set es" and "\<not> sock_write_error sock"
    and "sock_read sock = Some (119 # r # be16_bytes port @ extra)"
    and "\<not> sock_write_error sock'" and "sock_read sock' = Some (121 # r' # be16_bytes creation @ extra')"
  shows "(\<exists>rest. alive2_req pf node p = Inr (be16_bytes (of_nat (length rest)) @ rest) \<and>
       rest = 120 # be16_bytes (word_of_int p) @ [72, 0] @ be16_bytes 5 @ be16_bytes 5 @
         be16_bytes (of_nat (length node)) @ bytes_of node @ be16_bytes 0 \<and>
       unat (of_nat (length rest) :: u16) = length rest) \<and>
    (\<exists>rest. port_please2_req pf node = Inr (be16_bytes (of_nat (length rest)) @ rest) \<and>
       rest = 122 # bytes_of node \<and> unat (of_nat (length rest) :: u16) = length rest) \<and>
    alive2_request pf sock' node p =
      (if r' = 0 then Inr (uint creation)
       else Inl (Tinch_pp_exception (''Failed to register node at EPMD, result = '' @ lexical_cast pf (uint r')))) \<and>
    port_please2_request pf host sock node =
      (if r = 0 then Inr (uint port)
       else Inl (Tinch_pp_exception (''EPMD denies the port number for the node = '' @ node @ ''. Connection aborted.'')))"
  using spirit.port_answer [OF assms(1,3-6)] spirit.alive_answer [OF assms(1,7,8)] assms(2)
  by (simp add: spirit.alive2_req_layout [OF assms(1)] spirit.port_please2_req_layout [OF assms(1)] unat_of_nat)
    (simp only: add.commute)

theorem epmd_protocol_witness:
  "(\<exists>rest. alive2_req documented_platform ''b'' 4000 = Inr (be16_bytes (of_nat (length rest)) @ rest) \<and>
       rest = 120 # be16_bytes (word_of_int 4000) @ [72, 0] @ be16_bytes 5 @ be16_bytes 5 @
         be16_bytes (of_nat (length ''b'')) @ bytes_of ''b'' @ be16_bytes 0 \<and>
       unat (of_nat (length rest) :: u16) = length rest) \<and>
    (\<exists>rest. port_please2_req documented_platform ''b'' = Inr (be16_bytes (of_nat (length rest)) @ rest) \<and>
       rest = 122 # bytes_of ''b'' \<and> unat (of_nat (length rest) :: u16) = length rest) \<and>
    alive2_request documented_platform
        \<lparr>sock_endpoints = Inr [True], sock_write_error = False, sock_read = Some (121 # 0 # be16_bytes 3 @ [])\<rparr> ''b'' 4000 =
      (if (0 :: byte) = 0 then Inr (uint (3 :: u16))
       else Inl (Tinch_pp_exception (''Failed to register node at EPMD, result = '' @
              lexical_cast documented_platform (uint (0 :: byte))))) \<and>
    port_please2_request documented_platform ''h''
        \<lparr>sock_endpoints = Inr [False, True], sock_write_error = False, sock_read = Some (119 # 0 # be16_bytes 4001 @ [7])\<rparr> ''b'' =
      (if (0 :: byte) = 0 then Inr (uint (4001 :: u16))
       else Inl (Tinch_pp_exception (''EPMD denies the port number for the node = '' @ ''b'' @ ''. Connection aborted.'')))"
  by (rule epmd_protocol [OF doc.spirit_axioms, where es = "[False, True]"]) simp_all

text \<open>An answer that arrives in pieces is misread: if the first read brings only the first byte of
  a PORT2 answer, the zeros of the buffer are taken for the result code, success, and for
  the port, number 0; likewise for the registration.\<close>

theorem partial_answer_misread:
  assumes "spirit pf" and "sock_endpoints sock = Inr es" and "True \<in> set es" and "\<not> sock_write_error sock"
  shows "port_please2_request pf host (sock\<lparr>sock_read := Some [119]\<rparr>) peer = Inr 0 \<and>
    alive2_request pf (sock\<lparr>sock_read := Some [121]\<rparr>) node p = Inr 0"
proof -
  have "read_some 128 [119] = 119 # 0 # be16_bytes 0 @ replicate 124 0"
    "read_some 16 [121] = 121 # 0 # be16_bytes 0 @ replicate 12 0"
    by (simp_all add: read_some_def be16_bytes_def eval_nat_numeral)
  then show ?thesis
    using assms connect_socket_iff [of pf "sock_endpoints sock" host 4369] spirit.qi_big_word_be16 [OF assms(1)] spirit.primitives [OF assms(1)] spirit.qi_byte_lit_Cons [OF assms(1)]
    by (simp add: epmd_defs)
qed

theorem partial_answer_misread_witness:
  "port_please2_request documented_platform ''h''
     (\<lparr>sock_endpoints = Inr [False, True], sock_write_error = False, sock_read = None\<rparr>\<lparr>sock_read := Some [119]\<rparr>) ''b'' = Inr 0 \<and>
   alive2_request documented_platform
     (\<lparr>sock_endpoints = Inr [False, True], sock_write_error = False, sock_read = None\<rparr>\<lparr>sock_read := Some [121]\<rparr>) ''a'' 4000 = Inr 0"
  by (rule partial_answer_misread [OF doc.spirit_axioms, where es = "[False, True]"]) simp_all

end
