(* ===== verification/Registry.thy ===== *)
theory Registry
  imports Values
begin

text \<open>
  The two containers in which a node finds its mailboxes (\<open>impl/actual_node.h\<close>): a \<open>std::map\<close> by name, which the
  connector uses for its connections as well, and a \<open>std::map\<close> by pid with the comparison of
  \<open>impl/actual_node.cpp\<close>. Both are association lists here, and both meet the interface \<open>registry\<close>, from which
  the invariants of the node take what they need.
\<close>

section \<open>What the clients rely on\<close>

locale registry =
  fixes same :: "'k \<Rightarrow> 'k \<Rightarrow> bool"
    and look :: "'k \<Rightarrow> ('k \<times> 'v) list \<Rightarrow> 'v option result"
    and add :: "'k \<Rightarrow> 'v \<Rightarrow> ('k \<times> 'v) list \<Rightarrow> ('k \<times> 'v) list result"
    and del :: "'k \<Rightarrow> ('k \<times> 'v) list \<Rightarrow> ('k \<times> 'v) list result"
  assumes look_entry: "look k m = Inr (Some v) \<Longrightarrow> \<exists>k'. same k' k \<and> (k', v) \<in> set m"
    and look_added: "\<lbrakk>look k m = Inr None; add k v m = Inr m'\<rbrakk> \<Longrightarrow> look k m' = Inr (Some v)"
    and add_known: "\<lbrakk>look k m = Inr (Some v'); add k v m = Inr m'\<rbrakk> \<Longrightarrow> m' = m"
    and add_entries: "add k v m = Inr m' \<Longrightarrow> set m' \<subseteq> insert (k, v) (set m)"
    and look_deleted: "del k m = Inr m' \<Longrightarrow> look k m' = Inr None"
    and del_entries: "del k m = Inr m' \<Longrightarrow> set m' \<subseteq> set m"
begin

text \<open>A property of the entries is kept, and holds of what is found.\<close>

lemma add_all: "\<lbrakk>add k v m = Inr m'; list_all P m; P (k, v)\<rbrakk> \<Longrightarrow> list_all P m'"
  using add_entries [of k v m m'] by (auto simp: list_all_iff)

lemma del_all: "\<lbrakk>del k m = Inr m'; list_all P m\<rbrakk> \<Longrightarrow> list_all P m'"
  using del_entries [of k m m'] by (auto simp: list_all_iff)

lemma look_all:
  assumes "look k m = Inr (Some v)" and "list_all P m"
  obtains k' where "same k' k" and "P (k', v)"
  using look_entry [OF assms(1)] assms(2) by (auto simp: list_all_iff)

text \<open>A key that has been deleted can be given to another value.\<close>

lemma look_replaced: "\<lbrakk>del k m = Inr m'; add k v m' = Inr m''\<rbrakk> \<Longrightarrow> look k m'' = Inr (Some v)"
  using look_deleted look_added by blast

end

section \<open>By name\<close>

text \<open>\<open>std::map::insert\<close> keeps the entry that is already there.\<close>

definition map_insert :: "'k \<Rightarrow> 'v \<Rightarrow> ('k \<times> 'v) list \<Rightarrow> ('k \<times> 'v) list" where
  "map_insert k v m = (if map_of m k = None then m @ [(k, v)] else m)"

definition map_erase :: "'k \<Rightarrow> ('k \<times> 'v) list \<Rightarrow> ('k \<times> 'v) list" where
  "map_erase k m = filter (\<lambda>(k', _). k' \<noteq> k) m"

lemma map_of_insert: "map_of (map_insert k v m) = (if map_of m k = None then (map_of m)(k \<mapsto> v) else map_of m)"
  by (auto simp: map_insert_def map_add_def fun_eq_iff split: option.splits)

lemma map_of_erase: "map_of (map_erase k m) = (map_of m)(k := None)"
  by (induction m) (auto simp: map_erase_def fun_eq_iff)

interpretation names: registry "(=)" "\<lambda>k m. Inr (map_of m k)" "\<lambda>k v m. Inr (map_insert k v m)" "\<lambda>k m. Inr (map_erase k m)"
  by unfold_locales (auto simp: map_of_insert map_of_erase map_of_SomeD, auto simp: map_insert_def map_erase_def split: if_splits)

section \<open>By pid\<close>

definition pid_less :: "e_pid \<Rightarrow> e_pid \<Rightarrow> bool" where
  "pid_less p1 p2 \<longleftrightarrow> id_of p1 < id_of p2 \<or> serial_of p1 < serial_of p2"

text \<open>
  A \<open>std::map\<close> with this comparison. Two keys of which each is less than the other are outside
  what the container is defined for; otherwise a key is found by equivalence, neither less than
  the other.
\<close>

definition comparable :: "e_pid list \<Rightarrow> bool" where
  "comparable ps \<longleftrightarrow> list_all (\<lambda>p. list_all (\<lambda>q. \<not> (pid_less p q \<and> pid_less q p)) ps) ps"

definition equivalent :: "e_pid \<Rightarrow> e_pid \<Rightarrow> bool" where
  "equivalent p q \<longleftrightarrow> \<not> pid_less p q \<and> \<not> pid_less q p"

definition find_pid :: "e_pid \<Rightarrow> (e_pid \<times> nat) list \<Rightarrow> nat option result" where
  "find_pid p m =
     (if comparable (p # map fst m) then Inr (map_option snd (find (\<lambda>(q, _). equivalent q p) m))
      else Inl Undefined_behaviour)"

definition erase_pid :: "e_pid \<Rightarrow> (e_pid \<times> nat) list \<Rightarrow> (e_pid \<times> nat) list result" where
  "erase_pid p m =
     (if comparable (p # map fst m) then Inr (filter (\<lambda>(q, _). \<not> equivalent q p) m)
      else Inl Undefined_behaviour)"

text \<open>The insertion, and whether the key was new.\<close>

definition insert_pid :: "e_pid \<Rightarrow> nat \<Rightarrow> (e_pid \<times> nat) list \<Rightarrow> (bool \<times> (e_pid \<times> nat) list) result" where
  "insert_pid p a m =
     and_then (find_pid p m) (\<lambda>found.
       Inr (case found of None \<Rightarrow> (True, m @ [(p, a)]) | Some _ \<Rightarrow> (False, m)))"

lemma equivalent_iff: "equivalent p q \<longleftrightarrow> id_of p = id_of q \<and> serial_of p = serial_of q"
  by (auto simp: equivalent_def pid_less_def not_less)

lemma comparable_snoc: "comparable (p # ps) \<Longrightarrow> comparable (p # ps @ [p])"
  by (auto simp: comparable_def list_all_iff)

lemma comparable_subset: "\<lbrakk>comparable ps; set qs \<subseteq> set ps\<rbrakk> \<Longrightarrow> comparable qs"
  by (auto simp: comparable_def list_all_iff)

lemma erased_not_found:
  assumes "comparable (p # map fst m)"
  shows "find_pid p (filter (\<lambda>(q, _). \<not> equivalent q p) m) = Inr None"
proof -
  have "comparable (p # map fst (filter (\<lambda>(q, _). \<not> equivalent q p) m))"
    by (rule comparable_subset [OF assms]) auto
  then show ?thesis by (auto simp: find_pid_def find_None_iff)
qed

lemma insert_find:
  assumes "insert_pid p a m = Inr (True, m')"
  shows "m' = m @ [(p, a)]" and "find_pid p m' = Inr (Some a)"
proof -
  have c: "comparable (p # map fst m)" "find (\<lambda>(q, _). equivalent q p) m = None" "m' = m @ [(p, a)]"
    using assms by (auto simp: insert_pid_def find_pid_def split: if_splits option.splits)
  then show "m' = m @ [(p, a)]" by simp
  have "find (\<lambda>(q, _). equivalent q p) (m @ [(p, a)]) = Some (p, a)"
    using c(2) by (induction m) (auto simp: equivalent_iff split: if_splits)
  then show "find_pid p m' = Inr (Some a)"
    using comparable_snoc [OF c(1)] c(3) by (simp add: find_pid_def)
qed


interpretation pids: registry equivalent find_pid "\<lambda>p a m. and_then (insert_pid p a m) (\<lambda>(_, m). Inr m)" erase_pid
proof
  fix p m and a a' :: nat and m'
  show "find_pid p m = Inr (Some a) \<Longrightarrow> \<exists>q. equivalent q p \<and> (q, a) \<in> set m"
    by (auto simp: find_pid_def find_Some_iff split: if_splits) (metis nth_mem)
  show "\<lbrakk>find_pid p m = Inr None; and_then (insert_pid p a m) (\<lambda>(_, m). Inr m) = Inr m'\<rbrakk> \<Longrightarrow> find_pid p m' = Inr (Some a)"
    using insert_find(2) [of p a m m'] by (simp add: insert_pid_def)
  show "erase_pid p m = Inr m' \<Longrightarrow> find_pid p m' = Inr None"
    using erased_not_found by (auto simp: erase_pid_def split: if_splits)
qed (auto simp: insert_pid_def erase_pid_def chain split: option.splits if_splits)

end
