(* ===== verification/Connector.thy ===== *)
theory Connector
  imports Handshake Epmd Registry "HOL-Library.List_Lexorder" "HOL-Library.Char_ord"
begin

text \<open>
  \<open>impl/node_connector.cpp\<close>: the connections of a node by the names of their peers, with the
  name splitting of \<open>impl/utils.cpp\<close>. A connection is an object that others hold pointers to, so
  the connector keeps the connections in a list and refers to them by index. What the network
  does is an argument: the answers of the port mapper, which endpoints accept a connection, and what the
  asynchronous handshake came to, \<open>None\<close> if it never signals a result. An operation that blocks for
  ever is \<open>None\<close>; one that throws returns the error and the state it leaves.
\<close>

section \<open>Node names\<close>

text \<open>The class \<open>[\w\.\-]\<close> of the regular expression.\<close>

definition char_between :: "char \<Rightarrow> char \<Rightarrow> char \<Rightarrow> bool" where
  "char_between lo hi c \<longleftrightarrow> byte_of lo \<le> byte_of c \<and> byte_of c \<le> byte_of hi"

definition word_char :: "char \<Rightarrow> bool" where
  "word_char c \<longleftrightarrow>
     char_between (CHR ''a'') (CHR ''z'') c \<or> char_between (CHR ''A'') (CHR ''Z'') c \<or>
     char_between (CHR ''0'') (CHR ''9'') c \<or> c = CHR ''_''"

definition node_char :: "char \<Rightarrow> bool" where
  "node_char c \<longleftrightarrow> word_char c \<or> c = CHR ''.'' \<or> c = CHR ''-''"

text \<open>The regular expression matches exactly one way, since its classes exclude the separator.\<close>

definition split_node_name :: "string \<Rightarrow> (string \<times> string) result" where
  "split_node_name node =
     (let name = takeWhile (\<lambda>c. c \<noteq> CHR ''@'') node;
          host = tl (dropWhile (\<lambda>c. c \<noteq> CHR ''@'') node)
      in if name \<noteq> [] \<and> list_all node_char name \<and> host \<noteq> [] \<and> list_all node_char host
         then Inr (name, host)
         else Inl (Tinch_pp_exception (''The given node = '' @ node @
                '' is invalid. Check the Erlang docs for a valid format.'')))"

definition node_name_of :: "string \<Rightarrow> string result" where
  "node_name_of node = and_then (split_node_name node) (\<lambda>(name, _). Inr name)"

definition node_host :: "string \<Rightarrow> string result" where
  "node_host node = and_then (split_node_name node) (\<lambda>(_, host). Inr host)"

section \<open>State\<close>

record node_connector =
  node_connections :: "(string \<times> nat) list"
  connections :: "node_connection list"
  handshake_done :: "bool option"
  accept_pending :: bool
  challenges_used :: nat

record network =
  net_epmd :: "string \<Rightarrow> epmd_socket"
  net_endpoints :: "string \<Rightarrow> int \<Rightarrow> bool list result"
  net_handshake :: "node_connection \<Rightarrow> (bool \<times> node_connection) option"
  net_challenge :: "nat \<Rightarrow> u32"

definition new_connector :: node_connector where
  "new_connector =
     \<lparr>node_connections = [], connections = [], handshake_done = None, accept_pending = False, challenges_used = 0\<rparr>"

section \<open>Operations\<close>

definition trigger_accept :: "node_connector \<Rightarrow> node_connector" where
  "trigger_accept s = s\<lparr>accept_pending := True\<rparr>"

text \<open>The acceptor is bound to its port and listens when it is made, which may throw; an older one is kept then.\<close>

definition start_accept_incoming :: "unit result \<Rightarrow> node_connector \<Rightarrow> unit result \<times> node_connector" where
  "start_accept_incoming acceptor s =
     (case acceptor of Inl e \<Rightarrow> (Inl e, s) | Inr _ \<Rightarrow> (Inr (), trigger_accept s))"

definition drop_connection_to :: "string \<Rightarrow> node_connector \<Rightarrow> node_connector" where
  "drop_connection_to node s = s\<lparr>node_connections := map_erase node (node_connections s)\<rparr>"

definition connected_nodes :: "node_connector \<Rightarrow> string list" where
  "connected_nodes s = sort (map fst (node_connections s))"

definition handshake_success :: "bool \<Rightarrow> node_connector \<Rightarrow> node_connector" where
  "handshake_success handshake_result s = s\<lparr>handshake_done := Some handshake_result\<rparr>"

text \<open>\<open>request_node_connection\<close>: resolve the peer, create the connection, connect its socket.\<close>

definition request_node_connection :: "conn_env \<Rightarrow> network \<Rightarrow> string \<Rightarrow> string \<Rightarrow> node_connection result" where
  "request_node_connection env net own_name peer_node =
     and_then (node_host peer_node) (\<lambda>remote_host.
     and_then (node_name_of peer_node) (\<lambda>name.
     and_then (port_please2_request (env_platform env) remote_host (net_epmd net remote_host) name) (\<lambda>port.
     and_then (node_name_of peer_node) (\<lambda>peer.
     and_then (connect_socket (env_platform env) (net_endpoints net remote_host port) remote_host port) (\<lambda>_.
       Inr (create_connection (Some peer) own_name))))))"

text \<open>
  \<open>make_new_connection\<close> with \<open>wait_for_handshake_result\<close>. A result that is already there, from
  an earlier handshake, ends the wait at once.
\<close>

definition make_new_connection ::
  "conn_env \<Rightarrow> network \<Rightarrow> string \<Rightarrow> string \<Rightarrow> node_connector \<Rightarrow> (nat result \<times> node_connector) option" where
  "make_new_connection env net own_name peer s =
     (case request_node_connection env net own_name peer of
        Inl e \<Rightarrow> Some (Inl e, s)
      | Inr c0 \<Rightarrow>
          let s = s\<lparr>challenges_used := challenges_used s + 1\<rparr> in
          (case start_handshake_as_A env (net_challenge net (challenges_used s)) c0 of
             (c, Some e) \<Rightarrow> Some (Inl e, s)
           | (c, None) \<Rightarrow>
               (let (result, c) =
                  (case handshake_done s of
                     Some b \<Rightarrow> (Some b, c)
                   | None \<Rightarrow> (case net_handshake net c of None \<Rightarrow> (None, c) | Some (b, c) \<Rightarrow> (Some b, c)))
                in case result of
                     None \<Rightarrow> None
                   | Some success \<Rightarrow>
                       let s = s\<lparr>handshake_done := None\<rparr> in
                       if \<not> success
                       then Some (Inl (Tinch_pp_exception (''Failed to connect to the node = '' @ peer)), s)
                       else Some (Inr (length (connections s)),
                         s\<lparr>connections := connections s @ [c],
                           node_connections := map_insert peer (length (connections s)) (node_connections s)\<rparr>))))"

definition get_connection_to ::
  "conn_env \<Rightarrow> network \<Rightarrow> string \<Rightarrow> string \<Rightarrow> node_connector \<Rightarrow> (nat result \<times> node_connector) option" where
  "get_connection_to env net own_name peer s =
     (case map_of (node_connections s) peer of
        Some i \<Rightarrow> Some (Inr i, s)
      | None \<Rightarrow> make_new_connection env net own_name peer s)"

text \<open>The accepting side: a connection is registered by the name its peer gave.\<close>

definition handshake_success_as_B :: "nat \<Rightarrow> bool \<Rightarrow> node_connector \<Rightarrow> unit result \<times> node_connector" where
  "handshake_success_as_B i succeeded s =
     (if succeeded
      then (case peer_node_name (connections s ! i) of
              Inl e \<Rightarrow> (Inl e, s)
            | Inr peer \<Rightarrow> (Inr (), trigger_accept (s\<lparr>node_connections := map_insert peer i (node_connections s)\<rparr>)))
      else (Inr (), trigger_accept s))"

definition handle_accept :: "network \<Rightarrow> string \<Rightarrow> bool \<Rightarrow> node_connector \<Rightarrow> node_connector" where
  "handle_accept net own_name failed s =
     (let s = s\<lparr>accept_pending := False\<rparr> in
      if \<not> failed
      then s\<lparr>challenges_used := challenges_used s + 1,
             connections := connections s @
               [start_handshake_as_B (net_challenge net (challenges_used s + 1)) (create_connection None own_name)]\<rparr>
      else trigger_accept s)"

text \<open>The recovery point of the I/O thread, \<open>run_async_io\<close>: an I/O error drops its connection.\<close>

definition on_handler_exception :: "cpp_error \<Rightarrow> node_connector \<Rightarrow> node_connector" where
  "on_handler_exception e s =
     (case e of Connection_io_error reason node \<Rightarrow> drop_connection_to node s | _ \<Rightarrow> s)"

section \<open>Splitting names\<close>

lemma node_char_no_at: "node_char c \<Longrightarrow> c \<noteq> CHR ''@''"
  by (auto simp: node_char_def word_char_def char_between_def byte_of_def)

lemma split_join:
  assumes "name \<noteq> []" and "host \<noteq> []" and "list_all node_char name" and "list_all node_char host"
  shows "split_node_name (name @ CHR ''@'' # host) = Inr (name, host)"
proof -
  have "takeWhile (\<lambda>c. c \<noteq> CHR ''@'') (name @ CHR ''@'' # host) = name"
    "dropWhile (\<lambda>c. c \<noteq> CHR ''@'') (name @ CHR ''@'' # host) = CHR ''@'' # host"
    using assms(3) node_char_no_at
    by (auto simp: takeWhile_append dropWhile_append list_all_iff)
  then show ?thesis using assms by (simp add: split_node_name_def Let_def)
qed

lemma split_sound:
  assumes "split_node_name node = Inr (name, host)"
  shows "node = name @ CHR ''@'' # host" and "name \<noteq> []" and "host \<noteq> []"
    and "list_all node_char name" and "list_all node_char host"
proof -
  let ?P = "\<lambda>c. c \<noteq> CHR ''@''"
  have e: "name = takeWhile ?P node" "host = tl (dropWhile ?P node)" "name \<noteq> []" "host \<noteq> []"
    "list_all node_char name" "list_all node_char host"
    using assms by (auto simp: split_node_name_def Let_def split: if_splits)
  then show "name \<noteq> []" "host \<noteq> []" "list_all node_char name" "list_all node_char host" by simp_all
  have "dropWhile ?P node \<noteq> []" using e(2,4) by (metis list.sel(2))
  then have "dropWhile ?P node = CHR ''@'' # host" using hd_dropWhile [of ?P node] e(2) by (metis list.collapse)
  then show "node = name @ CHR ''@'' # host" using e(1) takeWhile_dropWhile_id [of ?P node] by simp
qed

section \<open>The name a connection reports\<close>

text \<open>A connection that does not wait for its peer's name keeps the one it was created with.\<close>

definition keeps_peer :: "node_connection \<Rightarrow> node_connection \<Rightarrow> bool" where
  "keeps_peer c c' \<longleftrightarrow>
     (Name_read \<notin> fst ` set (pending_reads c) \<longrightarrow>
      Name_read \<notin> fst ` set (pending_reads c') \<and> peer_name c' = peer_name c)"

lemma keeps_peer_trans: "keeps_peer a b \<Longrightarrow> keeps_peer b c \<Longrightarrow> keeps_peer a c"
  by (auto simp: keeps_peer_def)

lemma keeps_peer_same:
  "\<lbrakk>pending_reads c' = pending_reads c; peer_name c' = peer_name c\<rbrakk> \<Longrightarrow> keeps_peer c c'"
  by (simp add: keeps_peer_def)

lemma peer_name_write [simp]:
  "peer_name (trigger_checked_write m cb c) = peer_name c" "peer_name (async_write_front c) = peer_name c"
  by (auto simp: trigger_defs split: list.splits)

lemma keeps_peer_basic:
  "keeps_peer c (fst (write_generated g cb c))" "keeps_peer c (report_failure c)"
  "cb' \<noteq> Name_read \<Longrightarrow> keeps_peer c (trigger_checked_read cb' c)"
  "keeps_peer c (make_transition_to_connected c)" "keeps_peer c (send_tock c)"
  by (auto simp: write_generated_def keeps_peer_def state_defs trigger_read_on_def trigger_checked_read_def send_tock_def
      split: sum.split)

lemma keeps_peer_state: "keeps_peer (c\<lparr>conn_state := st\<rparr>) c' \<Longrightarrow> keeps_peer c c'"
  by (simp add: keeps_peer_def)

lemma keeps_peer_pop: "keeps_peer c (snd (pop_message l c))"
  by (auto simp: pop_message_def keeps_peer_def split: lexer_id.splits prod.splits)

lemma keeps_peer_parse_next:
  assumes "\<And>attr c. keeps_peer c (fst (k attr c))"
  shows "keeps_peer c (fst (parse_next l p k c))"
proof -
  obtain m c' where pop: "pop_message l c = (m, c')" by (cases "pop_message l c")
  then have "keeps_peer c c'" using keeps_peer_pop [of c l] by simp
  then show ?thesis using keeps_peer_trans assms
    by (auto simp: parse_next_def pop split: option.split sum.split)
qed

lemma keeps_peer_msg_received: "keeps_peer c (fst (msg_received env l c))"
proof -
  obtain m c' where pop: "pop_message l c = (m, c')" by (cases "pop_message l c")
  then have *: "keeps_peer c c'" using keeps_peer_pop [of c l] by simp
  have "keeps_peer c (trigger_checked_read Msg_received (send_tock c'))"
    "keeps_peer c (trigger_checked_read Msg_received (c'\<lparr>node_calls := calls\<rparr>))"
    "keeps_peer c (trigger_checked_read Msg_received c')" for calls
    using * by (auto simp: keeps_peer_def send_tock_def trigger_checked_read_def trigger_read_on_def)
  with * show ?thesis by (simp add: msg_received_def pop split: option.split sum.split)
qed

lemma keeps_peer_callback:
  assumes "cb \<noteq> Name_read"
  shows "keeps_peer c (fst (read_done_callback env cb l c))"
proof -
  have challenge: "keeps_peer c (fst (challenge_read env l c))" for c
    unfolding challenge_read_def send_reply_def
    by (rule keeps_peer_parse_next, rule keeps_peer_state, rule keeps_peer_basic)
  moreover have "keeps_peer c (fst (status_read env l c))"
    unfolding status_read_def
    by (rule keeps_peer_parse_next)
      (auto simp: receive_challenge_def keeps_peer_basic intro!: keeps_peer_state [OF challenge]
        keeps_peer_state [OF keeps_peer_basic(3)])
  moreover have "keeps_peer c (fst (reply_received env l c))"
    unfolding reply_received_def send_ack_def
    by (rule keeps_peer_parse_next) (auto simp: keeps_peer_basic intro!: keeps_peer_state [OF keeps_peer_basic(1)])
  moreover have "keeps_peer c (fst (challenge_ack_read env l c))"
    unfolding challenge_ack_read_def
    by (rule keeps_peer_parse_next) (auto simp: keeps_peer_basic keeps_peer_same)
  ultimately show ?thesis using assms keeps_peer_msg_received by (cases cb) simp_all
qed

lemma keeps_peer_read:
  assumes "checked_read env cb l res c = Some (c', e)" and "cb \<noteq> Name_read"
  shows "keeps_peer c c'"
proof -
  consider err where "res = Inl err" | data b c1 where "res = Inr data" "lexer_add env l data c = Some (Inr (b, c1))"
    | "c' = c"
    using assms(1) by (cases res) (auto simp: checked_read_def split: option.splits sum.splits)
  then show ?thesis
  proof cases
    case (1 err)
    then show ?thesis using assms(1)
      by (auto simp: checked_read_def handle_io_error_def report_failure_def keeps_peer_same split: if_splits)
  next
    case (2 data b c1)
    have "keeps_peer c c1" using 2(2) by (auto elim!: lexer_add_form intro!: keeps_peer_same)
    moreover have "c' = fst (read_done_callback env cb l c1) \<or> c' = trigger_read_on cb l c1"
      using assms(1) 2 by (auto simp: checked_read_def split: if_splits)
    then have "keeps_peer c1 c'"
      using keeps_peer_callback [OF assms(2), of c1 env l] assms(2) by (auto simp: keeps_peer_def trigger_read_on_def)
    ultimately show ?thesis by (rule keeps_peer_trans)
  qed (simp add: keeps_peer_same)
qed

lemma keeps_peer_written: "keeps_peer c (fst (checked_write err c))"
proof (cases "write_queue c")
  case (Cons w queue)
  then show ?thesis
    by (cases w; cases err; cases "snd w")
      (auto simp: checked_write_def Let_def keeps_peer_def state_defs trigger_checked_read_def trigger_read_on_def)
qed (simp add: checked_write_def Let_def keeps_peer_same)

lemma keeps_peer_step:
  assumes "conn_step env c e c'"
  shows "keeps_peer c c'"
  using assms
proof (induction rule: conn_step.induct)
  case (read_done c cb l rest data c' e)
  then show ?case using keeps_peer_read [OF read_done(3)] by (cases "cb = Name_read") (auto simp: keeps_peer_def)
next
  case (read_failed c cb l rest err c' e)
  then show ?case using keeps_peer_read [OF read_failed(2)] by (cases "cb = Name_read") (auto simp: keeps_peer_def)
next
  case (write_done c c' e)
  then show ?case using keeps_peer_written by (metis fst_conv)
next
  case (write_failed c err c' e)
  then show ?case using keeps_peer_written by (metis fst_conv)
next
  case (requested c msg)
  then show ?case by (simp add: request_def keeps_peer_same)
qed

lemma keeps_peer_run: "conn_run env c es c' \<Longrightarrow> keeps_peer c c'"
  by (induction rule: conn_run.induct) (auto intro: keeps_peer_same keeps_peer_step keeps_peer_trans)

lemma originator_peer_name:
  assumes "conn_run env (fst (start_handshake_as_A env challenge (create_connection (Some short) own))) es c"
  shows "peer_name c = Some short"
  using keeps_peer_run [OF assms]
  by (auto simp: keeps_peer_def start_handshake_as_A_def Let_def initiate_handshake_def write_generated_def create_connection_def
      split: sum.splits)

section \<open>Properties\<close>

text \<open>A node name is split exactly if it consists of two non-empty parts of letters, digits, dots,
  dashes and underscores around one \<open>@\<close>, and then into these parts.\<close>

theorem split_node_name_exact:
  "split_node_name node = Inr (name, host) \<longleftrightarrow>
     node = name @ CHR ''@'' # host \<and> name \<noteq> [] \<and> host \<noteq> [] \<and> list_all node_char name \<and> list_all node_char host"
  using split_sound split_join by blast

text \<open>C38. A connection that this node opened survives its own I/O error: it is registered under the full
  name of its peer, but the error names only the part before the \<open>@\<close>, so that nothing is dropped, and
  the next request for the peer gets the broken connection again.\<close>

theorem io_error_does_not_drop:
  assumes "split_node_name peer = Inr (short, host)"
    and "conn_run env (fst (start_handshake_as_A env challenge (create_connection (Some short) own))) es c"
    and "conn_state c = Connected" and "map_of (node_connections s) peer = Some i"
  shows "\<exists>e. handle_io_error err c = (c, Some e) \<and>
    get_connection_to env net own peer (on_handler_exception e s) = Some (Inr i, on_handler_exception e s)"
proof -
  have "CHR ''@'' \<notin> set short" using split_sound(4) [OF assms(1)] node_char_no_at by (auto simp: list_all_iff)
  then have "short \<noteq> peer" using split_sound(1) [OF assms(1)] by auto
  moreover have "handle_io_error err c = (c, Some (Connection_io_error err short))"
    using assms(3) originator_peer_name [OF assms(2)] by (simp add: handle_io_error_def peer_node_name_def)
  ultimately show ?thesis using assms(4)
    by (simp add: on_handler_exception_def drop_connection_to_def get_connection_to_def map_of_erase)
qed

theorem io_error_does_not_drop_witness:
  "\<exists>es c e. conn_run \<lparr>env_platform = documented_platform, env_garbage = replicate 64 2, env_cookie = ''c''\<rparr> (fst (start_handshake_as_A \<lparr>env_platform = documented_platform, env_garbage = replicate 64 2, env_cookie = ''c''\<rparr> 7 (create_connection (Some ''b'') ''a@h''))) es c \<and>
    handle_io_error ''reset'' c = (c, Some e) \<and>
    get_connection_to \<lparr>env_platform = documented_platform, env_garbage = replicate 64 2, env_cookie = ''c''\<rparr> \<lparr>net_epmd = (\<lambda>_. \<lparr>sock_endpoints = Inr [], sock_write_error = False, sock_read = None\<rparr>),
        net_endpoints = (\<lambda>_ _. Inr [True]), net_handshake = (\<lambda>_. None), net_challenge = (\<lambda>_. 7)\<rparr> ''a@h'' ''b@h''
      (on_handler_exception e (new_connector\<lparr>node_connections := [(''b@h'', 0)]\<rparr>)) =
    Some (Inr 0, on_handler_exception e (new_connector\<lparr>node_connections := [(''b@h'', 0)]\<rparr>))"
proof -
  let ?env = "\<lparr>env_platform = documented_platform, env_garbage = replicate 64 2, env_cookie = ''c''\<rparr>"
  obtain es c where run: "conn_run ?env (fst (start_handshake_as_A ?env 7 (create_connection (Some ''b'') ''a@h''))) es c"
    "conn_state c = Connected"
    using honest_exchange [OF doc.spirit_axioms, of "replicate 64 2" "replicate 64 2" "''a@h''" "''b@h''" "''c''" 7 "''b''" 9]
    by auto
  have "split_node_name ''b@h'' = Inr (''b'', ''h'')"
    by (simp add: split_node_name_def node_char_def word_char_def char_between_def byte_of_def)
  from io_error_does_not_drop [OF this run, of "new_connector\<lparr>node_connections := [(''b@h'', 0)]\<rparr>" 0 "''reset''"
      "\<lparr>net_epmd = (\<lambda>_. \<lparr>sock_endpoints = Inr [], sock_write_error = False, sock_read = None\<rparr>),
        net_endpoints = (\<lambda>_ _. Inr [True]), net_handshake = (\<lambda>_. None), net_challenge = (\<lambda>_. 7)\<rparr>"]
  show ?thesis using run(1) by auto
qed

end
