(* ===== verification/Mailbox.thy ===== *)
theory Mailbox
  imports Values "HOL-Library.Multiset"
begin

text \<open>
  \<open>actual_mailbox\<close> of \<open>impl/actual_mailbox.cpp\<close>: the receiving half (the sending half calls the
  node and is in \<open>Node\<close>). Every operation runs under the mailbox's mutex, so a run is a
  sequence of operations; a \<open>receive\<close> that waits on the condition variable is one that is not
  yet enabled, and its value is \<open>None\<close>. The other calls come from the I/O thread. The
  properties are about arbitrary interleavings: nothing is lost or duplicated, what a
  receive can answer, and the order in which messages come out.
\<close>

section \<open>State and operations\<close>

record actual_mailbox =
  own_pid :: e_pid
  own_name :: string
  received_msgs :: "msg_seq list"
  message_ready :: bool
  broken_links :: "(string \<times> e_pid) list"

definition new_mailbox :: "e_pid \<Rightarrow> string \<Rightarrow> actual_mailbox" where
  "new_mailbox a_own_pid a_own_name =
     \<lparr>own_pid = a_own_pid, own_name = a_own_name, received_msgs = [], message_ready = False,
      broken_links = []\<rparr>"

definition notify_receive :: "(actual_mailbox \<Rightarrow> actual_mailbox) \<Rightarrow> actual_mailbox \<Rightarrow> actual_mailbox" where
  "notify_receive receive_action m = (receive_action m)\<lparr>message_ready := True\<rparr>"

definition on_incoming :: "msg_seq \<Rightarrow> actual_mailbox \<Rightarrow> actual_mailbox" where
  "on_incoming msg = notify_receive (\<lambda>m. m\<lparr>received_msgs := msg # received_msgs m\<rparr>)"

definition on_link_broken :: "string \<Rightarrow> e_pid \<Rightarrow> actual_mailbox \<Rightarrow> actual_mailbox" where
  "on_link_broken reason pid = notify_receive (\<lambda>m. m\<lparr>broken_links := broken_links m @ [(reason, pid)]\<rparr>)"

text \<open>The handler of the timer; an aborted timer only reports its cancellation.\<close>

definition receive_tmo :: "bool \<Rightarrow> actual_mailbox \<Rightarrow> actual_mailbox" where
  "receive_tmo is_old_notification m = (if is_old_notification then m else notify_receive id m)"

text \<open>\<open>report_broken_link\<close> removes the link it throws.\<close>

definition report_broken_link :: "actual_mailbox \<Rightarrow> msg_seq result \<times> actual_mailbox" where
  "report_broken_link m =
     (case broken_links m of
        [] \<Rightarrow> (Inl Undefined_behaviour, m)
      | (reason, pid) # rest \<Rightarrow> (Inl (Link_broken reason pid), m\<lparr>broken_links := rest\<rparr>))"

definition pick_first_msg :: "actual_mailbox \<Rightarrow> msg_seq result \<times> actual_mailbox" where
  "pick_first_msg m =
     (let m = m\<lparr>message_ready := False\<rparr> in
      if broken_links m \<noteq> [] then report_broken_link m
      else (case received_msgs m of
              [] \<Rightarrow> (Inl Mailbox_receive_tmo, m)
            | msg # rest \<Rightarrow> (Inr msg, m\<lparr>received_msgs := rest\<rparr>)))"

text \<open>Whether the wait is over; if not, the caller stays blocked.\<close>

definition wait_for_at_least_one_message :: "actual_mailbox \<Rightarrow> bool" where
  "wait_for_at_least_one_message m = (received_msgs m \<noteq> [] \<or> message_ready m)"

definition receive :: "actual_mailbox \<Rightarrow> (msg_seq result \<times> actual_mailbox) option" where
  "receive m = (if wait_for_at_least_one_message m then Some (pick_first_msg m) else None)"

lemmas mailbox_defs =
  on_incoming_def on_link_broken_def receive_tmo_def notify_receive_def report_broken_link_def
  pick_first_msg_def wait_for_at_least_one_message_def receive_def new_mailbox_def Let_def

text \<open>What a receive answers, by case.\<close>

lemma receive_cases:
  "receive m =
     (if received_msgs m = [] \<and> \<not> message_ready m then None
      else Some (case broken_links m of
        (reason, pid) # rest \<Rightarrow> (Inl (Link_broken reason pid), m\<lparr>message_ready := False, broken_links := rest\<rparr>)
      | [] \<Rightarrow> (case received_msgs m of
           [] \<Rightarrow> (Inl Mailbox_receive_tmo, m\<lparr>message_ready := False\<rparr>)
         | msg # rest \<Rightarrow> (Inr msg, m\<lparr>message_ready := False, received_msgs := rest\<rparr>))))"
  by (cases m) (auto simp: mailbox_defs split: list.splits)

section \<open>Interleavings\<close>

datatype mailbox_event =
    Incoming msg_seq
  | Broken string e_pid
  | Timer bool
  | Received "msg_seq result"

inductive mailbox_step :: "actual_mailbox \<Rightarrow> mailbox_event \<Rightarrow> actual_mailbox \<Rightarrow> bool" where
  incoming: "mailbox_step m (Incoming msg) (on_incoming msg m)"
| broken: "mailbox_step m (Broken reason pid) (on_link_broken reason pid m)"
| timer: "mailbox_step m (Timer old) (receive_tmo old m)"
| received: "receive m = Some (r, m') \<Longrightarrow> mailbox_step m (Received r) m'"

inductive_simps mailbox_step_simps:
  "mailbox_step m (Incoming msg) m'" "mailbox_step m (Broken reason pid) m'"
  "mailbox_step m (Timer old) m'" "mailbox_step m (Received r) m'"

inductive mailbox_run :: "actual_mailbox \<Rightarrow> mailbox_event list \<Rightarrow> actual_mailbox \<Rightarrow> bool" where
  idle: "mailbox_run m [] m"
| step: "\<lbrakk>mailbox_run m es m'; mailbox_step m' e m''\<rbrakk> \<Longrightarrow> mailbox_run m (es @ [e]) m''"

fun incoming_of :: "mailbox_event \<Rightarrow> msg_seq list" where
  "incoming_of (Incoming msg) = [msg]" | "incoming_of _ = []"

fun delivered_of :: "mailbox_event \<Rightarrow> msg_seq list" where
  "delivered_of (Received (Inr msg)) = [msg]" | "delivered_of _ = []"

fun broken_of :: "mailbox_event \<Rightarrow> (string \<times> e_pid) list" where
  "broken_of (Broken reason pid) = [(reason, pid)]" | "broken_of _ = []"

fun reported_of :: "mailbox_event \<Rightarrow> (string \<times> e_pid) list" where
  "reported_of (Received (Inl (Link_broken reason pid))) = [(reason, pid)]" | "reported_of _ = []"

text \<open>Two balanced books in a row are balanced.\<close>

lemma ledger:
  fixes a :: "'a :: comm_monoid_add"
  assumes "a + b = c + d" and "e + d = f + g"
  shows "a + e + b = c + f + g"
  using assms by (metis add.assoc add.commute)

lemma ledger_list: "a @ b = c @ d \<Longrightarrow> d @ e = f @ g \<Longrightarrow> a @ b @ e = c @ f @ g"
  by (metis append.assoc)

text \<open>One step neither loses nor invents a message or a broken link.\<close>

lemma step_conserves:
  assumes "mailbox_step m e m'"
  shows "mset (incoming_of e) + mset (received_msgs m) = mset (delivered_of e) + mset (received_msgs m')"
    and "broken_links m @ broken_of e = reported_of e @ broken_links m'"
  using assms
  by (cases e; auto simp: mailbox_step_simps on_incoming_def on_link_broken_def receive_tmo_def
      notify_receive_def receive_cases split: if_splits list.splits)+

lemma run_conserves:
  assumes "mailbox_run m es m'"
  shows "mset (concat (map incoming_of es)) + mset (received_msgs m) =
      mset (concat (map delivered_of es)) + mset (received_msgs m') \<and>
    broken_links m @ concat (map broken_of es) = concat (map reported_of es) @ broken_links m'"
  using assms
proof (induction rule: mailbox_run.induct)
  case (step m es m' e m'')
  have "mset (concat (map incoming_of (es @ [e]))) + mset (received_msgs m) =
      mset (concat (map delivered_of (es @ [e]))) + mset (received_msgs m'')"
    using ledger [OF conjunct1 [OF step.IH] step_conserves(1) [OF step.hyps(2)]] by (simp add: ac_simps)
  moreover have "broken_links m @ concat (map broken_of (es @ [e])) =
      concat (map reported_of (es @ [e])) @ broken_links m''"
    using ledger_list [OF conjunct2 [OF step.IH] step_conserves(2) [OF step.hyps(2)]] by simp
  ultimately show ?case by simp
qed simp

text \<open>What has happened since the last receive that answered, the latest first; everything but a cancelled
  timer ends a wait.\<close>

fun is_received :: "mailbox_event \<Rightarrow> bool" where
  "is_received (Received _) = True" | "is_received _ = False"

definition since_receive :: "mailbox_event list \<Rightarrow> mailbox_event list" where
  "since_receive es = takeWhile (\<lambda>e. \<not> is_received e) (rev es)"

lemma since_receive_simps [simp]:
  "since_receive [] = []"
  "since_receive (es @ [e]) = (if is_received e then [] else e # since_receive es)"
  by (simp_all add: since_receive_def)

text \<open>The flag says whether something has happened since the last receive; an arrival or a broken link is then
  still waiting.\<close>

definition flag_has_cause :: "mailbox_event list \<Rightarrow> actual_mailbox \<Rightarrow> bool" where
  "flag_has_cause es m \<longleftrightarrow>
     (message_ready m \<longleftrightarrow> (\<exists>e\<in>set (since_receive es). e \<noteq> Timer True)) \<and>
     (\<forall>e\<in>set (since_receive es). incoming_of e \<noteq> [] \<longrightarrow> received_msgs m \<noteq> []) \<and>
     (\<forall>e\<in>set (since_receive es). broken_of e \<noteq> [] \<longrightarrow> broken_links m \<noteq> [])"

lemma run_flag_has_cause: "mailbox_run m es m' \<Longrightarrow> \<not> message_ready m \<Longrightarrow> flag_has_cause es m'"
proof (induction rule: mailbox_run.induct)
  case (step m es m' e m'')
  then show ?case
    by (cases e) (auto simp: flag_has_cause_def mailbox_step_simps on_incoming_def on_link_broken_def
        receive_tmo_def notify_receive_def receive_cases split: if_splits list.splits)
qed (simp add: flag_has_cause_def)

lemma no_cause_is_timer:
  assumes "e \<in> set (since_receive es)" and "e \<noteq> Timer True" and "incoming_of e = []" and "broken_of e = []"
  shows "e = Timer False"
proof -
  have "\<not> is_received e" using assms(1) by (auto simp: since_receive_def dest: set_takeWhileD)
  with assms(2-4) show ?thesis by (cases e) auto
qed

text \<open>A burst of arrivals and a number of receives, one after the other.\<close>

fun receive_n :: "nat \<Rightarrow> actual_mailbox \<Rightarrow> (msg_seq list \<times> actual_mailbox) option" where
  "receive_n 0 m = Some ([], m)"
| "receive_n (Suc k) m =
     (case receive m of
        Some (Inr msg, m') \<Rightarrow> map_option (\<lambda>(ms, m). (msg # ms, m)) (receive_n k m')
      | _ \<Rightarrow> None)"

lemma received_after_burst:
  "received_msgs (fold on_incoming ms m) = rev ms @ received_msgs m"
  "broken_links (fold on_incoming ms m) = broken_links m"
  by (induction ms arbitrary: m) (simp_all add: on_incoming_def notify_receive_def)

lemma receive_n_takes:
  "\<lbrakk>broken_links m = []; k \<le> length (received_msgs m)\<rbrakk> \<Longrightarrow>
     map_option fst (receive_n k m) = Some (take k (received_msgs m))"
proof (induction k arbitrary: m)
  case (Suc k)
  then obtain msg rest where r: "received_msgs m = msg # rest" by (cases "received_msgs m") auto
  let ?m = "m\<lparr>message_ready := False, received_msgs := rest\<rparr>"
  have "map_option fst (receive_n k ?m) = Some (take k rest)" using Suc.IH [of ?m] Suc.prems r by simp
  then show ?case using Suc.prems r by (auto simp: receive_cases)
qed simp

section \<open>Properties\<close>

text \<open>C9. In every interleaving of arriving messages, breaking links, timers and receives, no message
  is lost or delivered twice, and the broken links are reported once each in the order in
  which they broke: what came in is what was delivered together with what is still waiting.\<close>

theorem mailbox_conserves:
  assumes "mailbox_run (new_mailbox p n) es m"
  shows "mset (concat (map incoming_of es)) = mset (concat (map delivered_of es)) + mset (received_msgs m) \<and>
    concat (map broken_of es) = concat (map reported_of es) @ broken_links m"
  using run_conserves [OF assms] by (simp add: new_mailbox_def)

theorem mailbox_conserves_witness:
  "mset (concat (map incoming_of [Incoming [1], Incoming [2], Received (Inr [2])])) =
     mset (concat (map delivered_of [Incoming [1], Incoming [2], Received (Inr [2])])) +
     mset (received_msgs ((on_incoming [1] (new_mailbox default_e_pid []))\<lparr>message_ready := False\<rparr>)) \<and>
   concat (map broken_of [Incoming [1], Incoming [2], Received (Inr [2])]) =
     concat (map reported_of [Incoming [1], Incoming [2], Received (Inr [2])]) @
     broken_links ((on_incoming [1] (new_mailbox default_e_pid []))\<lparr>message_ready := False\<rparr>)"
proof -
  let ?n = "new_mailbox default_e_pid []"
  let ?m = "on_incoming [1] ?n"
  from mailbox_run.step [OF mailbox_run.idle mailbox_step.incoming]
  have "mailbox_run ?n [Incoming [1]] ?m" by (metis append_Nil)
  from mailbox_run.step [OF this mailbox_step.incoming, of "[2]"]
  have *: "mailbox_run ?n [Incoming [1], Incoming [2]] (on_incoming [2] ?m)" by simp
  have "receive (on_incoming [2] ?m) = Some (Inr [2], ?m\<lparr>message_ready := False\<rparr>)"
    by (simp add: mailbox_defs)
  from mailbox_run.step [OF * mailbox_step.received [OF this]]
  have "mailbox_run ?n [Incoming [1], Incoming [2], Received (Inr [2])] (?m\<lparr>message_ready := False\<rparr>)"
    by simp
  then show ?thesis by (rule mailbox_conserves)
qed

text \<open>C24. After every interleaving, a receive blocks exactly when no message is waiting and nothing but
  cancelled timers has happened since the last receive that answered (also when a broken link is waiting, see
  \<open>second_broken_link_blocks\<close>). Otherwise it answers: it throws the oldest broken link, if any, before it looks at
  the messages; else it returns the newest message; and it reports a time-out only if neither a message nor a
  broken link is waiting and a timer has expired since the last receive.\<close>

theorem receive_outcomes:
  assumes "mailbox_run (new_mailbox p n) es m"
  shows "case receive m of
      None \<Rightarrow> received_msgs m = [] \<and> set (since_receive es) \<subseteq> {Timer True}
    | Some (r, m') \<Rightarrow>
        (received_msgs m \<noteq> [] \<or> \<not> set (since_receive es) \<subseteq> {Timer True}) \<and>
        ((\<exists>msg rest. r = Inr msg \<and> broken_links m = [] \<and> received_msgs m = msg # rest \<and>
            received_msgs m' = rest \<and> broken_links m' = []) \<or>
         (\<exists>reason q rest. r = Inl (Link_broken reason q) \<and> broken_links m = (reason, q) # rest \<and>
            broken_links m' = rest \<and> received_msgs m' = received_msgs m) \<or>
         (r = Inl Mailbox_receive_tmo \<and> broken_links m = [] \<and> received_msgs m = [] \<and>
            Timer False \<in> set (since_receive es) \<and> received_msgs m' = [] \<and> broken_links m' = []))"
proof -
  have cause: "flag_has_cause es m" using run_flag_has_cause [OF assms] by (simp add: new_mailbox_def)
  then have ready: "message_ready m \<longleftrightarrow> \<not> set (since_receive es) \<subseteq> {Timer True}"
    by (auto simp: flag_has_cause_def)
  have "Timer False \<in> set (since_receive es)" if "message_ready m" "received_msgs m = []" "broken_links m = []"
    using cause that no_cause_is_timer unfolding flag_has_cause_def by metis
  then show ?thesis
    by (cases "broken_links m"; cases "received_msgs m") (auto simp: receive_cases ready split: if_splits)
qed

theorem receive_outcomes_witness:
  "case receive (on_link_broken ''b'' default_e_pid (new_mailbox default_e_pid [])) of
      None \<Rightarrow> received_msgs (on_link_broken ''b'' default_e_pid (new_mailbox default_e_pid [])) = [] \<and>
        set (since_receive [Broken ''b'' default_e_pid]) \<subseteq> {Timer True}
    | Some (r, m') \<Rightarrow>
        (received_msgs (on_link_broken ''b'' default_e_pid (new_mailbox default_e_pid [])) \<noteq> [] \<or>
          \<not> set (since_receive [Broken ''b'' default_e_pid]) \<subseteq> {Timer True}) \<and>
        ((\<exists>msg rest. r = Inr msg \<and> broken_links (on_link_broken ''b'' default_e_pid (new_mailbox default_e_pid [])) = [] \<and>
            received_msgs (on_link_broken ''b'' default_e_pid (new_mailbox default_e_pid [])) = msg # rest \<and>
            received_msgs m' = rest \<and> broken_links m' = []) \<or>
         (\<exists>reason q rest. r = Inl (Link_broken reason q) \<and>
            broken_links (on_link_broken ''b'' default_e_pid (new_mailbox default_e_pid [])) = (reason, q) # rest \<and>
            broken_links m' = rest \<and>
            received_msgs m' = received_msgs (on_link_broken ''b'' default_e_pid (new_mailbox default_e_pid []))) \<or>
         (r = Inl Mailbox_receive_tmo \<and>
            broken_links (on_link_broken ''b'' default_e_pid (new_mailbox default_e_pid [])) = [] \<and>
            received_msgs (on_link_broken ''b'' default_e_pid (new_mailbox default_e_pid [])) = [] \<and>
            Timer False \<in> set (since_receive [Broken ''b'' default_e_pid]) \<and> received_msgs m' = [] \<and> broken_links m' = []))"
proof -
  let ?n = "new_mailbox default_e_pid []"
  from mailbox_run.step [OF mailbox_run.idle mailbox_step.broken]
  have "mailbox_run ?n [Broken ''b'' default_e_pid] (on_link_broken ''b'' default_e_pid ?n)" by (metis append_Nil)
  then show ?thesis by (rule receive_outcomes)
qed

text \<open>The messages come out in the reverse of the order in which they arrived: with no broken
  link, receiving as many messages as arrived in a burst returns the last one first. A
  mailbox is a stack, not a queue.\<close>

theorem mailbox_is_lifo:
  assumes "broken_links m = []"
  shows "map_option fst (receive_n (length ms) (fold on_incoming ms m)) = Some (rev ms)"
  using receive_n_takes [of "fold on_incoming ms m" "length ms"] assms
  by (simp add: received_after_burst)

theorem mailbox_is_lifo_witness:
  "map_option fst (receive_n (length [[1 :: byte], [2], [3]]) (fold on_incoming [[1], [2], [3]] (new_mailbox default_e_pid []))) =
     Some (rev [[1], [2], [3]])"
  by (rule mailbox_is_lifo) (simp add: new_mailbox_def)

text \<open>Of two links that break before the next receive the second is not reported by the receive
  after it: that receive blocks, with the broken link still waiting, until another event
  sets the flag again.\<close>

theorem second_broken_link_blocks:
  assumes "received_msgs m = []" and "broken_links m = []"
  shows "\<exists>m'. receive (on_link_broken r2 p2 (on_link_broken r1 p1 m)) = Some (Inl (Link_broken r1 p1), m') \<and>
    broken_links m' = [(r2, p2)] \<and> receive m' = None \<and>
    (\<exists>m''. receive (receive_tmo False m') = Some (Inl (Link_broken r2 p2), m''))"
  using assms by (cases m) (simp add: mailbox_defs)

theorem second_broken_link_blocks_witness:
  "\<exists>m'. receive (on_link_broken ''b'' default_e_pid (on_link_broken ''a'' default_e_pid (new_mailbox default_e_pid []))) =
      Some (Inl (Link_broken ''a'' default_e_pid), m') \<and>
    broken_links m' = [(''b'', default_e_pid)] \<and> receive m' = None \<and>
    (\<exists>m''. receive (receive_tmo False m') = Some (Inl (Link_broken ''b'' default_e_pid), m''))"
  by (rule second_broken_link_blocks) (simp_all add: new_mailbox_def)

end
