(* ===== verification/Linker.thy ===== *)
theory Linker
  imports Values
begin

text \<open>
  The store of process links, \<open>impl/linker.cpp\<close>. The code keeps a list of ordered pairs and
  treats a link as having no direction; the locale \<open>link_registry\<close> is what its clients rely on, a
  set of unordered pairs, and the interpretation shows that the list implements it. The
  operations that notify the other ends of a broken link call the node and are in \<open>Node\<close>.
\<close>

section \<open>Operations\<close>

type_synonym links = "(e_pid \<times> e_pid) list"

definition link_eq :: "e_pid \<times> e_pid \<Rightarrow> e_pid \<times> e_pid \<Rightarrow> bool" where
  "link_eq v1 v2 = (e_pid_eq (fst v1) (fst v2) \<and> e_pid_eq (snd v1) (snd v2))"

definition establish_link_between :: "e_pid \<Rightarrow> e_pid \<Rightarrow> links \<Rightarrow> links" where
  "establish_link_between pid1 pid2 ls = ls @ [(pid1, pid2)]"

definition remove_link_between :: "e_pid \<Rightarrow> e_pid \<Rightarrow> links \<Rightarrow> links" where
  "remove_link_between pid1 pid2 ls =
     filter (\<lambda>l. \<not> link_eq l (pid2, pid1)) (filter (\<lambda>l. \<not> link_eq l (pid1, pid2)) ls)"

definition link :: "e_pid \<Rightarrow> e_pid \<Rightarrow> links \<Rightarrow> links" where
  "link from to ls = establish_link_between from to (remove_link_between from to ls)"

definition unlink :: "e_pid \<Rightarrow> e_pid \<Rightarrow> links \<Rightarrow> links" where
  "unlink from to ls = remove_link_between from to ls"

text \<open>The loop over the list: the pids at the other ends, and the links that stay.\<close>

fun remove_links_from :: "e_pid \<Rightarrow> links \<Rightarrow> e_pid list \<times> links" where
  "remove_links_from dying_process [] = ([], [])"
| "remove_links_from dying_process (i # ls) =
     (let (removed_links, established_links) = remove_links_from dying_process ls in
      if e_pid_eq dying_process (fst i) then (snd i # removed_links, established_links)
      else if e_pid_eq dying_process (snd i) then (fst i # removed_links, established_links)
      else (removed_links, i # established_links))"

section \<open>What the clients rely on\<close>

locale link_registry =
  fixes none :: 's
    and add_link del_link :: "e_pid \<Rightarrow> e_pid \<Rightarrow> 's \<Rightarrow> 's"
    and take_links :: "e_pid \<Rightarrow> 's \<Rightarrow> e_pid list \<times> 's"
    and linked :: "'s \<Rightarrow> e_pid set set"
    and inv :: "'s \<Rightarrow> bool"
  assumes inv_none: "inv none"
    and inv_add: "inv s \<Longrightarrow> inv (add_link p q s)"
    and inv_del: "inv s \<Longrightarrow> inv (del_link p q s)"
    and inv_take: "inv s \<Longrightarrow> inv (snd (take_links p s))"
    and linked_none: "linked none = {}"
    and linked_add: "linked (add_link p q s) = insert {p, q} (linked s)"
    and linked_del: "linked (del_link p q s) = linked s - {{p, q}}"
    and linked_take: "linked (snd (take_links p s)) = {l \<in> linked s. p \<notin> l}"
    and taken: "set (fst (take_links p s)) = {q. {p, q} \<in> linked s}"
    and taken_once: "inv s \<Longrightarrow> distinct (fst (take_links p s))"
begin

lemma add_symmetric: "linked (add_link p q s) = linked (add_link q p s)"
  by (simp add: linked_add insert_commute)

lemma del_undoes_add: "{p, q} \<notin> linked s \<Longrightarrow> linked (del_link q p (add_link p q s)) = linked s"
  by (simp add: linked_add linked_del insert_commute)

lemma take_leaves_none: "fst (take_links p (snd (take_links p s))) = []"
  using taken [of p "snd (take_links p s)"] by (simp add: linked_take)

lemma take_keeps_others:
  "p \<notin> {a, b} \<Longrightarrow> {a, b} \<in> linked (snd (take_links p s)) \<longleftrightarrow> {a, b} \<in> linked s"
  by (auto simp: linked_take)

end

section \<open>The list implements it\<close>

definition linked_pids :: "links \<Rightarrow> e_pid set set" where
  "linked_pids ls = (\<lambda>(p, q). {p, q}) ` set ls"

text \<open>No link is stored twice, in either direction.\<close>

definition links_inv :: "links \<Rightarrow> bool" where
  "links_inv ls = distinct (map (\<lambda>(p, q). {p, q}) ls)"

lemma link_eq_iff [simp]: "link_eq l m \<longleftrightarrow> l = m"
  by (auto simp: link_eq_def prod_eq_iff)

lemma remove_link_between_eq:
  "remove_link_between p q ls = filter (\<lambda>(a, b). {a, b} \<noteq> {p, q}) ls"
  by (auto simp: remove_link_between_def doubleton_eq_iff intro: filter_cong)

lemma remove_links_from_eq:
  "remove_links_from p ls =
     (map (\<lambda>(a, b). if a = p then b else a) (filter (\<lambda>(a, b). p \<in> {a, b}) ls), filter (\<lambda>(a, b). p \<notin> {a, b}) ls)"
  by (induction ls) (auto simp: Let_def split: prod.splits)

lemma links_inv_filter: "links_inv ls \<Longrightarrow> links_inv (filter P ls)"
  by (auto simp: links_inv_def distinct_map intro: inj_on_subset)

lemma links_inv_link: "links_inv ls \<Longrightarrow> links_inv (link p q ls)"
  using links_inv_filter [of ls "\<lambda>(a, b). {a, b} \<noteq> {p, q}"]
  by (auto simp: link_def establish_link_between_def remove_link_between_eq links_inv_def)

lemma distinct_other_ends:
  assumes "links_inv ls"
  shows "distinct (fst (remove_links_from p ls))"
proof -
  let ?other = "\<lambda>(a, b). if a = p then b else a"
  have "inj_on ?other {l \<in> set ls. p \<in> {fst l, snd l}}"
  proof (rule inj_onI)
    fix l m
    assume l: "l \<in> {l \<in> set ls. p \<in> {fst l, snd l}}" and m: "m \<in> {l \<in> set ls. p \<in> {fst l, snd l}}"
      and "?other l = ?other m"
    then have "(\<lambda>(a, b). {a, b}) l = (\<lambda>(a, b). {a, b}) m"
      by (auto split: prod.splits if_splits)
    moreover have "inj_on (\<lambda>(a, b). {a, b}) (set ls)" using assms by (simp add: links_inv_def distinct_map)
    ultimately show "l = m" using l m by (elim inj_onD) simp_all
  qed
  moreover have "distinct ls" using assms by (auto simp: links_inv_def distinct_map)
  moreover have "filter (\<lambda>(a, b). p \<in> {a, b}) ls = filter (\<lambda>l. p \<in> {fst l, snd l}) ls"
    by (rule filter_cong) auto
  ultimately show ?thesis by (simp add: remove_links_from_eq distinct_map)
qed

interpretation linker: link_registry "[]" link unlink remove_links_from linked_pids links_inv
proof
  fix p q :: e_pid and s :: links
  show "linked_pids (link p q s) = insert {p, q} (linked_pids s)"
    by (auto simp: linked_pids_def link_def establish_link_between_def remove_link_between_eq)
  show "linked_pids (unlink p q s) = linked_pids s - {{p, q}}"
    by (auto simp: linked_pids_def unlink_def remove_link_between_eq)
  show "linked_pids (snd (remove_links_from p s)) = {l \<in> linked_pids s. p \<notin> l}"
    by (auto simp: linked_pids_def remove_links_from_eq)
  show "set (fst (remove_links_from p s)) = {q. {p, q} \<in> linked_pids s}"
    by (force simp: linked_pids_def remove_links_from_eq doubleton_eq_iff image_iff split: if_splits)
  show "links_inv s \<Longrightarrow> links_inv (unlink p q s)"
    by (simp add: unlink_def remove_link_between_eq links_inv_filter)
  show "links_inv s \<Longrightarrow> links_inv (snd (remove_links_from p s))"
    by (simp add: remove_links_from_eq links_inv_filter)
qed (simp_all add: links_inv_link distinct_other_ends, simp_all add: links_inv_def linked_pids_def)

section \<open>Histories\<close>

text \<open>The calls on the linker, and the links that a history of them leaves.\<close>

datatype linker_call = Link e_pid e_pid | Unlink e_pid e_pid | Remove_links_from e_pid

fun linker_do :: "linker_call \<Rightarrow> links \<Rightarrow> links" where
  "linker_do (Link p q) ls = link p q ls"
| "linker_do (Unlink p q) ls = unlink p q ls"
| "linker_do (Remove_links_from p) ls = snd (remove_links_from p ls)"

text \<open>The specification: the last call that concerns a pair decides.\<close>

fun still_linked :: "linker_call list \<Rightarrow> e_pid \<Rightarrow> e_pid \<Rightarrow> bool" where
  "still_linked [] a b = False"
| "still_linked (Link p q # earlier) a b = ({p, q} = {a, b} \<or> still_linked earlier a b)"
| "still_linked (Unlink p q # earlier) a b = ({p, q} \<noteq> {a, b} \<and> still_linked earlier a b)"
| "still_linked (Remove_links_from p # earlier) a b = (p \<notin> {a, b} \<and> still_linked earlier a b)"

lemma history_linked:
  "{a, b} \<in> linked_pids (foldr linker_do cs []) \<longleftrightarrow> still_linked cs a b"
proof (induction cs)
  case (Cons c cs)
  then show ?case
    by (cases c) (auto simp: linker.linked_add linker.linked_del linker.linked_take)
qed (simp add: linker.linked_none)

lemma history_inv: "links_inv (foldr linker_do cs [])"
proof (induction cs)
  case (Cons c cs)
  then show ?case
    by (cases c) (auto intro: linker.inv_add linker.inv_del linker.inv_take)
qed (simp add: linker.inv_none)

section \<open>Properties\<close>

text \<open>C10. After any history of links, unlinks and removals (latest first), the pids that a dying
  process is reported to are exactly those it is still linked with by the last call that
  concerned the pair, in either direction, each of them once.\<close>

theorem dying_process_reports:
  "set (fst (remove_links_from p (foldr linker_do cs []))) = {q. still_linked cs p q} \<and>
   distinct (fst (remove_links_from p (foldr linker_do cs [])))"
  using history_linked history_inv linker.taken linker.taken_once by auto

text \<open>The removal is complete and exact: afterwards the process has no link left, and all links
  between other processes are as before.\<close>

theorem removal_exact:
  "linked_pids (snd (remove_links_from p ls)) = {l \<in> linked_pids ls. p \<notin> l} \<and>
   fst (remove_links_from p (snd (remove_links_from p ls))) = []"
  by (simp add: linker.linked_take linker.take_leaves_none)

end
