(* ===== verification/Node.thy ===== *)
theory Node
  imports Connector Mailbox Linker
begin

text \<open>
  \<open>impl/actual_node.cpp\<close>, with the operations of \<open>impl/linker.cpp\<close> that notify, the link policies
  of \<open>impl/link_policies.cpp\<close> and the sending half of \<open>impl/actual_mailbox.cpp\<close>: a node owns the
  registries of its mailboxes, its links and its connector. The mailboxes are owned by the
  client; the registries hold weak pointers, so the model has a list of mailbox objects, of which
  destroyed ones are \<open>None\<close>, and registries of indices. An operation may throw, which keeps the
  state it has reached, or block for ever.
\<close>

section \<open>State and operations that may throw or block\<close>

record actual_node =
  own_node_name :: string
  pid_id :: u32
  serial :: u32
  creation :: int
  mailboxes :: "(e_pid \<times> nat) list"
  registered_mailboxes :: "(string \<times> nat) list"
  mailbox_objects :: "actual_mailbox option list"
  established_links :: links
  connector :: node_connector

type_synonym 'a node_op = "actual_node \<Rightarrow> ('a result \<times> actual_node) option"

text \<open>\<open>valid_node_name\<close>, which is still to verify the name.\<close>

definition valid_node_name :: "string \<Rightarrow> string" where
  "valid_node_name user_provided = user_provided"

declare valid_node_name_def [simp]

definition new_node :: "string \<Rightarrow> actual_node" where
  "new_node name =
     \<lparr>own_node_name = valid_node_name name, pid_id = 1, serial = 0, creation = 0, mailboxes = [], registered_mailboxes = [],
      mailbox_objects = [], established_links = [], connector = new_connector\<rparr>"

definition done_with :: "'a \<Rightarrow> 'a node_op" where
  "done_with x n = Some (Inr x, n)"

definition updating :: "(actual_node \<Rightarrow> actual_node) \<Rightarrow> unit node_op" where
  "updating f n = Some (Inr (), f n)"

definition then_do :: "'a node_op \<Rightarrow> ('a \<Rightarrow> 'b node_op) \<Rightarrow> 'b node_op" where
  "then_do m k n =
     (case m n of
        None \<Rightarrow> None
      | Some (Inl e, n) \<Rightarrow> Some (Inl e, n)
      | Some (Inr x, n) \<Rightarrow> k x n)"

lemmas op_defs = done_with_def updating_def then_do_def

section \<open>Pids\<close>

definition update_pid_fields :: "actual_node \<Rightarrow> actual_node" where
  "update_pid_fields n =
     (let n = n\<lparr>pid_id := pid_id n + 1\<rparr> in
      if pid_id n > 0x7fff
      then n\<lparr>pid_id := 0, serial := (if serial n + 1 > 0x1fff then 0 else serial n + 1)\<rparr>
      else n)"

definition make_pid :: "actual_node \<Rightarrow> e_pid \<times> actual_node" where
  "make_pid n =
     (\<lparr>node_name = own_node_name n, id_of = pid_id n, serial_of = serial n, creation_of = word_of_int (creation n)\<rparr>,
      update_pid_fields n)"

section \<open>Mailboxes\<close>

definition new_object :: "actual_mailbox \<Rightarrow> nat node_op" where
  "new_object m n = Some (Inr (length (mailbox_objects n)), n\<lparr>mailbox_objects := mailbox_objects n @ [Some m]\<rparr>)"

definition create_mailbox :: "nat node_op" where
  "create_mailbox n =
     (let (p, n) = make_pid n in
      then_do (new_object (new_mailbox p '''')) (\<lambda>a n.
        case insert_pid p a (mailboxes n) of
          Inl e \<Rightarrow> Some (Inl e, n)
        | Inr (added, ms) \<Rightarrow>
            if added then Some (Inr a, n\<lparr>mailboxes := ms\<rparr>)
            else Some (Inl Assert_failed, n)) n)"

definition create_named_mailbox :: "string \<Rightarrow> nat node_op" where
  "create_named_mailbox registered_name n =
     (let (p, n) = make_pid n in
      then_do (new_object (new_mailbox p registered_name)) (\<lambda>a n.
        case insert_pid p a (mailboxes n) of
          Inl e \<Rightarrow> Some (Inl e, n)
        | Inr (_, ms) \<Rightarrow>
            Some (Inr a, n\<lparr>mailboxes := ms,
              registered_mailboxes := map_insert registered_name a (registered_mailboxes n)\<rparr>)) n)"

definition remove_mailbox :: "e_pid \<Rightarrow> string \<Rightarrow> unit node_op" where
  "remove_mailbox p name n =
     (case erase_pid p (mailboxes n) of
        Inl e \<Rightarrow> Some (Inl e, n)
      | Inr ms \<Rightarrow> Some (Inr (), n\<lparr>mailboxes := ms, registered_mailboxes := map_erase name (registered_mailboxes n)\<rparr>))"

definition key_to_name :: "platform \<Rightarrow> e_pid \<Rightarrow> string" where
  "key_to_name pf p =
     ''<'' @ node_name p @ '':'' @ lexical_cast pf (uint (id_of p)) @ '':'' @ lexical_cast pf (uint (serial_of p)) @
     '':'' @ lexical_cast pf (uint (creation_of p)) @ ''>''"

text \<open>\<open>fetch_mailbox\<close> for the two registries: an expired entry is removed when it is met.\<close>

definition fetch_by_pid :: "platform \<Rightarrow> e_pid \<Rightarrow> nat node_op" where
  "fetch_by_pid pf p n =
     (case find_pid p (mailboxes n) of
        Inl e \<Rightarrow> Some (Inl e, n)
      | Inr None \<Rightarrow>
          Some (Inl (Tinch_pp_exception (''Failed to deliver message - mailbox not known. Name = '' @ key_to_name pf p)), n)
      | Inr (Some a) \<Rightarrow>
          if mailbox_objects n ! a = None
          then Some (Inl (Tinch_pp_exception
                 (''Failed to deliver message - mailbox expired (check your lifetime management). Name = '' @ key_to_name pf p)),
               n\<lparr>mailboxes := filter (\<lambda>(q, _). \<not> equivalent q p) (mailboxes n)\<rparr>)
          else Some (Inr a, n))"

definition fetch_by_name :: "string \<Rightarrow> nat node_op" where
  "fetch_by_name name n =
     (case map_of (registered_mailboxes n) name of
        None \<Rightarrow> Some (Inl (Tinch_pp_exception (''Failed to deliver message - mailbox not known. Name = '' @ name)), n)
      | Some a \<Rightarrow>
          if mailbox_objects n ! a = None
          then Some (Inl (Tinch_pp_exception
                 (''Failed to deliver message - mailbox expired (check your lifetime management). Name = '' @ name)),
               n\<lparr>registered_mailboxes := map_erase name (registered_mailboxes n)\<rparr>)
          else Some (Inr a, n))"

definition in_mailbox :: "nat \<Rightarrow> (actual_mailbox \<Rightarrow> actual_mailbox) \<Rightarrow> actual_node \<Rightarrow> actual_node" where
  "in_mailbox a f n = n\<lparr>mailbox_objects := (mailbox_objects n)[a := map_option f (mailbox_objects n ! a)]\<rparr>"

definition receive_incoming :: "platform \<Rightarrow> msg_seq \<Rightarrow> e_pid \<Rightarrow> unit node_op" where
  "receive_incoming pf msg to = then_do (fetch_by_pid pf to) (\<lambda>a. updating (in_mailbox a (on_incoming msg)))"

definition receive_incoming_name :: "msg_seq \<Rightarrow> string \<Rightarrow> unit node_op" where
  "receive_incoming_name msg to = then_do (fetch_by_name to) (\<lambda>a. updating (in_mailbox a (on_incoming msg)))"

section \<open>Links\<close>

definition linker_link :: "e_pid \<Rightarrow> e_pid \<Rightarrow> unit node_op" where
  "linker_link from to = updating (\<lambda>n. n\<lparr>established_links := link from to (established_links n)\<rparr>)"

definition linker_unlink :: "e_pid \<Rightarrow> e_pid \<Rightarrow> unit node_op" where
  "linker_unlink from to = updating (\<lambda>n. n\<lparr>established_links := unlink from to (established_links n)\<rparr>)"

definition incoming_link :: "e_pid \<Rightarrow> e_pid \<Rightarrow> unit node_op" where
  "incoming_link from to = linker_link from to"

definition incoming_unlink :: "e_pid \<Rightarrow> e_pid \<Rightarrow> unit node_op" where
  "incoming_unlink from to = linker_unlink from to"

definition incoming_exit :: "platform \<Rightarrow> e_pid \<Rightarrow> e_pid \<Rightarrow> string \<Rightarrow> unit node_op" where
  "incoming_exit pf from to reason =
     then_do (fetch_by_pid pf to) (\<lambda>a.
     then_do (updating (in_mailbox a (on_link_broken reason from))) (\<lambda>_.
     linker_unlink from to))"

definition incoming_exit2 :: "platform \<Rightarrow> e_pid \<Rightarrow> e_pid \<Rightarrow> string \<Rightarrow> unit node_op" where
  "incoming_exit2 pf from to reason = incoming_exit pf from to reason"

text \<open>A distributed operation on the connection to a node, which may have to be established first.\<close>

definition node_request :: "conn_env \<Rightarrow> network \<Rightarrow> control_msg \<Rightarrow> string \<Rightarrow> unit node_op" where
  "node_request env net msg destination n =
     (case get_connection_to env net (own_node_name n) destination (connector n) of
        None \<Rightarrow> None
      | Some (Inl e, s) \<Rightarrow> Some (Inl e, n\<lparr>connector := s\<rparr>)
      | Some (Inr i, s) \<Rightarrow>
          Some (Inr (), n\<lparr>connector := s\<lparr>connections := (connections s)[i := request env msg (connections s ! i)]\<rparr>\<rparr>))"

text \<open>The two link policies, as the tables of their virtual operations, and the choice between them.\<close>

record link_operations =
  link_op :: "e_pid \<Rightarrow> e_pid \<Rightarrow> unit node_op"
  unlink_op :: "e_pid \<Rightarrow> e_pid \<Rightarrow> unit node_op"
  exit_op :: "e_pid \<Rightarrow> e_pid \<Rightarrow> string \<Rightarrow> unit node_op"
  exit2_op :: "e_pid \<Rightarrow> e_pid \<Rightarrow> string \<Rightarrow> unit node_op"

definition link_operations_on_same_node :: "platform \<Rightarrow> link_operations" where
  "link_operations_on_same_node pf =
     \<lparr>link_op = (\<lambda>local_pid remote_pid. incoming_link local_pid remote_pid),
      unlink_op = (\<lambda>local_pid remote_pid. incoming_unlink local_pid remote_pid),
      exit_op = (\<lambda>from_pid to_pid reason. incoming_exit pf from_pid to_pid reason),
      exit2_op = (\<lambda>from_pid to_pid reason. incoming_exit2 pf from_pid to_pid reason)\<rparr>"

definition link_operations_on_remote_node :: "conn_env \<Rightarrow> network \<Rightarrow> link_operations" where
  "link_operations_on_remote_node env net =
     \<lparr>link_op = (\<lambda>local_pid remote_pid.
        then_do (node_request env net (Control_msg_link local_pid remote_pid) (node_name remote_pid))
          (\<lambda>_. linker_link local_pid remote_pid)),
      unlink_op = (\<lambda>local_pid remote_pid.
        then_do (linker_unlink local_pid remote_pid)
          (\<lambda>_. node_request env net (Control_msg_unlink local_pid remote_pid) (node_name remote_pid))),
      exit_op = (\<lambda>from_pid to_pid reason.
        node_request env net (Control_msg_exit from_pid to_pid reason) (node_name to_pid)),
      exit2_op = (\<lambda>from_pid to_pid reason.
        node_request env net (Control_msg_exit2 from_pid to_pid reason) (node_name to_pid))\<rparr>"

definition is_remote :: "e_pid \<Rightarrow> actual_node \<Rightarrow> bool" where
  "is_remote destination n \<longleftrightarrow> node_name destination \<noteq> own_node_name n"

definition dispatcher_for :: "conn_env \<Rightarrow> network \<Rightarrow> e_pid \<Rightarrow> actual_node \<Rightarrow> link_operations" where
  "dispatcher_for env net destination n =
     (if is_remote destination n then link_operations_on_remote_node env net
      else link_operations_on_same_node (env_platform env))"

definition node_link :: "conn_env \<Rightarrow> network \<Rightarrow> e_pid \<Rightarrow> e_pid \<Rightarrow> unit node_op" where
  "node_link env net local_pid remote_pid n =
     link_op (dispatcher_for env net remote_pid n) local_pid remote_pid n"

definition node_unlink :: "conn_env \<Rightarrow> network \<Rightarrow> e_pid \<Rightarrow> e_pid \<Rightarrow> unit node_op" where
  "node_unlink env net local_pid remote_pid n =
     unlink_op (dispatcher_for env net remote_pid n) local_pid remote_pid n"

definition request_exit :: "conn_env \<Rightarrow> network \<Rightarrow> e_pid \<Rightarrow> e_pid \<Rightarrow> string \<Rightarrow> unit node_op" where
  "request_exit env net from_pid to_pid reason n =
     exit_op (dispatcher_for env net to_pid n) from_pid to_pid reason n"

definition request_exit2 :: "conn_env \<Rightarrow> network \<Rightarrow> e_pid \<Rightarrow> e_pid \<Rightarrow> string \<Rightarrow> unit node_op" where
  "request_exit2 env net from_pid to_pid reason n =
     exit2_op (dispatcher_for env net to_pid n) from_pid to_pid reason n"

lemmas link_operation_defs =
  dispatcher_for_def link_operations_on_same_node_def link_operations_on_remote_node_def

text \<open>The operations by the place of the other process.\<close>

lemma link_operations_by_place:
  "node_link env net p q n =
     (if is_remote q n
      then then_do (node_request env net (Control_msg_link p q) (node_name q)) (\<lambda>_. linker_link p q) n
      else incoming_link p q n)"
  "node_unlink env net p q n =
     (if is_remote q n
      then then_do (linker_unlink p q) (\<lambda>_. node_request env net (Control_msg_unlink p q) (node_name q)) n
      else incoming_unlink p q n)"
  "request_exit env net p q reason n =
     (if is_remote q n then node_request env net (Control_msg_exit p q reason) (node_name q) n
      else incoming_exit (env_platform env) p q reason n)"
  "request_exit2 env net p q reason n =
     (if is_remote q n then node_request env net (Control_msg_exit2 p q reason) (node_name q) n
      else incoming_exit2 (env_platform env) p q reason n)"
  by (simp_all add: node_link_def node_unlink_def request_exit_def request_exit2_def link_operation_defs)

text \<open>\<open>on_broken_links\<close>: the links are removed first, then each other end is notified; an exception ends the loop.\<close>

fun for_each :: "('a \<Rightarrow> unit node_op) \<Rightarrow> 'a list \<Rightarrow> unit node_op" where
  "for_each f [] = done_with ()"
| "for_each f (x # xs) = then_do (f x) (\<lambda>_. for_each f xs)"

definition on_broken_links :: "(e_pid \<Rightarrow> unit node_op) \<Rightarrow> e_pid \<Rightarrow> unit node_op" where
  "on_broken_links notification_fn dying_process n =
     (let (closed_links, ls) = remove_links_from dying_process (established_links n)
      in for_each notification_fn closed_links (n\<lparr>established_links := ls\<rparr>))"

definition break_links_for_local :: "conn_env \<Rightarrow> network \<Rightarrow> e_pid \<Rightarrow> unit node_op" where
  "break_links_for_local env net dying_process =
     on_broken_links (\<lambda>p. request_exit env net dying_process p ''error'') dying_process"

definition close_links_for_local :: "conn_env \<Rightarrow> network \<Rightarrow> e_pid \<Rightarrow> string \<Rightarrow> unit node_op" where
  "close_links_for_local env net dying_process reason =
     on_broken_links (\<lambda>p. request_exit2 env net dying_process p reason) dying_process"

section \<open>Closing\<close>

definition close_mailbox_because :: "conn_env \<Rightarrow> network \<Rightarrow> e_pid \<Rightarrow> string \<Rightarrow> string \<Rightarrow> unit node_op" where
  "close_mailbox_because env net p name reason =
     then_do (close_links_for_local env net p reason) (\<lambda>_. remove_mailbox p name)"

definition close_mailbox :: "conn_env \<Rightarrow> network \<Rightarrow> e_pid \<Rightarrow> string \<Rightarrow> unit node_op" where
  "close_mailbox env net p name = close_mailbox_because env net p name ''normal''"

text \<open>What \<open>close_mailbox_async\<close> posts to the I/O thread.\<close>

definition close_mailbox_async :: "conn_env \<Rightarrow> network \<Rightarrow> e_pid \<Rightarrow> string \<Rightarrow> unit node_op" where
  "close_mailbox_async env net p name = close_mailbox_because env net p name ''error''"

text \<open>
  The destructor of a mailbox: the object has expired when it runs. Outside of stack unwinding
  it closes the mailbox and swallows every exception; during unwinding it only posts the
  arguments of \<open>close_mailbox_async\<close>, which are the value of the operation.
\<close>

definition destroy_mailbox :: "conn_env \<Rightarrow> network \<Rightarrow> bool \<Rightarrow> nat \<Rightarrow> (e_pid \<times> string) option node_op" where
  "destroy_mailbox env net uncaught_exception a n =
     (case mailbox_objects n ! a of
        None \<Rightarrow> Some (Inr None, n)
      | Some m \<Rightarrow>
          let n = n\<lparr>mailbox_objects := (mailbox_objects n)[a := None]\<rparr> in
          if uncaught_exception then Some (Inr (Some (own_pid m, own_name m)), n)
          else map_option (\<lambda>(r, n). (Inr None, n)) (close_mailbox env net (own_pid m) (own_name m) n))"

section \<open>Sending\<close>

definition deliver :: "conn_env \<Rightarrow> network \<Rightarrow> msg_seq \<Rightarrow> e_pid \<Rightarrow> unit node_op" where
  "deliver env net msg to_pid = node_request env net (Control_msg_send msg to_pid) (node_name to_pid)"

definition deliver_local :: "msg_seq \<Rightarrow> string \<Rightarrow> unit node_op" where
  "deliver_local msg to_name = receive_incoming_name msg to_name"

definition deliver_registered :: "conn_env \<Rightarrow> network \<Rightarrow> msg_seq \<Rightarrow> string \<Rightarrow> string \<Rightarrow> e_pid \<Rightarrow> unit node_op" where
  "deliver_registered env net msg to_name given_node from_pid =
     node_request env net (Control_msg_reg_send msg to_name from_pid) given_node"

definition ping_peer :: "conn_env \<Rightarrow> network \<Rightarrow> string \<Rightarrow> bool node_op" where
  "ping_peer env net peer n =
     (case get_connection_to env net (own_node_name n) peer (connector n) of
        None \<Rightarrow> None
      | Some (Inr _, s) \<Rightarrow> Some (Inr True, n\<lparr>connector := s\<rparr>)
      | Some (Inl e, s) \<Rightarrow>
          if is_tinch_pp_exception e then Some (Inr False, n\<lparr>connector := s\<rparr>) else Some (Inl e, n\<lparr>connector := s\<rparr>))"

definition all_connected_nodes :: "actual_node \<Rightarrow> string list" where
  "all_connected_nodes n = connected_nodes (connector n)"

definition publish_port :: "conn_env \<Rightarrow> epmd_socket \<Rightarrow> unit result \<Rightarrow> int \<Rightarrow> unit node_op" where
  "publish_port env sock acceptor port n =
     (case and_then (epmd_connect (env_platform env) ''127.0.0.1'' sock) (\<lambda>_.
             and_then (node_name_of (own_node_name n)) (\<lambda>name. alive2_request (env_platform env) sock name port)) of
        Inl e \<Rightarrow> Some (Inl e, n)
      | Inr c \<Rightarrow>
          let n = n\<lparr>creation := c\<rparr>;
              (r, s) = start_accept_incoming acceptor (connector n)
          in Some (r, n\<lparr>connector := s\<rparr>))"

text \<open>The calls that a connection makes on its node.\<close>

fun perform :: "platform \<Rightarrow> access_call \<Rightarrow> unit node_op" where
  "perform pf (Deliver_to_pid msg to) = receive_incoming pf msg to"
| "perform pf (Deliver_to_name msg to) = receive_incoming_name msg to"
| "perform pf (Request_link from to) = incoming_link from to"
| "perform pf (Request_unlink from to) = incoming_unlink from to"
| "perform pf (Request_exit from to reason) = incoming_exit pf from to reason"
| "perform pf (Request_exit2 from to reason) = incoming_exit2 pf from to reason"

section \<open>The sending half of a mailbox\<close>

definition mailbox_send :: "conn_env \<Rightarrow> network \<Rightarrow> e_pid \<Rightarrow> obj \<Rightarrow> unit node_op" where
  "mailbox_send env net to_pid message = deliver env net (serialize (env_platform env) message) to_pid"

definition mailbox_send_local :: "conn_env \<Rightarrow> string \<Rightarrow> obj \<Rightarrow> unit node_op" where
  "mailbox_send_local env to_name message = deliver_local (serialize (env_platform env) message) to_name"

definition mailbox_send_to ::
  "conn_env \<Rightarrow> network \<Rightarrow> actual_mailbox \<Rightarrow> string \<Rightarrow> string \<Rightarrow> obj \<Rightarrow> unit node_op" where
  "mailbox_send_to env net self to_name on_given_node message =
     deliver_registered env net (serialize (env_platform env) message) to_name on_given_node (own_pid self)"

definition mailbox_close :: "conn_env \<Rightarrow> network \<Rightarrow> actual_mailbox \<Rightarrow> unit node_op" where
  "mailbox_close env net self = close_mailbox env net (own_pid self) (own_name self)"

definition mailbox_link :: "conn_env \<Rightarrow> network \<Rightarrow> actual_mailbox \<Rightarrow> e_pid \<Rightarrow> unit node_op" where
  "mailbox_link env net self to_link = node_link env net (own_pid self) to_link"

definition mailbox_unlink :: "conn_env \<Rightarrow> network \<Rightarrow> actual_mailbox \<Rightarrow> e_pid \<Rightarrow> unit node_op" where
  "mailbox_unlink env net self to_unlink = node_unlink env net (own_pid self) to_unlink"

section \<open>Pids are fresh\<close>

definition pid_counter :: "actual_node \<Rightarrow> nat" where
  "pid_counter n = unat (serial n) * 2 ^ 15 + unat (pid_id n)"

definition pids_inv :: "actual_node \<Rightarrow> bool" where
  "pids_inv n \<longleftrightarrow> pid_id n \<le> 0x7fff \<and> serial n \<le> 0x1fff"

lemma pids_inv_nat: "pids_inv n \<longleftrightarrow> unat (pid_id n) < 2 ^ 15 \<and> unat (serial n) < 2 ^ 13"
  by (auto simp: pids_inv_def word_le_nat_alt)

lemma unat_inc:
  fixes w :: u32
  assumes "unat w < 2 ^ 15"
  shows "unat (w + 1) = unat w + 1"
  using assms by (simp add: unat_word_ariths)

lemma update_pid_fields_counter:
  assumes "pids_inv n"
  shows "pids_inv (update_pid_fields n) \<and> pid_counter (update_pid_fields n) = (pid_counter n + 1) mod 2 ^ 28"
proof -
  have u: "unat (pid_id n) < 2 ^ 15" "unat (serial n) < 2 ^ 13" using assms by (simp_all add: pids_inv_nat)
  have i: "unat (pid_id n + 1) = unat (pid_id n) + 1" "unat (serial n + 1) = unat (serial n) + 1"
    using u by (simp_all add: unat_inc)
  have gt: "pid_id n + 1 > 0x7fff \<longleftrightarrow> unat (pid_id n) = 2 ^ 15 - 1" "serial n + 1 > 0x1fff \<longleftrightarrow> unat (serial n) = 2 ^ 13 - 1"
    using u by (auto simp: word_less_nat_alt i)
  show ?thesis
    using u by (auto simp: update_pid_fields_def Let_def gt pids_inv_nat pid_counter_def i)
qed

lemma update_pid_fields_iterate:
  assumes "pids_inv n"
  shows "pids_inv ((update_pid_fields ^^ k) n) \<and> pid_counter ((update_pid_fields ^^ k) n) = (pid_counter n + k) mod 2 ^ 28"
proof (induction k)
  case 0
  have "pid_counter n < 2 ^ 28" using assms by (auto simp: pids_inv_nat pid_counter_def)
  then show ?case using assms by simp
next
  case (Suc k)
  then show ?case using update_pid_fields_counter [of "(update_pid_fields ^^ k) n"] by (simp add: mod_Suc_eq)
qed

lemma new_node_pids: "pids_inv (new_node name)"
  by (simp add: pids_inv_def new_node_def)

section \<open>Creations\<close>

lemma create_mailbox_cases:
  assumes "create_mailbox n = Some (Inr a, n')"
  shows "a = length (mailbox_objects n)"
    and "mailbox_objects n' = mailbox_objects n @ [Some (new_mailbox (fst (make_pid n)) '''')]"
    and "find_pid (fst (make_pid n)) (mailboxes n') = Inr (Some a)"
    and "established_links n' = established_links n"
  using assms insert_find
  by (auto simp: create_mailbox_def make_pid_def new_object_def then_do_def update_pid_fields_def Let_def
      split: sum.splits if_splits)

lemma created_named:
  assumes "create_named_mailbox name n = Some (Inr a, n')"
  shows "a = length (mailbox_objects n)"
    and "mailbox_objects n' = mailbox_objects n @ [Some (new_mailbox (fst (make_pid n)) name)]"
    and "registered_mailboxes n' = map_insert name a (registered_mailboxes n)"
    and "established_links n' = established_links n"
  using assms
  by (auto simp: create_named_mailbox_def make_pid_def new_object_def then_do_def update_pid_fields_def Let_def
      split: sum.splits if_splits)

section \<open>Telling linked mailboxes\<close>

lemma nth_update_if: "xs[i := x] ! j = (if j = i \<and> i < length xs then x else xs ! j)"
  by (cases "i < length xs") (auto simp: nth_list_update list_update_beyond)

text \<open>A mailbox of this node that a pid leads to.\<close>

definition alive_at :: "actual_node \<Rightarrow> e_pid \<Rightarrow> nat \<Rightarrow> bool" where
  "alive_at n q b \<longleftrightarrow> find_pid q (mailboxes n) = Inr (Some b) \<and> mailbox_objects n ! b \<noteq> None \<and> b < length (mailbox_objects n)"

lemma alive_at_fetch: "alive_at n q b \<Longrightarrow> fetch_by_pid pf q n = Some (Inr b, n)"
  by (auto simp: alive_at_def fetch_by_pid_def)

text \<open>The state after the mailbox \<open>b\<close> of \<open>q\<close> has been told that \<open>p\<close> is gone.\<close>

definition after_exit :: "e_pid \<Rightarrow> string \<Rightarrow> e_pid \<Rightarrow> nat \<Rightarrow> actual_node \<Rightarrow> actual_node" where
  "after_exit p reason q b n =
     (in_mailbox b (on_link_broken reason p) n)\<lparr>established_links := unlink p q (established_links n)\<rparr>"

lemma incoming_exit_alive:
  assumes "alive_at n q b"
  shows "incoming_exit pf p q reason n = Some (Inr (), after_exit p reason q b n)"
  using alive_at_fetch [OF assms]
  by (simp add: incoming_exit_def op_defs after_exit_def in_mailbox_def linker_unlink_def)

lemma after_exit_fields [simp]:
  "mailboxes (after_exit p reason q b n) = mailboxes n"
  "own_node_name (after_exit p reason q b n) = own_node_name n"
  "established_links (after_exit p reason q b n) = unlink p q (established_links n)"
  "registered_mailboxes (after_exit p reason q b n) = registered_mailboxes n"
  by (simp_all add: after_exit_def in_mailbox_def)

lemma alive_after_exit: "alive_at n q' b' \<Longrightarrow> alive_at (after_exit p reason q b n) q' b'"
  by (auto simp: alive_at_def after_exit_def in_mailbox_def nth_update_if)

section \<open>Requests over an established connection\<close>

text \<open>The connection \<open>i\<close> to a node is connected and has nothing to write.\<close>

definition idle_connection :: "actual_node \<Rightarrow> string \<Rightarrow> nat \<Rightarrow> bool" where
  "idle_connection n destination i \<longleftrightarrow>
     map_of (node_connections (connector n)) destination = Some i \<and> i < length (connections (connector n)) \<and>
     conn_state (connections (connector n) ! i) = Connected \<and> write_queue (connections (connector n) ! i) = []"

definition written_to :: "actual_node \<Rightarrow> nat \<Rightarrow> msg_seq list" where
  "written_to n i = started_writes (connections (connector n) ! i)"

lemma request_idle:
  assumes "idle_connection n destination i"
  shows "\<exists>s. node_request env net msg destination n = Some (Inr (), n\<lparr>connector := s\<rparr>) \<and>
    written_to (n\<lparr>connector := s\<rparr>) i = written_to n i @ [execute_connected (env_platform env) msg]"
  using assms
  by (auto simp: idle_connection_def node_request_def get_connection_to_def request_def trigger_checked_write_def
      async_write_front_def written_to_def Let_def simp del: execute_connected.simps)

text \<open>A node with such a connection, for the examples.\<close>

definition sample_env :: conn_env where
  "sample_env = \<lparr>env_platform = documented_platform, env_garbage = [], env_cookie = ''c''\<rparr>"

definition connected_node :: actual_node where
  "connected_node =
     (new_node ''a@h'')\<lparr>connector := new_connector\<lparr>node_connections := [(''b@h'', 0)],
        connections := [(create_connection (Some ''b@h'') ''a@h'')\<lparr>conn_state := Connected, current_lexer := Connected_msgs\<rparr>]\<rparr>\<rparr>"

lemma sample_env:
  "spirit (env_platform sample_env)" "\<not> char_is_signed (env_platform sample_env)"
  "env_platform sample_env = documented_platform"
  by (simp_all add: sample_env_def doc.spirit_axioms)

lemma connected_node_idle: "idle_connection connected_node ''b@h'' 0"
  by (simp add: idle_connection_def connected_node_def new_connector_def create_connection_def)

section \<open>A mailbox that outlives many others\<close>

text \<open>The pids of successive mailboxes.\<close>

fun make_pids :: "nat \<Rightarrow> actual_node \<Rightarrow> e_pid list" where
  "make_pids 0 n = []"
| "make_pids (Suc k) n = (let (p, n) = make_pid n in p # make_pids k n)"

lemma make_pids_eq: "make_pids k n = map (\<lambda>i. fst (make_pid ((update_pid_fields ^^ i) n))) [0..<k]"
proof (induction k arbitrary: n)
  case (Suc k)
  have "map (\<lambda>i. fst (make_pid ((update_pid_fields ^^ i) n))) [0..<Suc k] =
      fst (make_pid n) # map (\<lambda>i. fst (make_pid ((update_pid_fields ^^ i) (update_pid_fields n)))) [0..<k]"
    by (simp only: upt_conv_Cons [of 0 "Suc k"] map_Suc_upt [symmetric] list.map map_map comp_def
        funpow_Suc_right funpow_0 zero_less_Suc)
  then show ?case using Suc.IH [of "update_pid_fields n"] by (simp add: make_pid_def Let_def)
qed simp

lemma make_pid_counter:
  "unat (serial_of (fst (make_pid n))) * 2 ^ 15 + unat (id_of (fst (make_pid n))) = pid_counter n"
  by (simp add: make_pid_def pid_counter_def)

lemma mod_shift_inj:
  fixes c i j m :: nat
  assumes "(c + i) mod m = (c + j) mod m" and "i < m" and "j < m"
  shows "i = j"
proof -
  have "a = b" if "(c + b) mod m = (c + a) mod m" "a \<le> b" "b < m" for a b
    using mod_eq_dvd_iff_nat [of "c + a" "c + b" m] that by (auto dest: dvd_imp_le)
  then show ?thesis using assms by (metis linear)
qed

lemma make_pids_distinct:
  assumes "pids_inv n" and "k \<le> 2 ^ 28"
  shows "distinct (make_pids k n)"
proof -
  let ?p = "\<lambda>i. fst (make_pid ((update_pid_fields ^^ i) n))"
  have "inj_on ?p {0..<k}"
  proof (rule inj_onI)
    fix i j assume ij: "i \<in> {0..<k}" "j \<in> {0..<k}" and "?p i = ?p j"
    then have "pid_counter ((update_pid_fields ^^ i) n) = pid_counter ((update_pid_fields ^^ j) n)"
      by (metis make_pid_counter)
    then have "(pid_counter n + i) mod 2 ^ 28 = (pid_counter n + j) mod 2 ^ 28"
      using update_pid_fields_iterate [OF assms(1)] by simp
    then show "i = j" using mod_shift_inj [of "pid_counter n" i "2 ^ 28" j] ij assms(2) by simp
  qed
  then show ?thesis by (simp add: make_pids_eq distinct_map)
qed

text \<open>Mailboxes that are created and closed again, one after the other.\<close>

definition create_and_close :: "conn_env \<Rightarrow> network \<Rightarrow> unit node_op" where
  "create_and_close env net =
     then_do create_mailbox (\<lambda>a n.
       case mailbox_objects n ! a of
         None \<Rightarrow> Some (Inr (), n)
       | Some m \<Rightarrow> mailbox_close env net m n)"

fun churn :: "conn_env \<Rightarrow> network \<Rightarrow> nat \<Rightarrow> unit node_op" where
  "churn env net 0 = done_with ()"
| "churn env net (Suc k) = then_do (create_and_close env net) (\<lambda>_. churn env net k)"


text \<open>A node on which one mailbox is registered and nothing is linked.\<close>

definition lone_mailbox :: "e_pid \<Rightarrow> nat \<Rightarrow> actual_node \<Rightarrow> bool" where
  "lone_mailbox p a n \<longleftrightarrow> mailboxes n = [(p, a)] \<and> established_links n = []"

lemma serial_zero:
  assumes "pid_counter n = c" and "c < 2 ^ 15"
  shows "serial n = 0" and "unat (pid_id n) = c"
proof -
  have "unat (serial n) = 0" using assms by (simp add: pid_counter_def)
  then show "serial n = 0" by (simp add: unat_eq_zero)
  then show "unat (pid_id n) = c" using assms(1) by (simp add: pid_counter_def)
qed

lemma counter_fields:
  assumes "pids_inv n"
  shows "unat (pid_id n) = pid_counter n mod 2 ^ 15" and "unat (serial n) = pid_counter n div 2 ^ 15"
  using assms by (simp_all add: pids_inv_nat pid_counter_def)

lemma update_pid_fields_frame [simp]:
  "mailboxes (update_pid_fields n) = mailboxes n"
  "mailbox_objects (update_pid_fields n) = mailbox_objects n"
  "established_links (update_pid_fields n) = established_links n"
  "registered_mailboxes (update_pid_fields n) = registered_mailboxes n"
  "own_node_name (update_pid_fields n) = own_node_name n"
  by (simp_all add: update_pid_fields_def Let_def)

lemma create_and_close_lone:
  assumes "lone_mailbox p a n" and "pids_inv n" and "id_of p = 1" and "serial_of p = 0"
    and "2 \<le> pid_counter n" and "pid_counter n < 2 ^ 15"
  shows "\<exists>n'. create_and_close env net n = Some (Inr (), n') \<and> lone_mailbox p a n' \<and> pids_inv n' \<and>
    pid_counter n' = pid_counter n + 1"
proof -
  let ?p = "fst (make_pid n)"
  have s: "serial n = 0" "2 \<le> unat (pid_id n)"
    using serial_zero [OF refl assms(6)] assms(5) by simp_all
  then have gt: "1 < pid_id n" by (simp add: word_less_nat_alt)
  have less: "pid_less p ?p" "\<not> pid_less ?p p" using s gt assms(3,4) by (auto simp: pid_less_def make_pid_def)
  have self: "\<not> pid_less q q" for q by (simp add: pid_less_def)
  have c: "comparable [?p, p]" "comparable [?p, p, ?p]" using less self by (auto simp: comparable_def)
  have ne: "\<not> equivalent p ?p" "equivalent ?p ?p" using less self by (auto simp: equivalent_def)
  show ?thesis
    using update_pid_fields_counter [OF assms(2)] assms(1,6) c ne
    by (simp add: create_and_close_def create_mailbox_def op_defs make_pid_def new_object_def insert_pid_def find_pid_def
        lone_mailbox_def mailbox_close_def close_mailbox_def close_mailbox_because_def close_links_for_local_def
        on_broken_links_def remove_mailbox_def erase_pid_def new_mailbox_def pids_inv_def pid_counter_def)
qed


lemma churn_lone:
  assumes "lone_mailbox p a n" and "pids_inv n" and "id_of p = 1" and "serial_of p = 0"
    and "2 \<le> pid_counter n" and "pid_counter n + k \<le> 2 ^ 15"
  shows "\<exists>n'. churn env net k n = Some (Inr (), n') \<and> lone_mailbox p a n' \<and> pids_inv n' \<and>
    pid_counter n' = pid_counter n + k"
  using assms
proof (induction k arbitrary: n)
  case 0
  then show ?case by (simp add: done_with_def)
next
  case (Suc k)
  obtain n1 where n1: "create_and_close env net n = Some (Inr (), n1)" "lone_mailbox p a n1" "pids_inv n1"
    "pid_counter n1 = pid_counter n + 1"
    using create_and_close_lone [OF Suc.prems(1-5)] Suc.prems(6) by auto
  show ?case using Suc.IH [of n1] n1 Suc.prems by (simp add: then_do_def)
qed

lemma create_incomparable:
  assumes "(p, a) \<in> set (mailboxes n)" and "pid_id n < id_of p" and "serial_of p < serial n"
  shows "\<exists>n'. create_mailbox n = Some (Inl Undefined_behaviour, n')"
proof -
  have "pid_less (fst (make_pid n)) p" "pid_less p (fst (make_pid n))"
    using assms(2,3) by (auto simp: pid_less_def make_pid_def)
  moreover have "p \<in> set (map fst (mailboxes n))" using assms(1) by force
  ultimately have "\<not> comparable (fst (make_pid n) # map fst (mailboxes n))"
    by (auto simp: comparable_def list_all_iff)
  then show ?thesis
    by (simp add: create_mailbox_def make_pid_def new_object_def then_do_def insert_pid_def find_pid_def)
qed

text \<open>Two mailboxes that are linked, as two creations and a link leave them.\<close>

definition linked_pair :: actual_node where
  "linked_pair =
     (let n = new_node ''a@h'';
          p = fst (make_pid n);
          q = fst (make_pid (update_pid_fields n))
      in n\<lparr>pid_id := 3, mailboxes := [(p, 0), (q, 1)],
           mailbox_objects := [Some (new_mailbox p ''''), Some (new_mailbox q '''')], established_links := [(p, q)]\<rparr>)"

lemmas node_sims =
  create_mailbox_def make_pid_def new_object_def then_do_def insert_pid_def find_pid_def comparable_def equivalent_iff
  pid_less_def new_node_def update_pid_fields_def Let_def

lemma linked_pair_reached:
  "then_do create_mailbox (\<lambda>_. then_do create_mailbox (\<lambda>_.
     node_link env net (fst (make_pid (new_node ''a@h''))) (fst (make_pid (update_pid_fields (new_node ''a@h''))))))
     (new_node ''a@h'') = Some (Inr (), linked_pair)"
  by (simp add: node_sims linked_pair_def link_operations_by_place is_remote_def incoming_link_def linker_link_def updating_def
      link_def establish_link_between_def remove_link_between_def)

section \<open>Properties\<close>

text \<open>C21. From its start on, a node that makes pids one after the other hands out pids that are all different for 2 to
  the 28 mailboxes; the identifier stays within 15 bits and the serial within 13.\<close>

theorem pids_unique:
  assumes "k \<le> 2 ^ 28"
  shows "distinct (make_pids k (new_node name)) \<and>
    (\<forall>p\<in>set (make_pids k (new_node name)). id_of p \<le> 0x7fff \<and> serial_of p \<le> 0x1fff)"
proof -
  have "id_of (fst (make_pid ((update_pid_fields ^^ i) (new_node name)))) \<le> 0x7fff \<and>
      serial_of (fst (make_pid ((update_pid_fields ^^ i) (new_node name)))) \<le> 0x1fff" for i
    using update_pid_fields_iterate [OF new_node_pids, of i name] by (simp add: pids_inv_def make_pid_def)
  then show ?thesis using make_pids_distinct [OF new_node_pids assms] by (auto simp: make_pids_eq)
qed

theorem pids_unique_witness:
  "distinct (make_pids 32768 (new_node ''a@h'')) \<and> id_of (fst (make_pid (new_node ''a@h''))) \<le> 0x7fff"
proof -
  have "fst (make_pid (new_node ''a@h'')) \<in> set (make_pids 32768 (new_node ''a@h''))"
    by (auto simp: make_pids_eq image_iff intro!: bexI [of _ 0])
  then show ?thesis using pids_unique [of 32768 "''a@h''"] by simp
qed

text \<open>C39. The comparison of pids is not an order once the serial has been incremented: when the
  first mailbox of a node is still open after 32766 others have been created and closed, the next
  creation uses the registry with two keys of which each is less than the other, which is
  undefined behaviour of the container.\<close>

theorem long_lived_mailbox_breaks_registry:
  "\<exists>n1 n2 n3. create_mailbox (new_node name) = Some (Inr 0, n1) \<and>
     churn env net 32766 n1 = Some (Inr (), n2) \<and>
     create_mailbox n2 = Some (Inl Undefined_behaviour, n3)"
proof -
  let ?p = "fst (make_pid (new_node name))"
  obtain n1 where n1: "create_mailbox (new_node name) = Some (Inr 0, n1)" "lone_mailbox ?p 0 n1" "pids_inv n1"
    "pid_counter n1 = 2"
    by (simp add: create_mailbox_def make_pid_def new_object_def then_do_def insert_pid_def find_pid_def comparable_def
        pid_less_def new_node_def update_pid_fields_def Let_def lone_mailbox_def pids_inv_def pid_counter_def)
  have p: "id_of ?p = 1" "serial_of ?p = 0" by (simp_all add: make_pid_def new_node_def)
  obtain n2 where n2: "churn env net 32766 n1 = Some (Inr (), n2)" "lone_mailbox ?p 0 n2" "pids_inv n2"
    "pid_counter n2 = 2 ^ 15"
    using churn_lone [OF n1(2,3) p, of 32766 env net] n1(4) by auto
  have "unat (pid_id n2) = 0" "unat (serial n2) = 1"
    using counter_fields [OF n2(3)] n2(4) by simp_all
  then have "pid_id n2 = 0" "serial n2 = 1" by (simp_all add: word_unat_eq_iff)
  then show ?thesis using n1(1) n2(1,2) p create_incomparable [of ?p 0 n2] by (simp add: lone_mailbox_def)
qed


text \<open>A mailbox that has just been created can be reached: a message to its pid arrives in it, at
  the front of its messages, and nothing else in the node changes.\<close>

theorem created_mailbox_receives:
  assumes "create_mailbox n = Some (Inr a, n1)"
  shows "receive_incoming pf msg (fst (make_pid n)) n1 =
    Some (Inr (), n1\<lparr>mailbox_objects := mailbox_objects n @ [Some (on_incoming msg (new_mailbox (fst (make_pid n)) ''''))]\<rparr>)"
proof -
  have "alive_at n1 (fst (make_pid n)) a" using create_mailbox_cases [OF assms] by (simp add: alive_at_def)
  then show ?thesis using create_mailbox_cases(1,2) [OF assms] alive_at_fetch
    by (simp add: receive_incoming_def op_defs in_mailbox_def)
qed

theorem created_mailbox_receives_witness:
  "\<exists>a n1. create_mailbox (new_node ''a@h'') = Some (Inr a, n1) \<and>
     receive_incoming documented_platform [131, 97, 1] (fst (make_pid (new_node ''a@h''))) n1 =
     Some (Inr (), n1\<lparr>mailbox_objects :=
       [Some (on_incoming [131, 97, 1] (new_mailbox (fst (make_pid (new_node ''a@h''))) ''''))]\<rparr>)"
proof -
  obtain n1 where "create_mailbox (new_node ''a@h'') = Some (Inr 0, n1)"
    by (simp add: create_mailbox_def make_pid_def new_object_def then_do_def insert_pid_def find_pid_def comparable_def
        pid_less_def new_node_def update_pid_fields_def Let_def)
  then show ?thesis using created_mailbox_receives [of "new_node ''a@h''" 0 n1] by (auto simp: new_node_def)
qed

text \<open>C40. When the first process that a closing mailbox is linked with is a local one that the node
  does not know (a link may name any pid), closing throws: every link of the mailbox is already gone, no
  linked mailbox has been told, and the mailbox is still registered.\<close>

theorem unknown_link_aborts_close:
  assumes "remove_links_from p (established_links n) = (q # qs, ls)"
    and "\<not> is_remote q n" and "find_pid q (mailboxes n) = Inr None"
  shows "close_mailbox env net p name n =
    Some (Inl (Tinch_pp_exception
            (''Failed to deliver message - mailbox not known. Name = '' @ key_to_name (env_platform env) q)),
          n\<lparr>established_links := ls\<rparr>)"
  using assms
  by (simp add: close_mailbox_def close_mailbox_because_def close_links_for_local_def on_broken_links_def link_operations_by_place
      incoming_exit2_def incoming_exit_def fetch_by_pid_def op_defs is_remote_def)

theorem unknown_link_aborts_close_witness:
  "\<forall>env net. close_mailbox env net (fst (make_pid (new_node ''a@h''))) ''''
     (linked_pair\<lparr>established_links := (fst (make_pid (new_node ''a@h'')), fst (make_pid linked_pair)) # established_links linked_pair\<rparr>) =
   Some (Inl (Tinch_pp_exception
            (''Failed to deliver message - mailbox not known. Name = '' @ key_to_name (env_platform env) (fst (make_pid linked_pair)))),
          linked_pair\<lparr>established_links := []\<rparr>)"
  using unknown_link_aborts_close [of "fst (make_pid (new_node ''a@h''))"
    "linked_pair\<lparr>established_links := (fst (make_pid (new_node ''a@h'')), fst (make_pid linked_pair)) # established_links linked_pair\<rparr>"
    "fst (make_pid linked_pair)" "[fst (make_pid (update_pid_fields (new_node ''a@h'')))]" "[]" _ _ "''''"]
  by (simp add: linked_pair_def node_sims is_remote_def)

text \<open>A registered name may be given twice: messages to the name then reach the first mailbox, and
  closing the second, unlinked mailbox removes the name, so that the first one, still open, can no longer
  be reached by it.\<close>

theorem duplicate_name_unregisters:
  assumes "map_of (registered_mailboxes n) name = None"
    and "create_named_mailbox name n = Some (Inr a, n1)" and "create_named_mailbox name n1 = Some (Inr b, n2)"
    and "fst (remove_links_from (fst (make_pid n1)) (established_links n)) = []"
    and "close_mailbox env net (fst (make_pid n1)) name n2 = Some (Inr (), n3)"
  shows "fetch_by_name name n2 = Some (Inr a, n2) \<and>
    fetch_by_name name n3 =
      Some (Inl (Tinch_pp_exception (''Failed to deliver message - mailbox not known. Name = '' @ name)), n3) \<and>
    mailbox_objects n3 ! a = Some (new_mailbox (fst (make_pid n)) name)"
proof -
  have a: "a = length (mailbox_objects n)" "mailbox_objects n1 = mailbox_objects n @ [Some (new_mailbox (fst (make_pid n)) name)]"
    "registered_mailboxes n1 = map_insert name a (registered_mailboxes n)" "established_links n1 = established_links n"
    using created_named [OF assms(2)] by simp_all
  have b: "mailbox_objects n2 = mailbox_objects n1 @ [Some (new_mailbox (fst (make_pid n1)) name)]"
    "registered_mailboxes n2 = map_insert name b (registered_mailboxes n1)" "established_links n2 = established_links n1"
    using created_named [OF assms(3)] by simp_all
  have r: "map_of (registered_mailboxes n2) name = Some a"
    using a(3) b(2) assms(1) by (simp add: map_of_insert)
  have o: "mailbox_objects n2 ! a = Some (new_mailbox (fst (make_pid n)) name)" using a b by (simp add: nth_append)
  have "mailbox_objects n3 = mailbox_objects n2" "map_of (registered_mailboxes n3) name = None"
    using assms(4,5) a(4) b(3)
    by (auto simp: close_mailbox_def close_mailbox_because_def close_links_for_local_def on_broken_links_def op_defs
        remove_mailbox_def map_erase_def map_of_eq_None_iff split: prod.splits sum.splits)
  then show ?thesis using r o by (simp add: fetch_by_name_def)
qed

theorem duplicate_name_unregisters_witness:
  "\<forall>env net. \<exists>n1 n2 n3. create_named_mailbox ''x'' (new_node ''a@h'') = Some (Inr 0, n1) \<and>
     create_named_mailbox ''x'' n1 = Some (Inr 1, n2) \<and>
     close_mailbox env net (fst (make_pid n1)) ''x'' n2 = Some (Inr (), n3) \<and>
     fetch_by_name ''x'' n2 = Some (Inr 0, n2) \<and>
     fetch_by_name ''x'' n3 =
       Some (Inl (Tinch_pp_exception (''Failed to deliver message - mailbox not known. Name = '' @ ''x'')), n3) \<and>
     mailbox_objects n3 ! 0 = Some (new_mailbox (fst (make_pid (new_node ''a@h''))) ''x'')"
proof (intro allI)
  fix env net
  let ?n = "new_node ''a@h''"
  obtain n1 where n1: "create_named_mailbox ''x'' ?n = Some (Inr 0, n1)"
    by (simp add: create_named_mailbox_def node_sims)
  obtain n2 where n2: "create_named_mailbox ''x'' n1 = Some (Inr 1, n2)"
    using n1 by (auto simp: create_named_mailbox_def node_sims)
  obtain n3 where n3: "close_mailbox env net (fst (make_pid n1)) ''x'' n2 = Some (Inr (), n3)"
    using n1 n2 by (auto simp: create_named_mailbox_def node_sims close_mailbox_def close_mailbox_because_def
        close_links_for_local_def on_broken_links_def op_defs remove_mailbox_def erase_pid_def)
  show "\<exists>n1 n2 n3. create_named_mailbox ''x'' ?n = Some (Inr 0, n1) \<and>
     create_named_mailbox ''x'' n1 = Some (Inr 1, n2) \<and>
     close_mailbox env net (fst (make_pid n1)) ''x'' n2 = Some (Inr (), n3) \<and>
     fetch_by_name ''x'' n2 = Some (Inr 0, n2) \<and>
     fetch_by_name ''x'' n3 =
       Some (Inl (Tinch_pp_exception (''Failed to deliver message - mailbox not known. Name = '' @ ''x'')), n3) \<and>
     mailbox_objects n3 ! 0 = Some (new_mailbox (fst (make_pid ?n)) ''x'')"
    using duplicate_name_unregisters [OF _ n1 n2 _ n3] n1 n2 n3 by (simp add: new_node_def)
qed

end
