(* ===== verification/Rpc.thy ===== *)
theory Rpc
  imports Node
begin

text \<open>
  Remote procedure calls, \<open>impl/rpc.cpp\<close>, and the makers of \<open>impl/type_makers.cpp\<close>. A call is a
  message to the process \<open>rex\<close> of the remote node and a receive on the mailbox of the \<open>rpc\<close>
  object; what the I/O thread does to the node while the caller waits is an argument of the
  model. The two blocking calls differ in the timer that the second one starts, which is an event of the
  mailbox.
\<close>

section \<open>Makers\<close>

definition make_atom :: "string \<Rightarrow> obj" where
  "make_atom s = E_atom (Val s)"

definition make_pid_term :: "e_pid \<Rightarrow> obj" where
  "make_pid_term p = E_pid (Val p)"

definition make_int :: "u32 \<Rightarrow> obj" where
  "make_int i = E_int (Val i)"

definition make_string :: "string \<Rightarrow> obj" where
  "make_string s = E_string (Val s)"

section \<open>Calls\<close>

type_synonym module_and_function = "string \<times> string"

text \<open>\<open>{self, {call, Mod, Fun, Args, user}}\<close>.\<close>

definition rpc_call :: "e_pid \<Rightarrow> module_and_function \<Rightarrow> obj list \<Rightarrow> obj" where
  "rpc_call self remote_fn arguments =
     E_tuple [E_pid (Val self),
       E_tuple [E_atom (Val ''call''), E_atom (Val (fst remote_fn)), E_atom (Val (snd remote_fn)), E_list arguments,
         E_atom (Val ''user'')]]"

definition do_rpc ::
  "conn_env \<Rightarrow> network \<Rightarrow> actual_mailbox \<Rightarrow> string \<Rightarrow> module_and_function \<Rightarrow> obj list \<Rightarrow> unit node_op" where
  "do_rpc env net mbox remote_node remote_fn arguments =
     mailbox_send_to env net mbox ''rex'' remote_node (rpc_call (own_pid mbox) remote_fn arguments)"

text \<open>The variable \<open>reply_part\<close> is number 0.\<close>

definition reply_pattern :: obj where
  "reply_pattern = E_tuple [E_atom (Val ''rex''), Any (Some 0)]"

definition reply_part :: "writes \<Rightarrow> msg_seq" where
  "reply_part w = (case map_of w 0 of Some (Bound_matchable s) \<Rightarrow> s | _ \<Rightarrow> [])"

definition receive_rpc_reply :: "platform \<Rightarrow> msg_seq result \<Rightarrow> string \<Rightarrow> module_and_function \<Rightarrow> msg_seq result" where
  "receive_rpc_reply pf received remote_node remote_fn =
     and_then received (\<lambda>msg.
     and_then (matchable_seq_match pf msg reply_pattern) (\<lambda>(matched, w).
       if \<not> matched
       then Inl (Tinch_pp_exception (''RPC: Unexpected result from call to '' @ remote_node @
              '', function '' @ fst remote_fn @ '':'' @ snd remote_fn))
       else Inr (reply_part w)))"

text \<open>The mailbox \<open>a\<close> of the \<open>rpc\<close> object; \<open>None\<close> while the caller is blocked.\<close>

definition blocking_rpc ::
  "conn_env \<Rightarrow> network \<Rightarrow> (actual_node \<Rightarrow> actual_node) \<Rightarrow> nat \<Rightarrow> string \<Rightarrow> module_and_function \<Rightarrow> obj list \<Rightarrow> msg_seq node_op" where
  "blocking_rpc env net io a remote_node remote_fn arguments n =
     (case mailbox_objects n ! a of
        None \<Rightarrow> Some (Inl Undefined_behaviour, n)
      | Some mbox \<Rightarrow>
          then_do (do_rpc env net mbox remote_node remote_fn arguments) (\<lambda>_ n.
            let n = io n in
            case Option.bind (mailbox_objects n ! a) receive of
              None \<Rightarrow> None
            | Some (r, m) \<Rightarrow>
                Some (receive_rpc_reply (env_platform env) r remote_node remote_fn,
                  n\<lparr>mailbox_objects := (mailbox_objects n)[a := Some m]\<rparr>)) n)"

section \<open>Requests and replies\<close>

context spirit
begin

lemma reply_matched:
  assumes "any_match pf (Suc (length s)) s [] = Inr (True, s', acc)"
  shows "receive_rpc_reply pf (Inr (small_tuple_head_g pf 2 @ atom_ext_g pf ''rex'' @ s)) remote_node remote_fn = Inr acc"
proof -
  have head: "small_tuple_head_ext pf (small_tuple_head_g pf 2 @ t) = Some (2, t)" for t
    by (simp add: tuple_head_roundtrip)
  have "match_obj pf (E_atom (Val ''rex'')) (atom_ext_g pf ''rex'' @ s) = Inr (True, s, [])"
    by (simp add: match_mode_def match_atom_value_def value_with_def wf_atom_def)
  moreover have "match_obj pf (Any (Some 0)) s = Inr (True, s', [(0, Bound_matchable acc)])"
    using assms by (simp del: any_match.simps)
  ultimately have "match_obj pf reply_pattern (small_tuple_head_g pf 2 @ atom_ext_g pf ''rex'' @ s) =
      Inr (True, s', [(0, Bound_matchable acc)])"
    unfolding reply_pattern_def match_obj.simps(8) head by (simp add: numeral_2_eq_2 del: match_obj.simps)
  then show ?thesis by (simp add: receive_rpc_reply_def matchable_seq_match_def reply_part_def del: match_obj.simps)
qed

text \<open>The reply of a remote procedure that returns the empty list is taken for an unexpected result.\<close>

lemma empty_list_reply_refused:
  "receive_rpc_reply pf (Inr (small_tuple_head_g pf 2 @ atom_ext_g pf ''rex'' @ [106])) remote_node remote_fn =
     Inl (Tinch_pp_exception (''RPC: Unexpected result from call to '' @ remote_node @
       '', function '' @ fst remote_fn @ '':'' @ snd remote_fn))"
proof -
  have head: "small_tuple_head_ext pf (small_tuple_head_g pf 2 @ t) = Some (2, t)" for t
    by (simp add: tuple_head_roundtrip)
  have "match_obj pf (E_atom (Val ''rex'')) (atom_ext_g pf ''rex'' @ t) = Inr (True, t, [])" for t
    by (simp add: match_mode_def match_atom_value_def value_with_def wf_atom_def)
  moreover have "match_obj pf (Any (Some 0)) [106] = Inr (False, [106], [(0, Bound_matchable [])])" by simp
  ultimately have "match_obj pf reply_pattern (small_tuple_head_g pf 2 @ atom_ext_g pf ''rex'' @ [106]) =
      Inr (False, [106], [(0, Bound_matchable [])])"
    unfolding reply_pattern_def match_obj.simps(8) head by (simp add: numeral_2_eq_2 del: match_obj.simps)
  then show ?thesis by (simp add: receive_rpc_reply_def matchable_seq_match_def del: match_obj.simps)
qed

lemma list_tail_needed:
  assumes "length vs < 2 ^ 32" and "\<forall>v\<in>set vs. wf_value pf v"
  shows "\<exists>s' w. list_matcher_assign pf k x (list_head_g pf (length vs) @ concat (map (serialize pf) vs)) = Inr (False, s', w)"
proof -
  have "list_head_ext pf (list_head_g pf (length vs) @ t) = Some (length vs, t)" for t using assms(1) by simp
  moreover have "nil_ext pf [] = None" by (simp add: nil_ext_def)
  ultimately show ?thesis
    using list_assign_loop_agrees [OF assms(2), of k "[]"]
    by (auto simp: list_matcher_assign_def split: option.splits)
qed

end

section \<open>Properties\<close>

text \<open>The answer of the remote node: of a reply \<open>{rex, Term}\<close> with a term without lists the caller
  gets exactly the term.\<close>

theorem rpc_reply_extracted:
  assumes "spirit pf" and "wf_value pf v" and "\<not> has_list v"
  shows "receive_rpc_reply pf (Inr (serialize pf (E_tuple [make_atom ''rex'', v]))) remote_node remote_fn = Inr (serialize pf v)"
  using spirit.reply_matched [OF assms(1) spirit.any_agrees [OF assms, of "Suc (length (serialize pf v))" "[]" "[]", unfolded append_Nil append_Nil2, OF lessI]]
  by (simp add: make_atom_def numeral_2_eq_2)

theorem rpc_reply_extracted_witness:
  "receive_rpc_reply documented_platform (Inr (serialize documented_platform (E_tuple [make_atom ''rex'', E_int (Val 5)])))
     ''b@h'' (''m'', ''f'') = Inr (serialize documented_platform (E_int (Val 5)))"
  using rpc_reply_extracted [OF doc.spirit_axioms, of "E_int (Val 5)"] by simp

text \<open>A list that a remote procedure returns cannot be assigned: the reply is handed to the caller
  without the closing nil of the list, and assigning a list from it is refused, for every
  element class and whatever the elements are.\<close>

theorem rpc_list_reply_unassignable:
  assumes "spirit pf" and "length vs < 2 ^ 32" and "\<forall>v\<in>set vs. wf_value pf v \<and> \<not> has_list v"
  shows "\<exists>reply w. receive_rpc_reply pf (Inr (serialize pf (E_tuple [make_atom ''rex'', E_list vs]))) remote_node remote_fn =
      Inr reply \<and> matchable_seq_match pf reply (E_list_assign k x) = Inr (False, w)"
proof -
  let ?reply = "list_head_g pf (length vs) @ concat (map (serialize pf) vs)"
  have "receive_rpc_reply pf (Inr (serialize pf (E_tuple [make_atom ''rex'', E_list vs]))) remote_node remote_fn = Inr ?reply"
    using spirit.reply_matched [OF assms(1) spirit.any_list_outcome [OF assms, of "[]" "[]", unfolded append_Nil append_Nil2]]
    by (simp add: make_atom_def numeral_2_eq_2)
  moreover have "\<exists>s' w. list_matcher_assign pf k x ?reply = Inr (False, s', w)"
    using spirit.list_tail_needed [OF assms(1,2)] assms(3) by blast
  ultimately show ?thesis by (force simp: matchable_seq_match_def)
qed

theorem rpc_list_reply_unassignable_witness:
  "\<exists>reply w. receive_rpc_reply documented_platform
       (Inr (serialize documented_platform (E_tuple [make_atom ''rex'', E_list [E_int (Val 1000), E_int (Val 1)]]))) ''b@h'' (''m'', ''f'') =
      Inr reply \<and> matchable_seq_match documented_platform reply (E_list_assign Elem_int 0) = Inr (False, w)"
  using rpc_list_reply_unassignable [OF doc.spirit_axioms, of "[E_int (Val 1000), E_int (Val 1)]" "''b@h''" "(''m'', ''f'')" Elem_int 0]
  by simp

end
