(* ===== verification/Closing.thy ===== *)
theory Closing
  imports Node
begin

text \<open>
  What the processes are told that a closing mailbox is linked with. A link leads to a mailbox of the same node or to
  a process of another node, and the node has a dispatcher for each (\<open>impl/link_policies.cpp\<close>); the
  loop over the links (\<open>impl/linker.cpp\<close>) only relies on what the two have in common, which is the locale
  \<open>notifier\<close>. The lemma on the loop is proved there once, and holds for both dispatchers and for
  the choice between them.
\<close>

section \<open>What the loop relies on\<close>

text \<open>
  A notifier can tell every process that is \<open>served\<close>; it adds the \<open>notice\<close> for the process at the end of what has been
  told so far, keeps what the next notifications need, and serves the same processes afterwards.
\<close>

locale notifier =
  fixes notify :: "e_pid \<Rightarrow> unit node_op"
    and served :: "actual_node \<Rightarrow> e_pid \<Rightarrow> bool"
    and frame :: "actual_node \<Rightarrow> actual_node \<Rightarrow> bool"
    and told :: "actual_node \<Rightarrow> 'l \<Rightarrow> 'm list"
    and notice :: "actual_node \<Rightarrow> e_pid \<Rightarrow> 'l \<Rightarrow> 'm list"
  assumes frame_refl: "frame n n"
    and frame_trans: "\<lbrakk>frame n n'; frame n' n''\<rbrakk> \<Longrightarrow> frame n n''"
    and frame_notice: "frame n n' \<Longrightarrow> notice n' = notice n"
    and notified: "served n q \<Longrightarrow> \<exists>n'. notify q n = Some (Inr (), n') \<and> frame n n' \<and>
      (\<forall>l. told n' l = told n l @ notice n q l) \<and> (\<forall>q'. served n q' \<longrightarrow> served n' q')"
begin

lemma all_notified:
  assumes "\<forall>q\<in>set qs. served n q"
  shows "\<exists>n'. for_each notify qs n = Some (Inr (), n') \<and> frame n n' \<and>
    (\<forall>l. told n' l = told n l @ concat (map (\<lambda>q. notice n q l) qs))"
  using assms
proof (induction qs arbitrary: n)
  case Nil
  then show ?case by (simp add: done_with_def frame_refl)
next
  case (Cons q qs)
  then obtain n1 where n1: "notify q n = Some (Inr (), n1)" "frame n n1" "\<forall>l. told n1 l = told n l @ notice n q l"
    "\<forall>q\<in>set qs. served n1 q"
    using notified [of n q] by auto
  from Cons.IH [OF n1(4)] obtain n' where n': "for_each notify qs n1 = Some (Inr (), n')" "frame n1 n'"
    "\<forall>l. told n' l = told n1 l @ concat (map (\<lambda>q. notice n1 q l) qs)"
    by blast
  have "for_each notify (q # qs) n = Some (Inr (), n')" using n1(1) n'(1) by (simp add: then_do_def)
  moreover have "told n' l = told n l @ concat (map (\<lambda>q. notice n q l) (q # qs))" for l
    using n1(3) n'(3) frame_notice [OF n1(2)] by simp
  ultimately show ?case using frame_trans [OF n1(2) n'(2)] by blast
qed

end

section \<open>What has been told\<close>

text \<open>A mailbox of the node knows its broken links; another node has been given messages on its connection.\<close>

datatype notice = Broken_link string e_pid | Message msg_seq

text \<open>The messages given to a connection: those handed to the socket, and those that wait behind them.\<close>

definition given_to :: "node_connection \<Rightarrow> msg_seq list" where
  "given_to c = started_writes c @ map fst (tl (write_queue c))"

text \<open>\<open>Inl b\<close> is the mailbox \<open>b\<close> of the node, \<open>Inr i\<close> its connection \<open>i\<close>.\<close>

fun told :: "actual_node \<Rightarrow> nat + nat \<Rightarrow> notice list" where
  "told n (Inl b) =
     (if b < length (mailbox_objects n)
      then (case mailbox_objects n ! b of None \<Rightarrow> [] | Some m \<Rightarrow> map (case_prod Broken_link) (broken_links m)) else [])"
| "told n (Inr i) =
     (if i < length (connections (connector n)) then map Message (given_to (connections (connector n) ! i)) else [])"

definition connected_to :: "actual_node \<Rightarrow> string \<Rightarrow> nat \<Rightarrow> bool" where
  "connected_to n destination i \<longleftrightarrow>
     map_of (node_connections (connector n)) destination = Some i \<and> i < length (connections (connector n)) \<and>
     conn_state (connections (connector n) ! i) = Connected"

text \<open>The notice for a process \<open>q\<close>, with the operation \<open>mk\<close> that tells another node.\<close>

fun notice_for :: "platform \<Rightarrow> (e_pid \<Rightarrow> control_msg) \<Rightarrow> string \<Rightarrow> e_pid \<Rightarrow> actual_node \<Rightarrow> e_pid \<Rightarrow> nat + nat \<Rightarrow> notice list" where
  "notice_for pf mk reason p n q (Inl b) =
     (if \<not> is_remote q n \<and> find_pid q (mailboxes n) = Inr (Some b) then [Broken_link reason p] else [])"
| "notice_for pf mk reason p n q (Inr i) =
     (if is_remote q n \<and> map_of (node_connections (connector n)) (node_name q) = Some i
      then [Message (execute_connected pf (mk q))] else [])"

text \<open>What a notification leaves alone.\<close>

definition same_routes :: "actual_node \<Rightarrow> actual_node \<Rightarrow> bool" where
  "same_routes n n' \<longleftrightarrow>
     mailboxes n' = mailboxes n \<and> registered_mailboxes n' = registered_mailboxes n \<and> own_node_name n' = own_node_name n \<and>
     node_connections (connector n') = node_connections (connector n) \<and>
     linked_pids (established_links n') = linked_pids (established_links n)"

lemma same_routes_refl: "same_routes n n"
  by (simp add: same_routes_def)

lemma same_routes_trans: "same_routes n n' \<Longrightarrow> same_routes n' n'' \<Longrightarrow> same_routes n n''"
  by (simp add: same_routes_def)

lemma same_routes_notice: "same_routes n n' \<Longrightarrow> notice_for pf mk reason p n' = notice_for pf mk reason p n"
  by (intro ext, rename_tac q l, case_tac l) (simp_all add: same_routes_def is_remote_def)

section \<open>The two dispatchers\<close>

text \<open>The processes a dispatcher can reach; their link with \<open>p\<close> has been removed.\<close>

definition served_locally :: "e_pid \<Rightarrow> actual_node \<Rightarrow> e_pid \<Rightarrow> bool" where
  "served_locally p n q \<longleftrightarrow> {p, q} \<notin> linked_pids (established_links n) \<and> \<not> is_remote q n \<and> (\<exists>b. alive_at n q b)"

definition served_remotely :: "e_pid \<Rightarrow> actual_node \<Rightarrow> e_pid \<Rightarrow> bool" where
  "served_remotely p n q \<longleftrightarrow>
     {p, q} \<notin> linked_pids (established_links n) \<and> is_remote q n \<and> (\<exists>i. connected_to n (node_name q) i)"

definition served :: "e_pid \<Rightarrow> actual_node \<Rightarrow> e_pid \<Rightarrow> bool" where
  "served p n q \<longleftrightarrow> served_locally p n q \<or> served_remotely p n q"

lemma after_exit_routes:
  "{p, q} \<notin> linked_pids (established_links n) \<Longrightarrow> same_routes n (after_exit p reason q b n)"
  by (simp add: same_routes_def linker.linked_del) (simp add: after_exit_def in_mailbox_def)

lemma after_exit_told:
  assumes "alive_at n q b" and "\<not> is_remote q n"
  shows "told (after_exit p reason q b n) l = told n l @ notice_for pf mk reason p n q l"
  using assms
  by (cases l) (auto simp: after_exit_def in_mailbox_def alive_at_def nth_update_if on_link_broken_def notify_receive_def)

lemma request_told:
  assumes "connected_to n (node_name q) i" and "is_remote q n"
  shows "\<exists>n'. node_request env net (mk q) (node_name q) n = Some (Inr (), n') \<and> same_routes n n' \<and>
    (\<forall>l. told n' l = told n l @ notice_for (env_platform env) mk reason p n q l) \<and>
    (\<forall>d i. connected_to n d i \<longrightarrow> connected_to n' d i) \<and> (\<forall>q b. alive_at n q b \<longrightarrow> alive_at n' q b)"
proof -
  let ?c = "connections (connector n) ! i"
  let ?c' = "request env (mk q) ?c"
  let ?n' = "n\<lparr>connector := (connector n)\<lparr>connections := (connections (connector n))[i := ?c']\<rparr>\<rparr>"
  have "node_request env net (mk q) (node_name q) n = Some (Inr (), ?n')"
    using assms(1) by (simp add: connected_to_def node_request_def get_connection_to_def)
  moreover have c': "conn_state ?c' = Connected" "given_to ?c' = given_to ?c @ [execute_connected (env_platform env) (mk q)]"
    using assms(1)
    by (auto simp: connected_to_def request_def trigger_checked_write_def async_write_front_def given_to_def Let_def
        split: list.splits simp del: execute_connected.simps)
  then have "told ?n' l = told n l @ notice_for (env_platform env) mk reason p n q l" for l
    using assms by (cases l) (auto simp: connected_to_def nth_update_if simp del: execute_connected.simps)
  moreover have "connected_to n d j \<Longrightarrow> connected_to ?n' d j" for d j
    using c'(1) by (simp add: connected_to_def nth_update_if)
  moreover have "alive_at ?n' r b = alive_at n r b" for r b by (simp add: alive_at_def)
  ultimately show ?thesis by (intro exI [of _ ?n']) (simp add: same_routes_def)
qed

lemma served_stays:
  assumes "served p n q" and "same_routes n n'"
    and "\<And>d i. connected_to n d i \<Longrightarrow> connected_to n' d i" and "\<And>q b. alive_at n q b \<Longrightarrow> alive_at n' q b"
  shows "served p n' q"
  using assms by (auto simp: served_def served_locally_def served_remotely_def same_routes_def is_remote_def) blast+

lemma local_notified:
  assumes "served_locally p n q"
  shows "\<exists>n'. incoming_exit pf p q reason n = Some (Inr (), n') \<and> same_routes n n' \<and>
    (\<forall>l. told n' l = told n l @ notice_for pf mk reason p n q l) \<and>
    (\<forall>d i. connected_to n d i \<longrightarrow> connected_to n' d i) \<and> (\<forall>q b. alive_at n q b \<longrightarrow> alive_at n' q b)"
proof -
  obtain b where b: "alive_at n q b" "\<not> is_remote q n" "{p, q} \<notin> linked_pids (established_links n)"
    using assms by (auto simp: served_locally_def)
  have "connected_to (after_exit p reason q b n) = connected_to n"
    by (intro ext) (simp add: connected_to_def after_exit_def in_mailbox_def)
  then show ?thesis
    using incoming_exit_alive [OF b(1)] after_exit_routes [OF b(3)] after_exit_told [OF b(1,2)] alive_after_exit
    by (intro exI [of _ "after_exit p reason q b n"]) simp
qed

lemma remote_notified:
  assumes "served_remotely p n q"
  shows "\<exists>n'. node_request env net (mk q) (node_name q) n = Some (Inr (), n') \<and> same_routes n n' \<and>
    (\<forall>l. told n' l = told n l @ notice_for (env_platform env) mk reason p n q l) \<and>
    (\<forall>d i. connected_to n d i \<longrightarrow> connected_to n' d i) \<and> (\<forall>q b. alive_at n q b \<longrightarrow> alive_at n' q b)"
  using request_told assms by (fastforce simp: served_remotely_def)

text \<open>The choice between them, as \<open>actual_node::request_exit\<close> and \<open>request_exit2\<close> make it.\<close>

lemma chosen_notified:
  assumes "served p n q"
    and "\<And>n. notify q n = (if is_remote q n then node_request env net (mk q) (node_name q) n
      else incoming_exit (env_platform env) p q reason n)"
  shows "\<exists>n'. notify q n = Some (Inr (), n') \<and> same_routes n n' \<and>
    (\<forall>l. told n' l = told n l @ notice_for (env_platform env) mk reason p n q l) \<and> (\<forall>q'. served p n q' \<longrightarrow> served p n' q')"
proof (cases "is_remote q n")
  case True
  then have "served_remotely p n q" using assms(1) by (auto simp: served_def served_locally_def)
  from remote_notified [OF this] True served_stays assms(2) show ?thesis by metis
next
  case False
  then have "served_locally p n q" using assms(1) by (auto simp: served_def served_remotely_def)
  from local_notified [OF this] False served_stays assms(2) show ?thesis by metis
qed

lemmas exit_notified = chosen_notified [where mk = "\<lambda>q. Control_msg_exit p q reason"
    and notify = "\<lambda>q. request_exit env net p q reason" for p reason env net, OF _ link_operations_by_place(3)]

lemmas exit2_notified = chosen_notified [where mk = "\<lambda>q. Control_msg_exit2 p q reason"
    and notify = "\<lambda>q. request_exit2 env net p q reason" for p reason env net, OF _ link_operations_by_place(4) [unfolded incoming_exit2_def]]

interpretation exits: notifier "\<lambda>q. request_exit env net p q reason" "served p" same_routes told
    "notice_for (env_platform env) (\<lambda>q. Control_msg_exit p q reason) reason p" for env net p reason
  by unfold_locales (fact same_routes_refl, erule (1) same_routes_trans, erule same_routes_notice, erule exit_notified)

interpretation exits2: notifier "\<lambda>q. request_exit2 env net p q reason" "served p" same_routes told
    "notice_for (env_platform env) (\<lambda>q. Control_msg_exit2 p q reason) reason p" for env net p reason
  by unfold_locales (fact same_routes_refl, erule (1) same_routes_trans, erule same_routes_notice, erule exit2_notified)

section \<open>Closing\<close>

text \<open>Every process that \<open>p\<close> is linked with can be told.\<close>

definition links_served :: "e_pid \<Rightarrow> actual_node \<Rightarrow> bool" where
  "links_served p n \<longleftrightarrow>
     (\<forall>q. {p, q} \<in> linked_pids (established_links n) \<longrightarrow>
        (if is_remote q n then \<exists>i. connected_to n (node_name q) i else \<exists>b. alive_at n q b))"

text \<open>The state in which the loop over the links of \<open>p\<close> starts.\<close>

definition without_links :: "e_pid \<Rightarrow> actual_node \<Rightarrow> actual_node" where
  "without_links p n = n\<lparr>established_links := snd (remove_links_from p (established_links n))\<rparr>"

lemma without_links_same:
  "told (without_links p n) l = told n l"
  "notice_for pf mk reason p (without_links p n) q l = notice_for pf mk reason p n q l"
  by (cases l; simp add: without_links_def is_remote_def)+

lemma links_served_loop:
  assumes "links_served p n" and "q \<in> set (fst (remove_links_from p (established_links n)))"
  shows "served p (without_links p n) q"
proof -
  have "if is_remote q n then \<exists>i. connected_to n (node_name q) i else \<exists>b. alive_at n q b"
    using assms by (simp add: links_served_def linker.taken)
  then show ?thesis
    by (auto simp: served_def served_locally_def served_remotely_def without_links_def linker.linked_take is_remote_def
        connected_to_def alive_at_def split: if_splits)
qed

lemma loop_notifies:
  assumes "for_each f (fst (remove_links_from p (established_links n))) (without_links p n) = Some (Inr (), n')"
    and "same_routes (without_links p n) n'"
  shows "on_broken_links f p n = Some (Inr (), n')"
    and "linked_pids (established_links n') = {l \<in> linked_pids (established_links n). p \<notin> l}"
    and "mailboxes n' = mailboxes n" and "registered_mailboxes n' = registered_mailboxes n"
  using assms by (simp_all add: on_broken_links_def without_links_def same_routes_def split_beta linker.linked_take)

section \<open>Properties\<close>

text \<open>C15. Closing a mailbox all of whose linked processes can be told (those of this node are alive, those of other
  nodes are reached over a connected connection): each of them is told, in the order of the links, by exactly
  one notice, a broken link with the reason for a mailbox and an exit2 message for another node, and
  nobody else is told anything; no link of the process is left and the links between others stay; and it
  is removed from both registries.\<close>

theorem closing_notifies:
  assumes "links_served p n" and "comparable (p # map fst (mailboxes n))"
  shows "\<exists>n'. close_mailbox_because env net p name reason n = Some (Inr (), n') \<and>
    (\<forall>l. told n' l = told n l @ concat (map (\<lambda>q. notice_for (env_platform env) (\<lambda>q. Control_msg_exit2 p q reason) reason p n q l)
       (fst (remove_links_from p (established_links n))))) \<and>
    linked_pids (established_links n') = {l \<in> linked_pids (established_links n). p \<notin> l} \<and>
    find_pid p (mailboxes n') = Inr None \<and> map_of (registered_mailboxes n') name = None"
proof -
  obtain n1 where n1: "for_each (\<lambda>q. request_exit2 env net p q reason) (fst (remove_links_from p (established_links n)))
      (without_links p n) = Some (Inr (), n1)" "same_routes (without_links p n) n1"
    "\<And>l. told n1 l = told n l @ concat (map (\<lambda>q. notice_for (env_platform env) (\<lambda>q. Control_msg_exit2 p q reason) reason p n q l)
       (fst (remove_links_from p (established_links n))))"
    using exits2.all_notified [OF ballI [OF links_served_loop [OF assms(1)]], where env = env and net = net and reason = reason]
    unfolding without_links_same by blast
  note loop = loop_notifies [OF n1(1,2)]
  let ?n' = "n1\<lparr>mailboxes := filter (\<lambda>(q, _). \<not> equivalent q p) (mailboxes n),
      registered_mailboxes := map_erase name (registered_mailboxes n)\<rparr>"
  have "close_mailbox_because env net p name reason n = Some (Inr (), ?n')"
    using loop assms(2)
    by (simp add: close_mailbox_because_def close_links_for_local_def then_do_def remove_mailbox_def erase_pid_def)
  moreover have "told ?n' l = told n1 l" for l by (cases l) simp_all
  ultimately show ?thesis
    using n1(3) loop(2) erased_not_found [OF assms(2)] by (intro exI [of _ ?n']) (simp add: map_of_erase)
qed

theorem closing_notifies_witness:
  "\<forall>env net. \<exists>n' p q r.
    close_mailbox_because env net p '''' ''normal'' (linked_pair\<lparr>connector := connector connected_node,
      established_links := [(p, r), (p, q)]\<rparr>) = Some (Inr (), n') \<and>
    told n' (Inl 1) = [Broken_link ''normal'' p] \<and> node_name r = ''b@h'' \<and>
    told n' (Inr 0) = [Message (execute_connected (env_platform env) (Control_msg_exit2 p r ''normal''))]"
proof (intro allI)
  fix env net
  let ?p = "fst (make_pid (new_node ''a@h''))" and ?q = "fst (make_pid (update_pid_fields (new_node ''a@h'')))"
  let ?r = "default_e_pid\<lparr>node_name := ''b@h''\<rparr>"
  let ?n = "linked_pair\<lparr>connector := connector connected_node, established_links := [(?p, ?r), (?p, ?q)]\<rparr>"
  have c: "connected_to ?n ''b@h'' 0" using connected_node_idle by (simp add: connected_to_def idle_connection_def)
  have q: "alive_at ?n ?q 1" "\<not> is_remote ?q ?n" "comparable (?p # map fst (mailboxes ?n))"
    by (simp_all add: linked_pair_def node_sims alive_at_def is_remote_def)
  have r: "is_remote ?r ?n" "?p \<noteq> ?q" "?p \<noteq> ?r" by (simp_all add: is_remote_def linked_pair_def node_sims default_e_pid_def)
  have "linked_pids (established_links ?n) = {{?p, ?r}, {?p, ?q}}" by (simp add: linked_pids_def)
  then have "links_served ?p ?n" using c q r by (auto simp: links_served_def doubleton_eq_iff)
  from closing_notifies [OF this q(3), of env net "''''" "''normal''"]
  obtain n' where n': "close_mailbox_because env net ?p '''' ''normal'' ?n = Some (Inr (), n')"
    "\<And>l. told n' l = told ?n l @ concat (map (\<lambda>q. notice_for (env_platform env) (\<lambda>q. Control_msg_exit2 ?p q ''normal'') ''normal'' ?p ?n q l)
       (fst (remove_links_from ?p (established_links ?n))))" by blast
  have l: "fst (remove_links_from ?p (established_links ?n)) = [?r, ?q]" by simp
  have "told n' (Inl 1) = [Broken_link ''normal'' ?p]"
    unfolding n'(2) l by (simp add: is_remote_def linked_pair_def node_sims default_e_pid_def new_mailbox_def)
  moreover have "told n' (Inr 0) = [Message (execute_connected (env_platform env) (Control_msg_exit2 ?p ?r ''normal''))]"
    unfolding n'(2) l using q(2) r(1) c
    by (simp add: connected_to_def del: execute_connected.simps)
      (simp add: connected_node_def new_connector_def create_connection_def given_to_def)
  ultimately show "\<exists>n' p q r.
    close_mailbox_because env net p '''' ''normal'' (linked_pair\<lparr>connector := connector connected_node,
      established_links := [(p, r), (p, q)]\<rparr>) = Some (Inr (), n') \<and>
    told n' (Inl 1) = [Broken_link ''normal'' p] \<and> node_name r = ''b@h'' \<and>
    told n' (Inr 0) = [Message (execute_connected (env_platform env) (Control_msg_exit2 p r ''normal''))]"
    using n'(1) by (intro exI [of _ n'] exI [of _ ?p] exI [of _ ?q] exI [of _ ?r]) simp
qed

end
