(* ===== verification/Scope_Guard.thy ===== *)
theory Scope_Guard
  imports Node
begin

text \<open>
  The guard of \<open>impl/ScopeGuard.h\<close> that \<open>create_mailbox\<close> of \<open>impl/actual_node.cpp\<close> uses, and that function with the
  failure it guards against: the insertion into the registry of names may run out of memory. The
  guard is \<open>ScopeGuardImpl1\<close>, a function and one argument; its destructor calls the function unless it has
  been dismissed. A guard is returned by value through two functions and may be copied on the
  way, which the number \<open>copies\<close> stands for: a copy takes over, and dismisses the one it was made from.
\<close>

section \<open>The guard\<close>

record 'p scope_guard =
  dismissed :: bool
  guard_fun :: "'p \<Rightarrow> unit node_op"
  guard_p1 :: 'p

definition make_guard :: "('p \<Rightarrow> unit node_op) \<Rightarrow> 'p \<Rightarrow> 'p scope_guard" where
  "make_guard f p = \<lparr>dismissed = False, guard_fun = f, guard_p1 = p\<rparr>"

definition dismiss :: "'p scope_guard \<Rightarrow> 'p scope_guard" where
  "dismiss g = g\<lparr>dismissed := True\<rparr>"

text \<open>The copy constructor: the copy, and what becomes of the other guard.\<close>

definition copy_guard :: "'p scope_guard \<Rightarrow> 'p scope_guard \<times> 'p scope_guard" where
  "copy_guard other = (\<lparr>dismissed = dismissed other, guard_fun = guard_fun other, guard_p1 = guard_p1 other\<rparr>, dismiss other)"

text \<open>\<open>SafeExecute\<close>, which is all that the destructor does: exceptions are swallowed.\<close>

definition safe_execute :: "'p scope_guard \<Rightarrow> unit node_op" where
  "safe_execute g n =
     (if dismissed g then Some (Inr (), n) else map_option (\<lambda>(r, n). (Inr (), n)) (guard_fun g (guard_p1 g) n))"

text \<open>\<open>MakeGuard\<close>: the guard that arrives after some copies, each followed by the destructor of the old one.\<close>

fun returned_guard :: "nat \<Rightarrow> 'p scope_guard \<Rightarrow> 'p scope_guard node_op" where
  "returned_guard 0 g = done_with g"
| "returned_guard (Suc copies) g =
     (case copy_guard g of (g', old) \<Rightarrow> then_do (safe_execute old) (\<lambda>_. returned_guard copies g'))"

text \<open>The function runs once, however often the guard is copied, and not at all after \<open>Dismiss\<close>.\<close>

lemma returned_guard_once: "returned_guard copies g = done_with g"
  by (induction copies arbitrary: g)
    (simp_all add: fun_eq_iff copy_guard_def dismiss_def safe_execute_def op_defs)

lemma dismissed_guard: "safe_execute (dismiss g) = done_with ()"
  by (simp add: fun_eq_iff safe_execute_def dismiss_def done_with_def)

section \<open>Creating a mailbox with a name\<close>

text \<open>\<open>remove(mailbox_ptr)\<close>; the pointer it is given keeps the mailbox alive.\<close>

definition remove_mailbox_ptr :: "nat \<Rightarrow> unit node_op" where
  "remove_mailbox_ptr a n =
     (case mailbox_objects n ! a of
        None \<Rightarrow> Some (Inl Undefined_behaviour, n)
      | Some m \<Rightarrow> remove_mailbox (own_pid m) (own_name m) n)"

definition add_mailbox :: "e_pid \<Rightarrow> nat \<Rightarrow> unit node_op" where
  "add_mailbox p a n =
     (case insert_pid p a (mailboxes n) of
        Inl e \<Rightarrow> Some (Inl e, n)
      | Inr (_, ms) \<Rightarrow> Some (Inr (), n\<lparr>mailboxes := ms\<rparr>))"

text \<open>
  When \<open>registered_mailboxes.insert\<close> throws \<open>std::bad_alloc\<close>, the guard and then the last pointer to the
  mailbox are destroyed during stack unwinding; the destructor of the mailbox posts a call of
  \<open>close_mailbox\<close>, whose arguments go with the exception.
\<close>

datatype creation_outcome = Created nat | Bad_alloc "(e_pid \<times> string) option"

definition create_guarded ::
  "conn_env \<Rightarrow> network \<Rightarrow> nat \<Rightarrow> bool \<Rightarrow> string \<Rightarrow> creation_outcome node_op" where
  "create_guarded env net copies out_of_memory registered_name n =
     (let (p, n) = make_pid n in
      then_do (new_object (new_mailbox p registered_name)) (\<lambda>a.
      then_do (add_mailbox p a) (\<lambda>_.
      then_do (returned_guard copies (make_guard remove_mailbox_ptr a)) (\<lambda>insert_guard.
        if out_of_memory
        then then_do (safe_execute insert_guard) (\<lambda>_.
             then_do (destroy_mailbox env net True a) (\<lambda>posted. done_with (Bad_alloc posted)))
        else then_do (updating (\<lambda>n. n\<lparr>registered_mailboxes := map_insert registered_name a (registered_mailboxes n)\<rparr>)) (\<lambda>_.
             then_do (safe_execute (dismiss insert_guard)) (\<lambda>_. done_with (Created a)))))) n)"

text \<open>With enough memory this is \<open>create_named_mailbox\<close>: the guard does nothing.\<close>

lemma guarded_creation:
  "create_guarded env net copies False name n =
     map_option (\<lambda>(r, n). (map_sum id Created r, n)) (create_named_mailbox name n)"
  unfolding returned_guard_once dismissed_guard create_guarded_def
  by (simp add: create_named_mailbox_def add_mailbox_def op_defs returned_guard_once dismissed_guard new_object_def
      split: prod.splits sum.splits)

text \<open>
  Without, the registry by pid is as before, the name is not registered, not even for a mailbox that
  had it before, and the object has expired; the only trace is the pid that has been used up, and a
  call of \<open>close_mailbox\<close> that finds nothing to remove.
\<close>

lemma guarded_failure:
  assumes "find_pid (fst (make_pid n)) (mailboxes n) = Inr None"
  shows "create_guarded env net copies True name n =
    Some (Inr (Bad_alloc (Some (fst (make_pid n), name))),
      (update_pid_fields n)\<lparr>mailbox_objects := mailbox_objects n @ [None],
        registered_mailboxes := map_erase name (registered_mailboxes n)\<rparr>)"
proof -
  let ?p = "fst (make_pid n)" and ?a = "length (mailbox_objects n)"
  have c: "comparable (?p # map fst (mailboxes n))" and f: "find (\<lambda>(q, _). equivalent q ?p) (mailboxes n) = None"
    using assms by (auto simp: find_pid_def split: if_splits)
  have "insert_pid ?p ?a (mailboxes n) = Inr (True, mailboxes n @ [(?p, ?a)])"
    using assms by (simp add: insert_pid_def)
  moreover have "erase_pid ?p (mailboxes n @ [(?p, ?a)]) = Inr (mailboxes n)"
    using comparable_snoc [OF c] f
    by (auto simp: erase_pid_def find_None_iff equivalent_iff filter_id_conv)
  ultimately show ?thesis
    by (simp add: create_guarded_def make_pid_def new_object_def add_mailbox_def op_defs returned_guard_once make_guard_def
        safe_execute_def remove_mailbox_ptr_def remove_mailbox_def destroy_mailbox_def new_mailbox_def Let_def)
qed

text \<open>The failed creation of a second mailbox with a name unregisters the first one.\<close>

lemma failed_creation_unregisters:
  assumes "find_pid (fst (make_pid n)) (mailboxes n) = Inr None" and "map_of (registered_mailboxes n) name = Some b"
  shows "\<exists>n'. create_guarded env net copies True name n = Some (Inr (Bad_alloc (Some (fst (make_pid n), name))), n') \<and>
    fetch_by_name name n' =
      Some (Inl (Tinch_pp_exception (''Failed to deliver message - mailbox not known. Name = '' @ name)), n')"
  unfolding guarded_failure [OF assms(1)] by (simp add: fetch_by_name_def map_of_erase)

end
