(* ===== verification/Node_Inv.thy ===== *)
theory Node_Inv
  imports Scope_Guard
begin

text \<open>
  What holds of a node whatever its clients and its peers do. The operations of \<open>Node\<close> are
  built with \<open>then_do\<close>, so an invariant is kept by an operation when its parts keep it, and the
  proofs are by the introduction rules \<open>keeps_rules\<close>.
\<close>

named_theorems keeps_rules \<open>an operation keeps an invariant\<close>

section \<open>Operations that keep an invariant\<close>

definition keeps :: "(actual_node \<Rightarrow> bool) \<Rightarrow> 'a node_op \<Rightarrow> bool" where
  "keeps P m \<longleftrightarrow> (\<forall>n r n'. P n \<longrightarrow> m n = Some (r, n') \<longrightarrow> P n')"

lemma keepsI: "(\<And>n r n'. \<lbrakk>P n; m n = Some (r, n')\<rbrakk> \<Longrightarrow> P n') \<Longrightarrow> keeps P m"
  by (auto simp: keeps_def)

lemma keepsD: "\<lbrakk>keeps P m; P n; m n = Some (r, n')\<rbrakk> \<Longrightarrow> P n'"
  by (auto simp: keeps_def)

lemma keeps_done_with [keeps_rules]: "keeps P (done_with x)"
  by (simp add: keeps_def done_with_def)

lemma keeps_updating [keeps_rules]: "(\<And>n. P n \<Longrightarrow> P (f n)) \<Longrightarrow> keeps P (updating f)"
  by (simp add: keeps_def updating_def)

lemma keeps_then_do [keeps_rules]:
  assumes "keeps P m" and "\<And>x. keeps P (k x)"
  shows "keeps P (then_do m k)"
proof (rule keepsI)
  fix n r n' assume "P n" and "then_do m k n = Some (r, n')"
  then obtain x n1 where m: "m n = Some (x, n1)" "P n1"
    using keepsD [OF assms(1)] by (auto simp: then_do_def split: option.splits)
  then show "P n'"
    using \<open>then_do m k n = Some (r, n')\<close> keepsD [OF assms(2)] by (cases x) (auto simp: then_do_def)
qed

lemma keeps_for_each [keeps_rules]: "(\<And>x. keeps P (f x)) \<Longrightarrow> keeps P (for_each f xs)"
  by (induction xs) (simp_all add: keeps_done_with keeps_then_do)

text \<open>A choice that depends on the node itself.\<close>

lemma keeps_if:
  assumes "keeps P m" and "keeps P m'" and "\<And>n. f n = (if b n then m n else m' n)"
  shows "keeps P f"
proof (rule keepsI)
  fix n r n' assume P: "P n" and "f n = Some (r, n')"
  then consider "m n = Some (r, n')" | "m' n = Some (r, n')" using assms(3) [of n] by (cases "b n") simp_all
  then show "P n'" using keepsD [OF assms(1) P] keepsD [OF assms(2) P] by cases
qed

section \<open>The invariant\<close>

text \<open>
  A registry entry leads to a mailbox object that exists or has expired; the pid it is stored under
  is one of this node, and is the pid of the object.
\<close>

definition entry_ok :: "actual_node \<Rightarrow> e_pid \<times> nat \<Rightarrow> bool" where
  "entry_ok n e \<longleftrightarrow>
     (case e of (p, a) \<Rightarrow> a < length (mailbox_objects n) \<and> node_name p = own_node_name n \<and>
        (\<forall>m. mailbox_objects n ! a = Some m \<longrightarrow> own_pid m = p))"

definition name_ok :: "actual_node \<Rightarrow> string \<times> nat \<Rightarrow> bool" where
  "name_ok n e \<longleftrightarrow>
     (case e of (name, a) \<Rightarrow> a < length (mailbox_objects n) \<and>
        (\<forall>m. mailbox_objects n ! a = Some m \<longrightarrow> own_name m = name))"

definition node_inv :: "actual_node \<Rightarrow> bool" where
  "node_inv n \<longleftrightarrow>
     pids_inv n \<and> links_inv (established_links n) \<and>
     list_all (entry_ok n) (mailboxes n) \<and> list_all (name_ok n) (registered_mailboxes n)"

lemma node_inv_new: "node_inv (new_node name)"
  by (simp add: node_inv_def new_node_pids) (simp add: new_node_def linker.inv_none)

text \<open>The invariant is kept when the objects stay and the registries do not grow.\<close>

lemma node_inv_shrink:
  assumes "node_inv n" and "mailbox_objects n' = mailbox_objects n" and "own_node_name n' = own_node_name n"
    and "pids_inv n'" and "links_inv (established_links n')"
    and "set (mailboxes n') \<subseteq> set (mailboxes n)" and "set (registered_mailboxes n') \<subseteq> set (registered_mailboxes n)"
  shows "node_inv n'"
proof -
  have "entry_ok n' = entry_ok n" "name_ok n' = name_ok n"
    using assms(2,3) by (simp_all add: fun_eq_iff entry_ok_def name_ok_def)
  then show ?thesis using assms by (auto simp: node_inv_def list_all_iff)
qed

lemma node_inv_parts: "node_inv n \<Longrightarrow> pids_inv n \<and> links_inv (established_links n)"
  by (simp add: node_inv_def)

lemma node_inv_connector [simp]: "node_inv n \<Longrightarrow> node_inv (n\<lparr>connector := c\<rparr>)"
  using node_inv_parts [of n] by (rule_tac node_inv_shrink [of n]) (auto simp: pids_inv_def)

lemma node_inv_creation [simp]: "node_inv n \<Longrightarrow> node_inv (n\<lparr>creation := c\<rparr>)"
  using node_inv_parts [of n] by (rule_tac node_inv_shrink [of n]) (auto simp: pids_inv_def)

lemma node_inv_links: "\<lbrakk>node_inv n; links_inv ls\<rbrakk> \<Longrightarrow> node_inv (n\<lparr>established_links := ls\<rparr>)"
  using node_inv_parts [of n] by (rule_tac node_inv_shrink [of n]) (auto simp: pids_inv_def)

lemma node_inv_mailboxes: "\<lbrakk>node_inv n; set ms \<subseteq> set (mailboxes n)\<rbrakk> \<Longrightarrow> node_inv (n\<lparr>mailboxes := ms\<rparr>)"
  using node_inv_parts [of n] by (rule_tac node_inv_shrink [of n]) (auto simp: pids_inv_def)

lemma node_inv_names:
  "\<lbrakk>node_inv n; set rs \<subseteq> set (registered_mailboxes n)\<rbrakk> \<Longrightarrow> node_inv (n\<lparr>registered_mailboxes := rs\<rparr>)"
  using node_inv_parts [of n] by (rule_tac node_inv_shrink [of n]) (auto simp: pids_inv_def)

lemma node_inv_update_pid: "node_inv n \<Longrightarrow> node_inv (update_pid_fields n)"
  using update_pid_fields_counter [of n] node_inv_parts [of n]
  by (rule_tac node_inv_shrink [of n]) simp_all

text \<open>An object may expire, or change while it keeps its pid and its name.\<close>

lemma node_inv_object:
  assumes "node_inv n"
    and "\<And>m. x = Some m \<Longrightarrow> \<exists>m0. mailbox_objects n ! a = Some m0 \<and> own_pid m = own_pid m0 \<and> own_name m = own_name m0"
  shows "node_inv (n\<lparr>mailbox_objects := (mailbox_objects n)[a := x]\<rparr>)"
proof -
  have "entry_ok (n\<lparr>mailbox_objects := (mailbox_objects n)[a := x]\<rparr>) e" if "entry_ok n e" for e
    using that assms(2) by (cases e) (auto simp: entry_ok_def nth_update_if)
  moreover have "name_ok (n\<lparr>mailbox_objects := (mailbox_objects n)[a := x]\<rparr>) e" if "name_ok n e" for e
    using that assms(2) by (cases e) (auto simp: name_ok_def nth_update_if)
  ultimately show ?thesis using assms(1) by (auto simp: node_inv_def list_all_iff pids_inv_def)
qed

definition keeps_identity :: "(actual_mailbox \<Rightarrow> actual_mailbox) \<Rightarrow> bool" where
  "keeps_identity f \<longleftrightarrow> (\<forall>m. own_pid (f m) = own_pid m \<and> own_name (f m) = own_name m)"

lemma mailbox_identity [simp]:
  "keeps_identity (on_incoming msg)" "keeps_identity (on_link_broken reason pid)" "keeps_identity (receive_tmo old)"
  by (simp_all add: keeps_identity_def on_incoming_def on_link_broken_def receive_tmo_def notify_receive_def)

lemma receive_identity:
  "receive m = Some (r, m') \<Longrightarrow> own_pid m' = own_pid m \<and> own_name m' = own_name m"
  by (auto simp: receive_cases split: if_splits list.splits)

lemma node_inv_in_mailbox: "\<lbrakk>node_inv n; keeps_identity f\<rbrakk> \<Longrightarrow> node_inv (in_mailbox a f n)"
  unfolding in_mailbox_def by (rule node_inv_object) (auto simp: keeps_identity_def)


lemma node_inv_append:
  assumes "node_inv n"
  shows "node_inv (n\<lparr>mailbox_objects := mailbox_objects n @ [Some m]\<rparr>)"
proof -
  let ?n = "n\<lparr>mailbox_objects := mailbox_objects n @ [Some m]\<rparr>"
  have "entry_ok ?n e" if "entry_ok n e" for e using that by (cases e) (auto simp: entry_ok_def nth_append)
  moreover have "name_ok ?n e" if "name_ok n e" for e using that by (cases e) (auto simp: name_ok_def nth_append)
  ultimately show ?thesis using assms by (auto simp: node_inv_def list_all_iff pids_inv_def)
qed

lemma entry_ok_registries [simp]:
  "entry_ok (n\<lparr>mailboxes := ms\<rparr>) = entry_ok n" "name_ok (n\<lparr>mailboxes := ms\<rparr>) = name_ok n"
  "entry_ok (n\<lparr>registered_mailboxes := rs\<rparr>) = entry_ok n" "name_ok (n\<lparr>registered_mailboxes := rs\<rparr>) = name_ok n"
  by (simp_all add: fun_eq_iff entry_ok_def name_ok_def)

lemma node_inv_add_entry:
  assumes "node_inv n" and "insert_pid p a (mailboxes n) = Inr (b, ms)" and "entry_ok n (p, a)"
  shows "node_inv (n\<lparr>mailboxes := ms\<rparr>)"
  using assms(1,3) pids.add_all [of p a "mailboxes n" ms "entry_ok n"] assms(2) by (simp add: node_inv_def pids_inv_def)

lemma node_inv_add_name:
  assumes "node_inv n" and "name_ok n (name, a)"
  shows "node_inv (n\<lparr>registered_mailboxes := map_insert name a (registered_mailboxes n)\<rparr>)"
  using assms names.add_all [OF refl, of "name_ok n"] by (simp add: node_inv_def pids_inv_def)

section \<open>Every operation keeps it\<close>

lemma keeps_create [keeps_rules]: "keeps node_inv create_mailbox"
proof (rule keepsI)
  fix n r n' assume inv: "node_inv n" and c: "create_mailbox n = Some (r, n')"
  let ?p = "fst (make_pid n)" and ?n = "update_pid_fields n"
  let ?n1 = "?n\<lparr>mailbox_objects := mailbox_objects n @ [Some (new_mailbox ?p '''')]\<rparr>"
  have n1: "node_inv ?n1" using node_inv_append [OF node_inv_update_pid [OF inv], of "new_mailbox ?p ''''"] by simp
  consider "n' = ?n1" | b ms where "insert_pid ?p (length (mailbox_objects n)) (mailboxes n) = Inr (b, ms)" "n' = ?n1\<lparr>mailboxes := ms\<rparr>"
    using c by (auto simp: create_mailbox_def make_pid_def new_object_def then_do_def split: sum.splits if_splits)
  moreover have "entry_ok ?n1 (?p, length (mailbox_objects n))"
    by (simp add: entry_ok_def new_mailbox_def make_pid_def)
  ultimately show "node_inv n'" using n1 node_inv_add_entry [OF n1] by cases auto
qed

lemma keeps_remove [keeps_rules]: "keeps node_inv (remove_mailbox p name)"
proof (rule keepsI)
  fix n r n' assume inv: "node_inv n" and "remove_mailbox p name n = Some (r, n')"
  then consider "n' = n" | ms where "erase_pid p (mailboxes n) = Inr ms"
      "n' = n\<lparr>mailboxes := ms, registered_mailboxes := map_erase name (registered_mailboxes n)\<rparr>"
    by (auto simp: remove_mailbox_def split: sum.splits)
  then show "node_inv n'"
    using inv pids.del_entries names.del_entries [OF refl, of name "registered_mailboxes n"]
    by cases (auto intro!: node_inv_names node_inv_mailboxes)
qed

lemma keeps_fetch_pid [keeps_rules]: "keeps node_inv (fetch_by_pid pf p)"
  by (rule keepsI) (auto simp: fetch_by_pid_def intro!: node_inv_mailboxes split: sum.splits option.splits if_splits)

lemma keeps_fetch_name [keeps_rules]: "keeps node_inv (fetch_by_name name)"
  by (rule keepsI) (auto simp: fetch_by_name_def map_erase_def intro!: node_inv_names split: option.splits if_splits)

lemma keeps_in_mailbox [keeps_rules]: "keeps_identity f \<Longrightarrow> keeps node_inv (updating (in_mailbox a f))"
  by (auto intro: keeps_updating node_inv_in_mailbox)

lemma keeps_linker [keeps_rules]:
  "keeps node_inv (linker_link p q)" "keeps node_inv (linker_unlink p q)"
  unfolding linker_link_def linker_unlink_def
  by (auto intro!: keeps_updating node_inv_links linker.inv_add linker.inv_del dest: node_inv_parts)

lemma keeps_incoming [keeps_rules]:
  "keeps node_inv (receive_incoming pf msg p)" "keeps node_inv (receive_incoming_name msg name)"
  "keeps node_inv (incoming_link p q)" "keeps node_inv (incoming_unlink p q)"
  "keeps node_inv (incoming_exit pf p q reason)" "keeps node_inv (incoming_exit2 pf p q reason)"
  unfolding receive_incoming_def receive_incoming_name_def incoming_link_def incoming_unlink_def incoming_exit_def
    incoming_exit2_def
  by (intro keeps_then_do keeps_fetch_pid keeps_fetch_name keeps_in_mailbox keeps_linker mailbox_identity)+

lemma keeps_perform [keeps_rules]: "keeps node_inv (perform pf call)"
  by (cases call) (simp_all add: keeps_incoming)

lemma keeps_request [keeps_rules]: "keeps node_inv (node_request env net msg destination)"
  by (rule keepsI) (auto simp: node_request_def split: option.splits sum.splits)

lemma keeps_links [keeps_rules]:
  "keeps node_inv (node_link env net p q)" "keeps node_inv (node_unlink env net p q)"
  "keeps node_inv (request_exit env net p q reason)" "keeps node_inv (request_exit2 env net p q reason)"
  by (rule keeps_if [OF _ _ link_operations_by_place(1)] keeps_if [OF _ _ link_operations_by_place(2)] keeps_if [OF _ _ link_operations_by_place(3)]
      keeps_if [OF _ _ link_operations_by_place(4)]; intro keeps_then_do keeps_request keeps_linker keeps_incoming)+

lemma keeps_broken_links:
  assumes "\<And>q. keeps node_inv (f q)"
  shows "keeps node_inv (on_broken_links f p)"
proof (rule keepsI)
  fix n r n' assume inv: "node_inv n" and "on_broken_links f p n = Some (r, n')"
  then have "for_each f (fst (remove_links_from p (established_links n)))
      (n\<lparr>established_links := snd (remove_links_from p (established_links n))\<rparr>) = Some (r, n')"
    by (simp add: on_broken_links_def split_beta)
  moreover have "node_inv (n\<lparr>established_links := snd (remove_links_from p (established_links n))\<rparr>)"
    using inv by (intro node_inv_links linker.inv_take) (simp_all add: node_inv_parts)
  ultimately show "node_inv n'" using keepsD [OF keeps_for_each] assms by blast
qed

lemma keeps_close [keeps_rules]:
  "keeps node_inv (close_mailbox_because env net p name reason)" "keeps node_inv (close_mailbox env net p name)"
  "keeps node_inv (close_mailbox_async env net p name)"
  unfolding close_mailbox_def close_mailbox_async_def close_mailbox_because_def close_links_for_local_def
  by (intro keeps_then_do keeps_broken_links keeps_links keeps_remove)+


lemma keeps_create_named [keeps_rules]: "keeps node_inv (create_named_mailbox name)"
proof (rule keepsI)
  fix n r n' assume inv: "node_inv n" and c: "create_named_mailbox name n = Some (r, n')"
  let ?p = "fst (make_pid n)" and ?a = "length (mailbox_objects n)"
  let ?n1 = "(update_pid_fields n)\<lparr>mailbox_objects := mailbox_objects n @ [Some (new_mailbox ?p name)]\<rparr>"
  have n1: "node_inv ?n1" using node_inv_append [OF node_inv_update_pid [OF inv], of "new_mailbox ?p name"] by simp
  have ok: "entry_ok ?n1 (?p, ?a)" "name_ok ?n1 (name, ?a)"
    by (simp_all add: entry_ok_def name_ok_def new_mailbox_def make_pid_def)
  consider "n' = ?n1" | b ms where "insert_pid ?p ?a (mailboxes n) = Inr (b, ms)"
      "n' = ?n1\<lparr>mailboxes := ms, registered_mailboxes := map_insert name ?a (registered_mailboxes n)\<rparr>"
    using c by (auto simp: create_named_mailbox_def make_pid_def new_object_def then_do_def split: sum.splits)
  then show "node_inv n'"
  proof cases
    case (2 b ms)
    then have "node_inv (?n1\<lparr>mailboxes := ms\<rparr>)" using node_inv_add_entry [OF n1 _ ok(1)] by simp
    then show ?thesis using node_inv_add_name [of "?n1\<lparr>mailboxes := ms\<rparr>" name ?a] ok(2) 2(2) by simp
  qed (use n1 in simp)
qed

lemma keeps_sending [keeps_rules]:
  "keeps node_inv (deliver env net msg p)" "keeps node_inv (deliver_local msg name)"
  "keeps node_inv (deliver_registered env net msg name node p)"
  unfolding deliver_def deliver_local_def deliver_registered_def by (intro keeps_request keeps_incoming)+

lemma keeps_ping [keeps_rules]: "keeps node_inv (ping_peer env net peer)"
  by (rule keepsI) (auto simp: ping_peer_def split: option.splits sum.splits if_splits)

lemma keeps_publish [keeps_rules]: "keeps node_inv (publish_port env sock acceptor port)"
  by (rule keepsI) (auto simp: publish_port_def start_accept_incoming_def Let_def split: sum.splits prod.splits)

lemma keeps_destroy [keeps_rules]: "keeps node_inv (destroy_mailbox env net unwinding a)"
proof (rule keepsI)
  fix n r n' assume inv: "node_inv n" and d: "destroy_mailbox env net unwinding a n = Some (r, n')"
  let ?n = "n\<lparr>mailbox_objects := (mailbox_objects n)[a := None]\<rparr>"
  have n1: "node_inv ?n" by (rule node_inv_object [OF inv]) simp
  consider "n' = n" | "n' = ?n" | r' p name where "close_mailbox env net p name ?n = Some (r', n')"
    using d by (auto simp: destroy_mailbox_def Let_def split: option.splits if_splits)
  then show "node_inv n'" using inv n1 keepsD [OF keeps_close(2) n1] by cases auto
qed

lemma keeps_remove_ptr [keeps_rules]: "keeps node_inv (remove_mailbox_ptr a)"
  by (rule keepsI) (auto simp: remove_mailbox_ptr_def split: option.splits dest: keepsD [OF keeps_remove])

lemma keeps_guard [keeps_rules]: "(\<And>p. keeps P (guard_fun g p)) \<Longrightarrow> keeps P (safe_execute g)"
  unfolding keeps_def safe_execute_def by (auto split: if_splits)

lemma keeps_create_guarded [keeps_rules]: "keeps node_inv (create_guarded env net copies out_of_memory name)"
proof (rule keepsI)
  fix n r n' assume inv: "node_inv n" and c: "create_guarded env net copies out_of_memory name n = Some (r, n')"
  show "node_inv n'"
  proof (cases out_of_memory)
    case False
    then obtain r' where "create_named_mailbox name n = Some (r', n')" using c by (auto simp: guarded_creation)
    then show ?thesis using keepsD [OF keeps_create_named inv] by blast
  next
    case True
    let ?p = "fst (make_pid n)" and ?a = "length (mailbox_objects n)"
    let ?n1 = "(update_pid_fields n)\<lparr>mailbox_objects := mailbox_objects n @ [Some (new_mailbox ?p name)]\<rparr>"
    let ?rest = "then_do (safe_execute (make_guard remove_mailbox_ptr ?a)) (\<lambda>_.
      then_do (destroy_mailbox env net True ?a) (\<lambda>posted. done_with (Bad_alloc posted)))"
    have n1: "node_inv ?n1" using node_inv_append [OF node_inv_update_pid [OF inv], of "new_mailbox ?p name"] by simp
    have ok: "entry_ok ?n1 (?p, ?a)" by (simp add: entry_ok_def new_mailbox_def make_pid_def)
    consider "n' = ?n1" | b ms where "insert_pid ?p ?a (mailboxes n) = Inr (b, ms)" "?rest (?n1\<lparr>mailboxes := ms\<rparr>) = Some (r, n')"
      using c True
      by (auto simp: create_guarded_def returned_guard_once add_mailbox_def make_pid_def new_object_def then_do_def done_with_def
          split: sum.splits)
    then show ?thesis
    proof cases
      case (2 b ms)
      have "keeps node_inv ?rest" by (intro keeps_rules) (auto simp: make_guard_def intro: keeps_remove_ptr)
      moreover have "node_inv (?n1\<lparr>mailboxes := ms\<rparr>)" using 2 node_inv_add_entry [OF n1 _ ok] by simp
      ultimately show ?thesis using 2 keepsD by blast
    qed (use n1 in simp)
  qed
qed

section \<open>Runs of a node\<close>

text \<open>
  The calls of the clients, of the mailboxes, of the peers and of the timer, in any order. The network and
  the sockets are arbitrary and may change from step to step.
\<close>

inductive node_step :: "conn_env \<Rightarrow> actual_node \<Rightarrow> actual_node \<Rightarrow> bool" for env where
  "create_mailbox n = Some (r, n') \<Longrightarrow> node_step env n n'"
| "create_named_mailbox name n = Some (r', n') \<Longrightarrow> node_step env n n'"
| "close_mailbox env net p name n = Some (u, n') \<Longrightarrow> node_step env n n'"
| "close_mailbox_async env net p name n = Some (u, n') \<Longrightarrow> node_step env n n'"
| "destroy_mailbox env net unwinding a n = Some (d, n') \<Longrightarrow> node_step env n n'"
| "node_link env net p q n = Some (u, n') \<Longrightarrow> node_step env n n'"
| "node_unlink env net p q n = Some (u, n') \<Longrightarrow> node_step env n n'"
| "deliver env net msg p n = Some (u, n') \<Longrightarrow> node_step env n n'"
| "deliver_local msg name n = Some (u, n') \<Longrightarrow> node_step env n n'"
| "deliver_registered env net msg name node p n = Some (u, n') \<Longrightarrow> node_step env n n'"
| "ping_peer env net peer n = Some (b, n') \<Longrightarrow> node_step env n n'"
| "publish_port env sock acceptor port n = Some (u, n') \<Longrightarrow> node_step env n n'"
| "perform (env_platform env) call n = Some (u, n') \<Longrightarrow> node_step env n n'"
| "node_step env n (in_mailbox a (receive_tmo old) n)"
| "\<lbrakk>mailbox_objects n ! a = Some m; receive m = Some (msg, m')\<rbrakk> \<Longrightarrow>
     node_step env n (n\<lparr>mailbox_objects := (mailbox_objects n)[a := Some m']\<rparr>)"
| "node_step env n (n\<lparr>connector := c\<rparr>)"
| "create_guarded env net copies out_of_memory name n = Some (g, n') \<Longrightarrow> node_step env n n'"

lemma step_keeps: "node_step env n n' \<Longrightarrow> node_inv n \<Longrightarrow> node_inv n'"
proof (induction rule: node_step.induct)
  case (15 n a m msg m')
  then show ?case using receive_identity by (auto intro!: node_inv_object)
qed (auto intro: keepsD keeps_rules node_inv_in_mailbox)

section \<open>Properties\<close>

lemma reachable_inv: "(node_step env)\<^sup>*\<^sup>* n0 n \<Longrightarrow> node_inv n0 \<Longrightarrow> node_inv n"
  by (induction rule: rtranclp_induct) (auto intro: step_keeps)

lemma linked_pair_reachable: "(node_step env)\<^sup>*\<^sup>* (new_node ''a@h'') linked_pair"
proof -
  obtain a n1 b n2 where "create_mailbox (new_node ''a@h'') = Some (Inr a, n1)" "create_mailbox n1 = Some (Inr b, n2)"
    "node_link env undefined (fst (make_pid (new_node ''a@h''))) (fst (make_pid (update_pid_fields (new_node ''a@h'')))) n2 =
       Some (Inr (), linked_pair)"
    using linked_pair_reached [of env undefined] by (auto simp: then_do_def split: option.splits sum.splits)
  then have "node_step env (new_node ''a@h'') n1" "node_step env n1 n2" "node_step env n2 linked_pair"
    by (auto intro: node_step.intros(1,6))
  then show ?thesis by (meson r_into_rtranclp rtranclp_trans)
qed

text \<open>C7. Whatever clients, mailboxes, peers and timers do, in any order: every entry of a node's two
  registries leads to an object the node has created; an object that has not expired carries the
  pid and the name it is registered under, and that pid is one of this node; no link is stored twice; and the
  pid counters stay within their 15 and 13 bits.\<close>

theorem reachable_node_consistent:
  assumes "(node_step env)\<^sup>*\<^sup>* (new_node name) n"
  shows "node_inv n"
  using reachable_inv [OF assms node_inv_new] .

theorem reachable_node_consistent_witness: "node_inv linked_pair"
  by (rule reachable_node_consistent [OF linked_pair_reachable])

text \<open>C8. A delivery never reaches a wrong mailbox: when a message to a pid is accepted in a reachable
  state, exactly one object changes; it is a mailbox that is alive, its pid is one of this node and has the
  identifier and the serial of the addressed pid, and the message is the next it has.\<close>

theorem delivery_reaches_addressee:
  assumes "(node_step env)\<^sup>*\<^sup>* (new_node name) n" and "receive_incoming pf msg q n = Some (Inr (), n')"
  shows "\<exists>a m. a < length (mailbox_objects n) \<and> mailbox_objects n ! a = Some m \<and>
    node_name (own_pid m) = own_node_name n \<and> id_of (own_pid m) = id_of q \<and> serial_of (own_pid m) = serial_of q \<and>
    n' = n\<lparr>mailbox_objects := (mailbox_objects n)[a := Some (m\<lparr>received_msgs := msg # received_msgs m, message_ready := True\<rparr>)]\<rparr>"
proof -
  obtain a where a: "find_pid q (mailboxes n) = Inr (Some a)" "mailbox_objects n ! a \<noteq> None" "n' = in_mailbox a (on_incoming msg) n"
    using assms(2) by (auto simp: receive_incoming_def then_do_def fetch_by_pid_def updating_def
        split: option.splits sum.splits if_splits)
  then obtain m where m: "mailbox_objects n ! a = Some m" by auto
  have "list_all (entry_ok n) (mailboxes n)" using reachable_inv [OF assms(1) node_inv_new] by (simp add: node_inv_def)
  from pids.look_all [OF a(1) this] obtain p where p: "equivalent p q" "entry_ok n (p, a)" by blast
  then show ?thesis
    using m a(3) by (auto simp: entry_ok_def equivalent_iff in_mailbox_def on_incoming_def notify_receive_def)
qed

theorem delivery_reaches_addressee_witness:
  "\<exists>n' a m. receive_incoming documented_platform [97, 1] (fst (make_pid (new_node ''a@h''))) linked_pair = Some (Inr (), n') \<and>
    mailbox_objects linked_pair ! a = Some m \<and> id_of (own_pid m) = 1 \<and>
    n' = linked_pair\<lparr>mailbox_objects := (mailbox_objects linked_pair)[a := Some (m\<lparr>received_msgs := [97, 1] # received_msgs m, message_ready := True\<rparr>)]\<rparr>"
proof -
  have id: "id_of (fst (make_pid (new_node ''a@h''))) = 1" by (simp add: make_pid_def new_node_def)
  obtain n' where n': "receive_incoming documented_platform [97, 1] (fst (make_pid (new_node ''a@h''))) linked_pair = Some (Inr (), n')"
    by (simp add: receive_incoming_def op_defs fetch_by_pid_def linked_pair_def node_sims)
  from delivery_reaches_addressee [OF linked_pair_reachable this] show ?thesis using n' unfolding id by blast
qed

end
