(* ===== verification/Receiving.thy ===== *)
theory Receiving
  imports Node_Inv
begin

text \<open>
  What the calls that a connection makes on its node (\<open>msg_received\<close> of \<open>impl/node_connection_state.cpp\<close>,
  \<open>impl/node_connection.cpp\<close>) do to the node as a whole. The abstract view is that of a router: a call is an event for the one
  mailbox it is addressed to, or for none, and a change of the set of links. \<open>routed\<close> says that a
  node has carried out a list of calls in this sense; every list of calls is routed, whatever pids and names
  it mentions, as long as the registry by pid can compare them.
\<close>

section \<open>The calls of a connection\<close>

text \<open>
  \<open>connected::msg_received\<close> dispatches each message and catches what the node throws, so that
  the calls are performed one after the other whatever their outcomes. Undefined behaviour is no
  exception: there is no state after it.
\<close>

fun perform_all :: "platform \<Rightarrow> access_call list \<Rightarrow> actual_node \<Rightarrow> actual_node option" where
  "perform_all pf [] n = Some n"
| "perform_all pf (c # cs) n =
     (case perform pf c n of
        None \<Rightarrow> None
      | Some (Inl Undefined_behaviour, _) \<Rightarrow> None
      | Some (_, n') \<Rightarrow> perform_all pf cs n')"

section \<open>Whom a call is addressed to\<close>

definition addressee :: "actual_node \<Rightarrow> e_pid \<Rightarrow> nat option" where
  "addressee n q =
     (case find_pid q (mailboxes n) of
        Inr (Some b) \<Rightarrow> if mailbox_objects n ! b = None then None else Some b
      | _ \<Rightarrow> None)"

definition named_addressee :: "actual_node \<Rightarrow> string \<Rightarrow> nat option" where
  "named_addressee n name =
     (case map_of (registered_mailboxes n) name of
        Some b \<Rightarrow> if mailbox_objects n ! b = None then None else Some b
      | None \<Rightarrow> None)"

fun pid_of :: "access_call \<Rightarrow> e_pid option" where
  "pid_of (Deliver_to_pid msg q) = Some q"
| "pid_of (Request_exit p q reason) = Some q"
| "pid_of (Request_exit2 p q reason) = Some q"
| "pid_of c = None"

fun addressee_of :: "actual_node \<Rightarrow> access_call \<Rightarrow> nat option" where
  "addressee_of n (Deliver_to_name msg name) = named_addressee n name"
| "addressee_of n c = (case pid_of c of None \<Rightarrow> None | Some q \<Rightarrow> addressee n q)"

text \<open>What a call is to its mailbox: events of the theory \<open>Mailbox\<close>.\<close>

fun event_of :: "access_call \<Rightarrow> mailbox_event list" where
  "event_of (Deliver_to_pid msg q) = [Incoming msg]"
| "event_of (Deliver_to_name msg name) = [Incoming msg]"
| "event_of (Request_exit p q reason) = [Broken reason p]"
| "event_of (Request_exit2 p q reason) = [Broken reason p]"
| "event_of c = []"

definition events_for :: "actual_node \<Rightarrow> nat \<Rightarrow> access_call list \<Rightarrow> mailbox_event list" where
  "events_for n b cs = concat (map (\<lambda>c. if addressee_of n c = Some b then event_of c else []) cs)"

fun take_event :: "mailbox_event \<Rightarrow> actual_mailbox \<Rightarrow> actual_mailbox" where
  "take_event (Incoming msg) = on_incoming msg"
| "take_event (Broken reason p) = on_link_broken reason p"
| "take_event e = id"

text \<open>An exit ends the link it reports, when there is a mailbox to report it to.\<close>

fun link_change :: "actual_node \<Rightarrow> access_call \<Rightarrow> links \<Rightarrow> links" where
  "link_change n (Request_link p q) ls = link p q ls"
| "link_change n (Request_unlink p q) ls = unlink p q ls"
| "link_change n (Request_exit p q reason) ls = (if addressee n q = None then ls else unlink p q ls)"
| "link_change n (Request_exit2 p q reason) ls = (if addressee n q = None then ls else unlink p q ls)"
| "link_change n c ls = ls"

text \<open>
  \<open>n'\<close> is what becomes of \<open>n\<close> when the calls are carried out: each object has taken its events, in
  their order, the links have changed, and what is addressed to whom is as before.
\<close>

definition defined_on :: "actual_node \<Rightarrow> e_pid \<Rightarrow> bool" where
  "defined_on n q \<longleftrightarrow> comparable (q # map fst (mailboxes n))"

definition routed :: "actual_node \<Rightarrow> access_call list \<Rightarrow> actual_node \<Rightarrow> bool" where
  "routed n cs n' \<longleftrightarrow>
     length (mailbox_objects n') = length (mailbox_objects n) \<and>
     (\<forall>b < length (mailbox_objects n).
        mailbox_objects n' ! b = map_option (fold take_event (events_for n b cs)) (mailbox_objects n ! b)) \<and>
     established_links n' = fold (link_change n) cs (established_links n) \<and>
     (\<forall>q. defined_on n q \<longrightarrow> defined_on n' q \<and> addressee n' q = addressee n q) \<and>
     named_addressee n' = named_addressee n \<and> connector n' = connector n"

section \<open>One call\<close>

lemma addressee_expired:
  assumes "find_pid p (mailboxes n) = Inr (Some a)" and "mailbox_objects n ! a = None" and "defined_on n q"
  shows "addressee (n\<lparr>mailboxes := filter (\<lambda>(r, _). \<not> equivalent r p) (mailboxes n)\<rparr>) q = addressee n q"
    and "defined_on (n\<lparr>mailboxes := filter (\<lambda>(r, _). \<not> equivalent r p) (mailboxes n)\<rparr>) q"
proof -
  let ?ms = "filter (\<lambda>(r, _). \<not> equivalent r p) (mailboxes n)"
  have c: "comparable (q # map fst ?ms)"
    using assms(3) by (rule_tac comparable_subset [of "q # map fst (mailboxes n)"]) (auto simp: defined_on_def)
  then show "defined_on (n\<lparr>mailboxes := ?ms\<rparr>) q" by (simp add: defined_on_def)
  show "addressee (n\<lparr>mailboxes := ?ms\<rparr>) q = addressee n q"
  proof (cases "equivalent q p")
    case True
    then have eq: "equivalent r q \<longleftrightarrow> equivalent r p" for r by (auto simp: equivalent_iff)
    have "find (\<lambda>(r, _). equivalent r q) ?ms = None" by (auto simp: find_None_iff eq)
    moreover have "find_pid q (mailboxes n) = Inr (Some a)"
      using assms(1,3) by (auto simp: find_pid_def defined_on_def eq split: if_splits)
    ultimately show ?thesis using c assms(2) by (simp add: addressee_def find_pid_def)
  next
    case False
    then have "find (\<lambda>(r, _). equivalent r q) ?ms = find (\<lambda>(r, _). equivalent r q) ms"
      if "?ms = filter (\<lambda>(r, _). \<not> equivalent r p) ms" for ms
      unfolding that by (induction ms) (auto simp: equivalent_iff)
    then have "find (\<lambda>(r, _). equivalent r q) ?ms = find (\<lambda>(r, _). equivalent r q) (mailboxes n)" by blast
    then show ?thesis using c assms(3) by (auto simp: addressee_def find_pid_def defined_on_def split: option.split)
  qed
qed

lemma named_expired:
  assumes "map_of (registered_mailboxes n) name = Some a" and "mailbox_objects n ! a = None"
  shows "named_addressee (n\<lparr>registered_mailboxes := map_erase name (registered_mailboxes n)\<rparr>) = named_addressee n"
  using assms by (auto simp: named_addressee_def map_of_erase fun_eq_iff split: option.split)

lemma fetch_pid_cases:
  assumes "defined_on n q"
  obtains (found) b where "addressee n q = Some b" "fetch_by_pid pf q n = Some (Inr b, n)"
  | (unknown) e n' where "addressee n q = None" "fetch_by_pid pf q n = Some (Inl (Tinch_pp_exception e), n')" "routed n [] n'"
proof -
  let ?x = "find_pid q (mailboxes n)"
  have same: "routed n [] n"
    by (simp add: routed_def events_for_def option.map_id)
  consider "?x = Inr None" | a where "?x = Inr (Some a)" "mailbox_objects n ! a = None"
    | a where "?x = Inr (Some a)" "mailbox_objects n ! a \<noteq> None"
    using assms by (cases ?x) (auto simp: find_pid_def defined_on_def split: if_splits)
  then show thesis
  proof cases
    case 2
    let ?n' = "n\<lparr>mailboxes := filter (\<lambda>(r, _). \<not> equivalent r q) (mailboxes n)\<rparr>"
    have "routed n [] ?n'" using same addressee_expired [OF 2]
      by (auto simp: routed_def events_for_def named_addressee_def fun_eq_iff split: option.split)
    then show thesis using 2 unknown by (simp add: fetch_by_pid_def addressee_def)
  qed (use same found unknown in \<open>auto simp: fetch_by_pid_def addressee_def\<close>)
qed

lemma fetch_name_cases:
  obtains (found) b where "named_addressee n name = Some b" "fetch_by_name name n = Some (Inr b, n)"
  | (unknown) e n' where "named_addressee n name = None" "fetch_by_name name n = Some (Inl (Tinch_pp_exception e), n')" "routed n [] n'"
proof -
  have same: "routed n [] n" by (simp add: routed_def events_for_def option.map_id)
  consider "map_of (registered_mailboxes n) name = None"
    | a where "map_of (registered_mailboxes n) name = Some a" "mailbox_objects n ! a = None"
    | a where "map_of (registered_mailboxes n) name = Some a" "mailbox_objects n ! a \<noteq> None"
    by (cases "map_of (registered_mailboxes n) name") auto
  then show thesis
  proof cases
    case 2
    have "routed n [] (n\<lparr>registered_mailboxes := map_erase name (registered_mailboxes n)\<rparr>)"
      using same named_expired [OF 2] by (auto simp: routed_def events_for_def defined_on_def addressee_def split: sum.split option.split)
    then show thesis using 2 unknown by (simp add: fetch_by_name_def named_addressee_def)
  qed (use same found unknown in \<open>auto simp: fetch_by_name_def named_addressee_def\<close>)
qed

lemma addressee_exists:
  assumes "node_inv n"
  shows "addressee_of n c = Some b \<Longrightarrow> b < length (mailbox_objects n)"
proof -
  have e: "list_all (entry_ok n) (mailboxes n)" "list_all (name_ok n) (registered_mailboxes n)"
    using assms by (simp_all add: node_inv_def)
  have pid: "b < length (mailbox_objects n)" if b: "addressee n q = Some b" for q
  proof -
    have "find_pid q (mailboxes n) = Inr (Some b)"
      using b by (auto simp: addressee_def split: sum.splits option.splits if_splits)
    from pids.look_all [OF this e(1)] show ?thesis by (auto simp: entry_ok_def)
  qed
  have name: "b < length (mailbox_objects n)" if b: "named_addressee n name = Some b" for name
  proof -
    have "Inr (map_of (registered_mailboxes n) name) = (Inr (Some b) :: nat option result)"
      using b by (auto simp: named_addressee_def split: option.splits if_splits)
    from names.look_all [OF this e(2)] show ?thesis by (auto simp: name_ok_def)
  qed
  show "addressee_of n c = Some b \<Longrightarrow> b < length (mailbox_objects n)" using pid name by (cases c) auto
qed

lemma routed_unknown:
  "\<lbrakk>routed n [] n'; addressee_of n c = None; link_change n c (established_links n) = established_links n\<rbrakk> \<Longrightarrow> routed n [c] n'"
  by (simp add: routed_def events_for_def)

lemma routed_event:
  assumes "node_inv n" and "addressee_of n c = Some b" and "event_of c = [e]"
  shows "routed n [c] ((in_mailbox b (take_event e) n)\<lparr>established_links := link_change n c (established_links n)\<rparr>)"
  using addressee_exists [OF assms(1,2)] assms(2,3)
  by (auto simp: routed_def events_for_def in_mailbox_def nth_list_update addressee_def named_addressee_def defined_on_def fun_eq_iff
      option.map_id0 split: sum.split option.split)

lemma perform_routed:
  assumes "node_inv n" and "\<And>q. pid_of c = Some q \<Longrightarrow> defined_on n q"
  shows "\<exists>r n'. perform pf c n = Some (r, n') \<and> r \<noteq> Inl Undefined_behaviour \<and> routed n [c] n'"
proof -
  have exit: "\<exists>r n'. incoming_exit pf p q reason n = Some (r, n') \<and> r \<noteq> Inl Undefined_behaviour \<and> routed n [c] n'"
    if c: "c = Request_exit p q reason \<or> c = Request_exit2 p q reason" for p q reason
  proof -
    have "defined_on n q" using assms(2) c by auto
    then show ?thesis
    proof (cases rule: fetch_pid_cases [where pf = pf])
      case (found b)
      have "link_change n c (established_links n) = unlink p q (established_links n)" using c found by auto
      then show ?thesis using routed_event [OF assms(1), of c b "Broken reason p"] found c
        by (auto simp: incoming_exit_def linker_unlink_def op_defs in_mailbox_def)
    next
      case (unknown e n')
      then show ?thesis using routed_unknown [OF unknown(3), of c] c by (auto simp: incoming_exit_def then_do_def)
    qed
  qed
  show ?thesis
  proof (cases c)
    case (Deliver_to_pid msg q)
    then have "defined_on n q" using assms(2) by simp
    then show ?thesis
    proof (cases rule: fetch_pid_cases [where pf = pf])
      case (found b)
      then show ?thesis using routed_event [OF assms(1), of c b "Incoming msg"] Deliver_to_pid
        by (auto simp: receive_incoming_def op_defs in_mailbox_def)
    next
      case (unknown e n')
      then show ?thesis using routed_unknown [OF unknown(3), of c] Deliver_to_pid by (auto simp: receive_incoming_def then_do_def)
    qed
  next
    case (Deliver_to_name msg name)
    show ?thesis
    proof (cases rule: fetch_name_cases [of n name])
      case (found b)
      then show ?thesis using routed_event [OF assms(1), of c b "Incoming msg"] Deliver_to_name
        by (auto simp: receive_incoming_name_def op_defs in_mailbox_def)
    next
      case (unknown e n')
      then show ?thesis using routed_unknown [OF unknown(3), of c] Deliver_to_name by (auto simp: receive_incoming_name_def then_do_def)
    qed
  qed (use exit in \<open>auto simp: incoming_exit2_def incoming_link_def incoming_unlink_def linker_link_def linker_unlink_def op_defs
      routed_def events_for_def option.map_id addressee_def named_addressee_def defined_on_def fun_eq_iff split: sum.split option.split\<close>)
qed

section \<open>Many calls\<close>

lemma routed_same_addressee:
  assumes "routed n cs n1" and "\<And>q. pid_of c = Some q \<Longrightarrow> defined_on n q"
  shows "addressee_of n1 c = addressee_of n c" and "link_change n1 c = link_change n c"
  using assms by (cases c; auto simp: routed_def fun_eq_iff)+

lemma routed_trans:
  assumes "routed n cs n1" and "routed n1 ds n2" and "\<And>d q. \<lbrakk>d \<in> set ds; pid_of d = Some q\<rbrakk> \<Longrightarrow> defined_on n q"
  shows "routed n (cs @ ds) n2"
proof -
  have "events_for n1 b ds = events_for n b ds" for b
    using routed_same_addressee(1) [OF assms(1)] assms(3) by (auto simp: events_for_def intro!: arg_cong [of _ _ concat])
  moreover have "fold (link_change n1) ds ls = fold (link_change n) ds ls" for ls
    using routed_same_addressee(2) [OF assms(1)] assms(3) by (intro fold_cong) auto
  moreover have "events_for n b (cs @ ds) = events_for n b cs @ events_for n b ds" for b by (simp add: events_for_def)
  ultimately show ?thesis using assms(1,2) by (auto simp: routed_def option.map_comp comp_def)
qed

lemma perform_all_routed:
  assumes "node_inv n" and "\<And>c q. \<lbrakk>c \<in> set cs; pid_of c = Some q\<rbrakk> \<Longrightarrow> defined_on n q"
  shows "\<exists>n'. perform_all pf cs n = Some n' \<and> routed n cs n' \<and> node_inv n'"
  using assms
proof (induction cs arbitrary: n)
  case Nil
  then show ?case by (simp add: routed_def events_for_def option.map_id)
next
  case (Cons c cs)
  obtain r n1 where n1: "perform pf c n = Some (r, n1)" "r \<noteq> Inl Undefined_behaviour" "routed n [c] n1"
    using perform_routed [of n c pf] Cons.prems by auto
  have "node_inv n1" using keepsD [OF keeps_perform Cons.prems(1) n1(1)] .
  moreover have "defined_on n1 q" if "d \<in> set cs" "pid_of d = Some q" for d q
    using n1(3) Cons.prems(2) [of d q] that by (auto simp: routed_def)
  ultimately obtain n' where n': "perform_all pf cs n1 = Some n'" "routed n1 cs n'" "node_inv n'" using Cons.IH by blast
  moreover have "perform_all pf (c # cs) n = perform_all pf cs n1"
    using n1 by (cases r rule: sum.exhaust) (auto split: cpp_error.split simp del: perform.simps)
  moreover have "routed n ([c] @ cs) n'" using routed_trans [OF n1(3) n'(2)] Cons.prems(2) by auto
  ultimately show ?case by (simp del: perform.simps perform_all.simps)
qed

text \<open>What the events of a list of calls leave in a mailbox.\<close>

lemma taken_events:
  "received_msgs (fold take_event es m) = rev (concat (map incoming_of es)) @ received_msgs m"
  "broken_links (fold take_event es m) = broken_links m @ concat (map broken_of es)"
proof (induction es arbitrary: m)
  case (Cons e es)
  { case 1 show ?case using Cons(1) by (cases e) (simp_all add: on_incoming_def on_link_broken_def notify_receive_def) }
  { case 2 show ?case using Cons(2) by (cases e) (simp_all add: on_incoming_def on_link_broken_def notify_receive_def) }
qed simp_all

end
