(* ===== verification/Node_Actions.thy ===== *)
theory Node_Actions
  imports Receiving
begin

text \<open>
  The pieces of which the operations of a node consist (\<open>impl/actual_node.cpp\<close>, \<open>impl/linker.cpp\<close>,
  \<open>impl/link_policies.cpp\<close>), as labelled steps, for a node one of whose connections is followed: the first one of its
  connector. The theory shows what a step does to that connection, what one mailbox sees of it, and that
  every operation of the clients is a sequence of such steps.
\<close>

section \<open>The actions of a node\<close>

text \<open>
  What can be seen of an action from outside: that it asks something of the connection, that it calls the node as a
  connection does (sending to a local mailbox and linking local processes are such calls), what a client took
  out of a mailbox, that a timer expired, that a mailbox was unregistered or destroyed. \<open>Hears\<close> is for the calls of
  the connection itself.
\<close>

datatype action =
    Quiet
  | Asks control_msg
  | Calls access_call
  | Hears access_call
  | Takes nat "msg_seq result"
  | Expires nat bool
  | Drops e_pid string
  | Dies nat

definition the_end :: "actual_node \<Rightarrow> node_connection" where
  "the_end n = connections (connector n) ! 0"

definition has_end :: "actual_node \<Rightarrow> bool" where
  "has_end n \<longleftrightarrow> connections (connector n) \<noteq> []"

definition put_end :: "node_connection \<Rightarrow> actual_node \<Rightarrow> actual_node" where
  "put_end c n = n\<lparr>connector := (connector n)\<lparr>connections := (connections (connector n))[0 := c]\<rparr>\<rparr>"

text \<open>
  The pieces of which the operations of a node consist. Undefined behaviour has no state after it. What happens to
  the other connections, and under which names connections are known, is left open.
\<close>

inductive node_action :: "conn_env \<Rightarrow> actual_node \<Rightarrow> action \<Rightarrow> actual_node \<Rightarrow> bool" for env where
  creates: "\<lbrakk>create_mailbox n = Some (r, n'); r \<noteq> Inl Undefined_behaviour\<rbrakk> \<Longrightarrow> node_action env n Quiet n'"
| creates_named: "\<lbrakk>create_named_mailbox name n = Some (r, n'); r \<noteq> Inl Undefined_behaviour\<rbrakk> \<Longrightarrow> node_action env n Quiet n'"
| publishes: "node_action env n Quiet (n\<lparr>creation := c\<rparr>)"
| connects: "\<lbrakk>connections s \<noteq> []; connections s ! 0 = the_end n\<rbrakk> \<Longrightarrow> node_action env n Quiet (n\<lparr>connector := s\<rparr>)"
| cuts_links: "node_action env n Quiet (n\<lparr>established_links := snd (remove_links_from p (established_links n))\<rparr>)"
| asks: "\<lbrakk>map_of (node_connections (connector n)) peer = Some 0; conn_state (the_end n) = Connected;
     node_request env net cmd peer n = Some (r, n')\<rbrakk> \<Longrightarrow> node_action env n (Asks cmd) n'"
| calls: "\<lbrakk>perform (env_platform env) c n = Some (r, n'); r \<noteq> Inl Undefined_behaviour\<rbrakk> \<Longrightarrow> node_action env n (Calls c) n'"
| takes: "\<lbrakk>a < length (mailbox_objects n); mailbox_objects n ! a = Some m; receive m = Some (r, m')\<rbrakk>
   \<Longrightarrow> node_action env n (Takes a r) (n\<lparr>mailbox_objects := (mailbox_objects n)[a := Some m']\<rparr>)"
| expires: "node_action env n (Expires a old) (in_mailbox a (receive_tmo old) n)"
| drops: "\<lbrakk>remove_mailbox p name n = Some (r, n'); r \<noteq> Inl Undefined_behaviour\<rbrakk> \<Longrightarrow> node_action env n (Drops p name) n'"
| dies: "node_action env n (Dies a) (n\<lparr>mailbox_objects := (mailbox_objects n)[a := None]\<rparr>)"

inductive action_run :: "conn_env \<Rightarrow> actual_node \<Rightarrow> action list \<Rightarrow> actual_node \<Rightarrow> bool" for env where
  start: "action_run env n [] n"
| snoc: "\<lbrakk>action_run env n labs n'; node_action env n' lab n''\<rbrakk> \<Longrightarrow> action_run env n (labs @ [lab]) n''"

lemma action_run_one: "node_action env n lab n' \<Longrightarrow> action_run env n [lab] n'"
  using action_run.snoc [OF action_run.start] by fastforce

lemma action_run_append:
  assumes "action_run env n' labs' n''" and "action_run env n labs n'"
  shows "action_run env n (labs @ labs') n''"
  using assms by (induction rule: action_run.induct) (auto simp: action_run.start simp flip: append_assoc intro: action_run.snoc)

section \<open>What an operation does to the connection\<close>

text \<open>Neither the calls of a connection nor the registries touch the connector.\<close>

lemma keeps_connector:
  "keeps (\<lambda>n. connector n = k) (fetch_by_pid pf q)" "keeps (\<lambda>n. connector n = k) (fetch_by_name name)"
  by (rule keepsI; auto simp: fetch_by_pid_def fetch_by_name_def split: sum.splits option.splits if_splits)+

lemma connector_perform:
  assumes "perform pf c n = Some (r, n')"
  shows "connector n' = connector n"
proof -
  have u: "keeps (\<lambda>n. connector n = connector n0) (updating (in_mailbox a f))" for a f n0
    by (rule keeps_updating) (simp add: in_mailbox_def)
  have l: "keeps (\<lambda>n. connector n = connector n0) (linker_link p q)" "keeps (\<lambda>n. connector n = connector n0) (linker_unlink p q)"
    for p q n0 unfolding linker_link_def linker_unlink_def by (rule keeps_updating; simp)+
  have "keeps (\<lambda>n'. connector n' = connector n) (perform pf c)"
    by (cases c) (auto simp: receive_incoming_def receive_incoming_name_def incoming_link_def incoming_unlink_def
        incoming_exit_def incoming_exit2_def intro!: keeps_then_do keeps_connector u l)
  from keepsD [OF this refl assms] show ?thesis .
qed

lemma connector_perform_all: "perform_all pf cs n = Some n' \<Longrightarrow> connector n' = connector n"
proof (induction cs arbitrary: n)
  case (Cons c cs)
  then show ?case using connector_perform [of pf c n]
    by (auto split: option.splits sum.splits cpp_error.splits simp del: perform.simps)
qed simp

lemma the_end_put [simp]: "has_end n \<Longrightarrow> the_end (put_end c n) = c" "has_end (put_end c n) = has_end n"
  by (cases "connections (connector n)") (simp_all add: the_end_def put_end_def has_end_def)

text \<open>Only a request touches the connection.\<close>

lemma request_here:
  assumes "map_of (node_connections (connector n)) peer = Some 0"
  shows "node_request env net cmd peer n = Some (Inr (), put_end (request env cmd (the_end n)) n)"
  using assms by (simp add: node_request_def get_connection_to_def put_end_def the_end_def)

lemma action_end:
  assumes "node_action env n lab n'" and "has_end n"
  shows "has_end n' \<and> the_end n' =
    (case lab of Asks cmd \<Rightarrow> request env cmd (the_end n) | _ \<Rightarrow> the_end n)"
  using assms
proof (cases rule: node_action.cases)
  case (creates r)
  then have "connector n' = connector n"
    by (auto simp: create_mailbox_def make_pid_def new_object_def then_do_def update_pid_fields_def Let_def split: sum.splits if_splits)
  then show ?thesis using assms(2) creates by (simp add: has_end_def the_end_def)
next
  case (creates_named name r)
  then have "connector n' = connector n"
    by (auto simp: create_named_mailbox_def make_pid_def new_object_def then_do_def update_pid_fields_def Let_def split: sum.splits if_splits)
  then show ?thesis using assms(2) creates_named by (simp add: has_end_def the_end_def)
next
  case (asks peer net cmd r)
  then show ?thesis using assms(2) by (auto simp: request_here)
next
  case (calls c r)
  then show ?thesis using assms(2) connector_perform [OF calls(2)] by (simp add: has_end_def the_end_def)
next
  case (drops p name r)
  then have "connector n' = connector n" by (auto simp: remove_mailbox_def split: sum.splits)
  then show ?thesis using assms(2) drops by (simp add: has_end_def the_end_def)
qed (use assms(2) in \<open>auto simp: has_end_def the_end_def in_mailbox_def\<close>)

section \<open>One mailbox through an action\<close>

text \<open>
  A mailbox that lives and is registered: object \<open>b\<close>, under the pid \<open>q\<close> and, if any, under the name that is \<open>known\<close>.
\<close>

definition hosts :: "actual_node \<Rightarrow> e_pid \<Rightarrow> string option \<Rightarrow> nat \<Rightarrow> bool" where
  "hosts n q known b \<longleftrightarrow>
     b < length (mailbox_objects n) \<and> mailbox_objects n ! b \<noteq> None \<and>
     map_option snd (find (\<lambda>(r, _). equivalent r q) (mailboxes n)) = Some b \<and>
     (\<forall>r. (r, b) \<in> set (mailboxes n) \<longrightarrow> equivalent r q) \<and>
     (\<forall>name. map_of (registered_mailboxes n) name = Some b \<longleftrightarrow> known = Some name)"

text \<open>The calls that are meant for it.\<close>

fun meant_for :: "e_pid \<Rightarrow> string option \<Rightarrow> access_call \<Rightarrow> bool" where
  "meant_for q known (Deliver_to_pid msg r) = equivalent r q"
| "meant_for q known (Deliver_to_name msg name) = (known = Some name)"
| "meant_for q known (Request_exit p r reason) = equivalent r q"
| "meant_for q known (Request_exit2 p r reason) = equivalent r q"
| "meant_for q known c = False"

definition events_of_call :: "e_pid \<Rightarrow> string option \<Rightarrow> access_call \<Rightarrow> mailbox_event list" where
  "events_of_call q known c = (if meant_for q known c then event_of c else [])"

fun events_in :: "e_pid \<Rightarrow> string option \<Rightarrow> nat \<Rightarrow> action \<Rightarrow> mailbox_event list" where
  "events_in q known b (Calls c) = events_of_call q known c"
| "events_in q known b (Hears c) = events_of_call q known c"
| "events_in q known b (Takes a r) = (if a = b then [Received r] else [])"
| "events_in q known b (Expires a old) = (if a = b then [Timer old] else [])"
| "events_in q known b lab = []"

text \<open>It stays registered and alive unless it is closed or destroyed, or its name is given up with another mailbox.\<close>

fun spares :: "e_pid \<Rightarrow> string option \<Rightarrow> nat \<Rightarrow> action \<Rightarrow> bool" where
  "spares q known b (Drops p name) = (\<not> equivalent p q \<and> known \<noteq> Some name)"
| "spares q known b (Dies a) = (a \<noteq> b)"
| "spares q known b lab = True"

lemma hosts_cong:
  assumes "hosts n q known b" and "mailboxes n' = mailboxes n" and "registered_mailboxes n' = registered_mailboxes n"
    and "b < length (mailbox_objects n')" and "mailbox_objects n' ! b \<noteq> None"
  shows "hosts n' q known b"
  using assms by (simp add: hosts_def)

lemma find_filter_other:
  "\<not> equivalent q p \<Longrightarrow> find (\<lambda>(r, _). equivalent r q) (filter (\<lambda>(r, _). \<not> equivalent r p) ms) = find (\<lambda>(r, _). equivalent r q) ms"
  by (induction ms) (auto simp: equivalent_iff)

lemma hosts_erase:
  assumes "hosts n q known b" and "\<not> equivalent p q"
  shows "hosts (n\<lparr>mailboxes := filter (\<lambda>(r, _). \<not> equivalent r p) (mailboxes n)\<rparr>) q known b"
  using assms find_filter_other [of q p "mailboxes n"] by (auto simp: hosts_def equivalent_iff)

lemma hosts_erase_name:
  "hosts n q known b \<Longrightarrow> known \<noteq> Some name \<Longrightarrow>
    hosts (n\<lparr>registered_mailboxes := map_erase name (registered_mailboxes n)\<rparr>) q known b"
  by (auto simp: hosts_def map_of_erase)

lemma hosts_fetch:
  assumes h: "hosts n q known b" and f: "fetch_by_pid pf p n = Some (r, n')" and r: "r \<noteq> Inl Undefined_behaviour"
  shows "hosts n' q known b \<and> mailbox_objects n' = mailbox_objects n \<and> (r = Inr b \<longleftrightarrow> equivalent p q)"
proof -
  have c: "comparable (p # map fst (mailboxes n))" using f r by (auto simp: fetch_by_pid_def find_pid_def split: if_splits)
  show ?thesis
  proof (cases "equivalent p q")
    case True
    then have "find_pid p (mailboxes n) = Inr (Some b)"
      using c h by (simp add: hosts_def find_pid_def equivalent_iff)
    then show ?thesis using f h True by (auto simp: fetch_by_pid_def hosts_def)
  next
    case False
    have "find_pid p (mailboxes n) \<noteq> Inr (Some b)"
    proof
      assume "find_pid p (mailboxes n) = Inr (Some b)"
      with pids.look_entry obtain r where "equivalent r p" "(r, b) \<in> set (mailboxes n)" by blast
      then show False using h False by (auto simp: hosts_def equivalent_iff)
    qed
    then show ?thesis using f h False hosts_erase [OF h False] c
      by (auto simp: fetch_by_pid_def find_pid_def split: option.splits if_splits)
  qed
qed

lemma hosts_fetch_name:
  assumes h: "hosts n q known b" and f: "fetch_by_name name n = Some (r, n')"
  shows "hosts n' q known b \<and> mailbox_objects n' = mailbox_objects n \<and> (r = Inr b \<longleftrightarrow> known = Some name)"
proof (cases "known = Some name")
  case True
  then have "map_of (registered_mailboxes n) name = Some b" using h by (simp add: hosts_def)
  then show ?thesis using f h True by (auto simp: fetch_by_name_def hosts_def)
next
  case False
  then have "map_of (registered_mailboxes n) name \<noteq> Some b" using h by (simp add: hosts_def)
  then show ?thesis using f h False hosts_erase_name [OF h False]
    by (auto simp: fetch_by_name_def split: option.splits if_splits)
qed

lemma hosts_in_mailbox:
  assumes "hosts n q known b"
  shows "hosts (in_mailbox a f n) q known b"
    and "mailbox_objects (in_mailbox a f n) ! b = map_option (if a = b then f else id) (mailbox_objects n ! b)"
  using assms by (auto simp: hosts_def in_mailbox_def nth_update_if option.map_id0)

text \<open>What the mailbox sees of an action, as a run of its own.\<close>

definition sees :: "actual_node \<Rightarrow> nat \<Rightarrow> mailbox_event list \<Rightarrow> actual_node \<Rightarrow> bool" where
  "sees n b es n' \<longleftrightarrow>
     (\<exists>m m'. mailbox_objects n ! b = Some m \<and> mailbox_objects n' ! b = Some m' \<and> mailbox_run m es m')"

lemma mailbox_run_append: "mailbox_run m' es' m'' \<Longrightarrow> mailbox_run m es m' \<Longrightarrow> mailbox_run m (es @ es') m''"
  by (induction rule: mailbox_run.induct) (auto simp flip: append_assoc intro: mailbox_run.step)

lemma mailbox_run_one: "mailbox_step m e m' \<Longrightarrow> mailbox_run m [e] m'"
  using mailbox_run.step [OF mailbox_run.idle] by fastforce

lemma sees_trans: "sees n b es n' \<Longrightarrow> sees n' b es' n'' \<Longrightarrow> sees n b (es @ es') n''"
  by (auto simp: sees_def intro: mailbox_run_append)

lemma sees_nothing: "hosts n q known b \<Longrightarrow> mailbox_objects n' ! b = mailbox_objects n ! b \<Longrightarrow> sees n b [] n'"
  by (auto simp: sees_def hosts_def intro: mailbox_run.idle)

lemma sees_event:
  assumes "hosts n q known b" and "\<And>m. mailbox_step m e (f m)"
  shows "sees n b (if a = b then [e] else []) (in_mailbox a f n)"
proof -
  obtain m where "mailbox_objects n ! b = Some m" using assms(1) by (auto simp: hosts_def)
  then show ?thesis using hosts_in_mailbox(2) [OF assms(1), of a f] assms(2)
    by (auto simp: sees_def intro: mailbox_run_one mailbox_run.idle)
qed

text \<open>A call first finds its mailbox, then tells it, and may change the links.\<close>

lemma sees_found:
  assumes h: "hosts n q known b" and F: "F n = Some (r1, n1)" and r: "r \<noteq> Inl Undefined_behaviour"
    and found: "r1 \<noteq> Inl Undefined_behaviour \<Longrightarrow>
      hosts n1 q known b \<and> mailbox_objects n1 = mailbox_objects n \<and> (r1 = Inr b \<longleftrightarrow> meant_for q known c)"
    and e: "event_of c = [e]" "\<And>m. mailbox_step m e (f m)"
    and g: "\<And>n. mailboxes (g n) = mailboxes n" "\<And>n. registered_mailboxes (g n) = registered_mailboxes n"
      "\<And>n. mailbox_objects (g n) = mailbox_objects n"
    and p: "then_do F (\<lambda>a. then_do (updating (in_mailbox a f)) (\<lambda>_. updating g)) n = Some (r, n')"
  shows "hosts n' q known b \<and> sees n b (events_of_call q known c) n'"
proof (cases r1)
  case (Inl x)
  then have "r = Inl x" "n' = n1" using p F by (simp_all add: then_do_def)
  then have "hosts n1 q known b" "mailbox_objects n1 = mailbox_objects n" "\<not> meant_for q known c" using found r Inl by auto
  then show ?thesis using \<open>n' = n1\<close> sees_nothing [OF h] by (simp add: events_of_call_def)
next
  case (Inr a)
  then have n': "n' = g (in_mailbox a f n1)" using p F by (simp add: op_defs)
  have n1: "hosts n1 q known b" "mailbox_objects n1 = mailbox_objects n" "a = b \<longleftrightarrow> meant_for q known c"
    using found Inr by auto
  have "hosts n' q known b" using hosts_in_mailbox(1) [OF n1(1), of a f] g unfolding n' by (simp add: hosts_def)
  moreover have "events_of_call q known c = (if a = b then [e] else [])" using n1(3) e(1) by (simp add: events_of_call_def)
  ultimately show ?thesis using sees_event [OF n1(1) e(2), of a] n1(2) g(3) unfolding n' by (simp add: sees_def)
qed

lemma found_pid:
  assumes h: "hosts n q known b" and r: "r \<noteq> Inl Undefined_behaviour"
    and c: "meant_for q known c \<longleftrightarrow> equivalent to q" "event_of c = [e]" "\<And>m. mailbox_step m e (f m)"
    and g: "\<And>n. mailboxes (g n) = mailboxes n" "\<And>n. registered_mailboxes (g n) = registered_mailboxes n"
      "\<And>n. mailbox_objects (g n) = mailbox_objects n"
    and p: "then_do (fetch_by_pid pf to) (\<lambda>a. then_do (updating (in_mailbox a f)) (\<lambda>_. updating g)) n = Some (r, n')"
  shows "hosts n' q known b \<and> sees n b (events_of_call q known c) n'"
proof -
  obtain r1 n1 where F: "fetch_by_pid pf to n = Some (r1, n1)" using p by (auto simp: then_do_def split: option.splits)
  from hosts_fetch [OF h F] c(1) have "r1 \<noteq> Inl Undefined_behaviour \<Longrightarrow>
    hosts n1 q known b \<and> mailbox_objects n1 = mailbox_objects n \<and> (r1 = Inr b \<longleftrightarrow> meant_for q known c)" by simp
  from sees_found [OF h F r this c(2,3) g p] show ?thesis .
qed

lemma found_name:
  assumes h: "hosts n q known b" and r: "r \<noteq> Inl Undefined_behaviour"
    and p: "then_do (fetch_by_name name) (\<lambda>a. then_do (updating (in_mailbox a (on_incoming msg))) (\<lambda>_. updating (\<lambda>n. n))) n = Some (r, n')"
  shows "hosts n' q known b \<and> sees n b (events_of_call q known (Deliver_to_name msg name)) n'"
proof -
  obtain r1 n1 where F: "fetch_by_name name n = Some (r1, n1)" using p by (auto simp: then_do_def split: option.splits)
  from hosts_fetch_name [OF h F] have "r1 \<noteq> Inl Undefined_behaviour \<Longrightarrow>
    hosts n1 q known b \<and> mailbox_objects n1 = mailbox_objects n \<and> (r1 = Inr b \<longleftrightarrow> meant_for q known (Deliver_to_name msg name))"
    by simp
  from sees_found [OF h F r this _ mailbox_step.incoming _ _ _ p] show ?thesis by simp
qed

lemma updating_then_nothing: "updating f = then_do (updating f) (\<lambda>_. updating (\<lambda>n. n))"
  by (simp add: fun_eq_iff op_defs)

lemma sees_perform:
  assumes h: "hosts n q known b" and p: "perform pf c n = Some (r, n')" and r: "r \<noteq> Inl Undefined_behaviour"
  shows "hosts n' q known b \<and> sees n b (events_of_call q known c) n'"
proof (cases c)
  case (Deliver_to_pid msg to)
  with p have "then_do (fetch_by_pid pf to) (\<lambda>a. then_do (updating (in_mailbox a (on_incoming msg))) (\<lambda>_. updating (\<lambda>n. n))) n = Some (r, n')"
    by (simp add: receive_incoming_def flip: updating_then_nothing)
  from found_pid [OF h r _ _ mailbox_step.incoming _ _ _ this, where c = c] show ?thesis by (simp add: Deliver_to_pid)
next
  case (Deliver_to_name msg name)
  with p have "then_do (fetch_by_name name) (\<lambda>a. then_do (updating (in_mailbox a (on_incoming msg))) (\<lambda>_. updating (\<lambda>n. n))) n = Some (r, n')"
    by (simp add: receive_incoming_name_def flip: updating_then_nothing)
  from found_name [OF h r this] show ?thesis by (simp add: Deliver_to_name)
next
  case (Request_exit p' to reason)
  with p have "then_do (fetch_by_pid pf to) (\<lambda>a. then_do (updating (in_mailbox a (on_link_broken reason p')))
      (\<lambda>_. updating (\<lambda>n. n\<lparr>established_links := unlink p' to (established_links n)\<rparr>))) n = Some (r, n')"
    by (simp add: incoming_exit_def linker_unlink_def)
  from found_pid [OF h r _ _ mailbox_step.broken _ _ _ this, where c = c] show ?thesis by (simp add: Request_exit)
next
  case (Request_exit2 p' to reason)
  with p have "then_do (fetch_by_pid pf to) (\<lambda>a. then_do (updating (in_mailbox a (on_link_broken reason p')))
      (\<lambda>_. updating (\<lambda>n. n\<lparr>established_links := unlink p' to (established_links n)\<rparr>))) n = Some (r, n')"
    by (simp add: incoming_exit2_def incoming_exit_def linker_unlink_def)
  from found_pid [OF h r _ _ mailbox_step.broken _ _ _ this, where c = c] show ?thesis by (simp add: Request_exit2)
qed (use p h sees_nothing [OF h, of n'] in
    \<open>auto simp: incoming_link_def incoming_unlink_def linker_link_def linker_unlink_def updating_def events_of_call_def hosts_def\<close>)

text \<open>A new mailbox has an object of its own, and neither registry forgets what it has.\<close>

lemma hosts_append:
  assumes "hosts n q known b" and "mailbox_objects n' = mailbox_objects n @ [x]"
    and "mailboxes n' = mailboxes n \<or> mailboxes n' = mailboxes n @ [(p, length (mailbox_objects n))]"
    and "registered_mailboxes n' = registered_mailboxes n \<or>
      registered_mailboxes n' = map_insert name (length (mailbox_objects n)) (registered_mailboxes n)"
  shows "hosts n' q known b" and "mailbox_objects n' ! b = mailbox_objects n ! b"
proof -
  have b: "b < length (mailbox_objects n)" using assms(1) by (simp add: hosts_def)
  then show "mailbox_objects n' ! b = mailbox_objects n ! b" using assms(2) by (simp add: nth_append)
  have find: "find P (xs @ ys) = (case find P xs of None \<Rightarrow> find P ys | Some x \<Rightarrow> Some x)" for P and xs ys :: "(e_pid \<times> nat) list"
    by (induction xs) auto
  show "hosts n' q known b"
    using assms b by (auto simp: hosts_def nth_append map_of_insert find split: option.splits if_splits; blast)
qed

lemma insert_pid_form: "insert_pid p a m = Inr (new, m') \<Longrightarrow> m' = m \<or> m' = m @ [(p, a)]"
  by (cases "find_pid p m") (auto simp: insert_pid_def split: option.splits)

lemma sees_creation:
  assumes h: "hosts n q known b" and c: "create_mailbox n = Some (r, n') \<or> create_named_mailbox name n = Some (r, n')"
  shows "hosts n' q known b \<and> sees n b [] n'"
proof -
  have "\<exists>x p. mailbox_objects n' = mailbox_objects n @ [x] \<and>
     (mailboxes n' = mailboxes n \<or> mailboxes n' = mailboxes n @ [(p, length (mailbox_objects n))]) \<and>
     (registered_mailboxes n' = registered_mailboxes n \<or>
      registered_mailboxes n' = map_insert name (length (mailbox_objects n)) (registered_mailboxes n))"
    using c by (auto simp: create_mailbox_def create_named_mailbox_def make_pid_def new_object_def then_do_def
        update_pid_fields_def Let_def split: sum.splits if_splits dest!: insert_pid_form)
  then obtain x p where "mailbox_objects n' = mailbox_objects n @ [x]"
    "mailboxes n' = mailboxes n \<or> mailboxes n' = mailboxes n @ [(p, length (mailbox_objects n))]"
    "registered_mailboxes n' = registered_mailboxes n \<or>
      registered_mailboxes n' = map_insert name (length (mailbox_objects n)) (registered_mailboxes n)" by blast
  from hosts_append [OF h this] sees_nothing [OF h] show ?thesis by blast
qed

text \<open>The new mailbox itself is registered from then on, under a name if it was given one that was free.\<close>

lemma insert_pid_new: "insert_pid p a m = Inr (True, m') \<Longrightarrow> m' = m @ [(p, a)] \<and> find (\<lambda>(r, _). equivalent r p) m = None"
  by (auto simp: insert_pid_def find_pid_def split: option.splits if_splits)

lemma new_entry_hosts:
  assumes inv: "node_inv n" and n': "mailbox_objects n' = mailbox_objects n @ [Some m]"
    "mailboxes n' = mailboxes n @ [(p, length (mailbox_objects n))]" "find (\<lambda>(r, _). equivalent r p) (mailboxes n) = None"
    and names: "\<And>name. map_of (registered_mailboxes n') name =
      (if known = Some name then Some (length (mailbox_objects n)) else map_of (registered_mailboxes n) name)"
  shows "hosts n' p known (length (mailbox_objects n))"
proof -
  let ?a = "length (mailbox_objects n)"
  have old: "(r, ?a) \<notin> set (mailboxes n)" "map_of (registered_mailboxes n) name \<noteq> Some ?a" for r name
    using inv by (auto simp: node_inv_def entry_ok_def name_ok_def list_all_iff dest: map_of_SomeD)
  have "find P (xs @ [x]) = (if P x then Some x else None)" if "find P xs = None" for P and x and xs :: "(e_pid \<times> nat) list"
    using that by (induction xs) (auto split: if_splits)
  from this [OF n'(3)] have "find (\<lambda>(r, _). equivalent r p) (mailboxes n') = Some (p, ?a)"
    by (simp add: n'(2) equivalent_iff)
  then show ?thesis using old n' names by (auto simp: hosts_def equivalent_iff)
qed

lemma created_hosts:
  assumes "node_inv n"
  shows "create_mailbox n = Some (Inr a, n') \<Longrightarrow> hosts n' (fst (make_pid n)) None a"
    and "create_named_mailbox name n = Some (Inr a, n') \<Longrightarrow> find_pid (fst (make_pid n)) (mailboxes n) = Inr None \<Longrightarrow>
      map_of (registered_mailboxes n) name = None \<Longrightarrow> hosts n' (fst (make_pid n)) (Some name) a"
proof -
  assume c: "create_mailbox n = Some (Inr a, n')"
  from create_mailbox_cases [OF c] c
  have "a = length (mailbox_objects n)" "mailbox_objects n' = mailbox_objects n @ [Some (new_mailbox (fst (make_pid n)) '''')]"
    "registered_mailboxes n' = registered_mailboxes n"
    "mailboxes n' = mailboxes n @ [(fst (make_pid n), a)] \<and> find (\<lambda>(r, _). equivalent r (fst (make_pid n))) (mailboxes n) = None"
    by (auto simp: create_mailbox_def make_pid_def new_object_def then_do_def update_pid_fields_def Let_def
        split: sum.splits if_splits dest!: insert_pid_new)
  then show "hosts n' (fst (make_pid n)) None a" using new_entry_hosts [OF assms] by simp
next
  assume c: "create_named_mailbox name n = Some (Inr a, n')" "find_pid (fst (make_pid n)) (mailboxes n) = Inr None"
    "map_of (registered_mailboxes n) name = None"
  let ?p = "fst (make_pid n)" and ?a = "length (mailbox_objects n)"
  have "insert_pid ?p ?a (mailboxes n) = Inr (True, mailboxes n @ [(?p, ?a)])" using c(2) by (simp add: insert_pid_def)
  moreover have "find (\<lambda>(r, _). equivalent r ?p) (mailboxes n) = None" using c(2) by (auto simp: find_pid_def split: if_splits)
  ultimately have "mailboxes n' = mailboxes n @ [(?p, ?a)] \<and> find (\<lambda>(r, _). equivalent r ?p) (mailboxes n) = None"
    using c(1) by (auto simp: create_named_mailbox_def make_pid_def new_object_def then_do_def update_pid_fields_def Let_def
        split: if_splits)
  then show "hosts n' ?p (Some name) a"
    using new_entry_hosts [OF assms, of n' "new_mailbox ?p name" ?p "Some name"] created_named [OF c(1)] c(3)
    by (simp add: map_of_insert)
qed

lemma action_sees:
  assumes step: "node_action env n lab n'" and h: "hosts n q known b" and spared: "spares q known b lab"
  shows "hosts n' q known b \<and> sees n b (events_in q known b lab) n'"
  using step
proof cases
  case (creates r)
  then show ?thesis using sees_creation [OF h] by auto
next
  case (creates_named name r)
  then show ?thesis using sees_creation [OF h] by auto
next
  case (asks peer net cmd r)
  then have "n' = put_end (request env cmd (the_end n)) n" by (simp add: request_here)
  then show ?thesis using asks(1) h sees_nothing [OF h, of n'] by (simp add: put_end_def hosts_def)
next
  case (calls c r)
  then show ?thesis using sees_perform [OF h] by simp
next
  case (takes a m r m')
  have "hosts n' q known b" using h takes by (auto simp: hosts_def nth_update_if)
  moreover have "sees n b (if a = b then [Received r] else []) n'"
    using h takes mailbox_run_one [OF mailbox_step.received] sees_nothing [OF h, of n']
    by (auto simp: sees_def nth_update_if)
  ultimately show ?thesis using takes(1) by simp
next
  case (expires a old)
  then show ?thesis using hosts_in_mailbox(1) [OF h] sees_event [OF h mailbox_step.timer] by simp
next
  case (drops p name r)
  then show ?thesis using spared h hosts_erase_name [OF hosts_erase [OF h]] sees_nothing [OF h, of n']
    by (auto simp: remove_mailbox_def erase_pid_def split: sum.splits if_splits)
next
  case (dies a)
  then show ?thesis using spared h sees_nothing [OF h, of n'] by (auto simp: hosts_def)
qed (use h sees_nothing [OF h, of n'] in \<open>auto simp: hosts_def\<close>)

lemma calls_sees:
  assumes "perform_all pf cs n = Some n'" and "hosts n q known b"
  shows "hosts n' q known b \<and> sees n b (concat (map (events_of_call q known) cs)) n'"
  using assms
proof (induction cs arbitrary: n)
  case Nil
  then show ?case using sees_nothing by simp
next
  case (Cons c cs)
  obtain r n1 where c: "perform pf c n = Some (r, n1)" "r \<noteq> Inl Undefined_behaviour" "perform_all pf cs n1 = Some n'"
    using Cons.prems(1) by (auto split: option.splits sum.splits cpp_error.splits simp del: perform.simps)
  note 1 = sees_perform [OF Cons.prems(2) c(1,2)]
  then show ?case using Cons.IH [OF c(3)] sees_trans by fastforce
qed

section \<open>Every operation consists of such actions\<close>

definition acts :: "conn_env \<Rightarrow> 'a node_op \<Rightarrow> bool" where
  "acts env m \<longleftrightarrow> (\<forall>n r n'. has_end n \<longrightarrow> m n = Some (r, n') \<longrightarrow> r \<noteq> Inl Undefined_behaviour \<longrightarrow>
     has_end n' \<and> (\<exists>labs. action_run env n labs n'))"

lemma actsI:
  assumes "\<And>n r n'. \<lbrakk>has_end n; m n = Some (r, n'); r \<noteq> Inl Undefined_behaviour\<rbrakk> \<Longrightarrow> n' = n \<or> (\<exists>lab. node_action env n lab n')"
  shows "acts env m"
  unfolding acts_def
proof (intro allI impI)
  fix n r n' assume n: "has_end n" "m n = Some (r, n')" "r \<noteq> Inl Undefined_behaviour"
  from assms [OF this] show "has_end n' \<and> (\<exists>labs. action_run env n labs n')"
    using n(1) action_end [OF _ n(1)] action_run.start action_run_one by metis
qed

lemma acts_then_do:
  assumes "acts env m" and "\<And>x. acts env (k x)"
  shows "acts env (then_do m k)"
  unfolding acts_def
proof (intro allI impI)
  fix n r n' assume n: "has_end n" "then_do m k n = Some (r, n')" "r \<noteq> Inl Undefined_behaviour"
  then obtain x n1 where m: "m n = Some (x, n1)" by (auto simp: then_do_def split: option.splits)
  then have "x \<noteq> Inl Undefined_behaviour" using n(2,3) by (cases x) (auto simp: then_do_def)
  then obtain labs where 1: "has_end n1" "action_run env n labs n1" using assms(1) n(1) m unfolding acts_def by blast
  show "has_end n' \<and> (\<exists>labs. action_run env n labs n')"
  proof (cases x)
    case (Inr y)
    then have "k y n1 = Some (r, n')" using n(2) m by (simp add: then_do_def)
    then obtain labs' where "has_end n'" "action_run env n1 labs' n'" using assms(2) 1(1) n(3) unfolding acts_def by blast
    then show ?thesis using action_run_append [OF _ 1(2)] by blast
  qed (use n(2) m 1 in \<open>auto simp: then_do_def\<close>)
qed

lemma acts_for_each: "(\<And>x. acts env (f x)) \<Longrightarrow> acts env (for_each f xs)"
  by (induction xs) (auto intro: acts_then_do actsI simp: done_with_def)

lemma get_connection_first:
  assumes "get_connection_to env net own peer s = Some (r, s')" and "connections s \<noteq> []"
  shows "connections s' \<noteq> [] \<and> connections s' ! 0 = connections s ! 0 \<and>
    (r = Inr 0 \<longrightarrow> s' = s \<and> map_of (node_connections s) peer = Some 0)"
  using assms
  by (auto simp: get_connection_to_def make_new_connection_def nth_append Let_def split: option.splits sum.splits prod.splits if_splits)

lemma acts_request: "acts env (node_request env net cmd peer)"
proof (rule actsI)
  fix n r n' assume n: "has_end n" "node_request env net cmd peer n = Some (r, n')"
  then obtain x s where g: "get_connection_to env net (own_node_name n) peer (connector n) = Some (x, s)"
    by (auto simp: node_request_def split: option.splits)
  note first = get_connection_first [OF g n(1) [unfolded has_end_def]]
  show "n' = n \<or> (\<exists>lab. node_action env n lab n')"
  proof (cases x)
    case (Inl e)
    then show ?thesis using n(2) g first node_action.connects [of s n env] by (auto simp: node_request_def the_end_def)
  next
    case (Inr i)
    show ?thesis
    proof (cases "i = 0 \<and> conn_state (the_end n) = Connected")
      case True
      then show ?thesis using first Inr node_action.asks n(2) by blast
    next
      case False
      let ?s = "s\<lparr>connections := (connections s)[i := request env cmd (connections s ! i)]\<rparr>"
      have "connections ?s \<noteq> []" "connections ?s ! 0 = the_end n"
        using first Inr False by (auto simp: the_end_def request_def nth_update_if)
      moreover have "n' = n\<lparr>connector := ?s\<rparr>" using n(2) g Inr by (simp add: node_request_def)
      ultimately show ?thesis using node_action.connects by blast
    qed
  qed
qed

lemma acts_perform: "acts env (perform (env_platform env) c)"
  by (rule actsI) (auto intro: node_action.calls simp del: perform.simps)

lemmas acts_calls =
  acts_perform [where c = "Request_link p q" for p q, simplified] acts_perform [where c = "Request_unlink p q" for p q, simplified]
  acts_perform [where c = "Request_exit p q reason" for p q reason, simplified]
  acts_perform [where c = "Request_exit2 p q reason" for p q reason, simplified]
  acts_perform [where c = "Deliver_to_name msg name" for msg name, simplified]

lemma acts_linker: "acts env (linker_link p q)" "acts env (linker_unlink p q)"
  using acts_calls(1,2) by (simp_all add: incoming_link_def [abs_def] incoming_unlink_def [abs_def])

lemma acts_if:
  assumes "acts env m" and "acts env m'" and "\<And>n. f n = (if b n then m n else m' n)"
  shows "acts env f"
  unfolding acts_def
proof (intro allI impI)
  fix n r n' assume n: "has_end n" "f n = Some (r, n')" "r \<noteq> Inl Undefined_behaviour"
  show "has_end n' \<and> (\<exists>labs. action_run env n labs n')"
  proof (cases "b n")
    case True
    then have "m n = Some (r, n')" using n(2) assms(3) [of n] by simp
    then show ?thesis using assms(1) n(1,3) unfolding acts_def by blast
  next
    case False
    then have "m' n = Some (r, n')" using n(2) assms(3) [of n] by simp
    then show ?thesis using assms(2) n(1,3) unfolding acts_def by blast
  qed
qed

lemma acts_links:
  "acts env (node_link env net p q)" "acts env (node_unlink env net p q)"
  "acts env (request_exit env net p q reason)" "acts env (request_exit2 env net p q reason)"
  by (rule acts_if [OF _ _ link_operations_by_place(1)] acts_if [OF _ _ link_operations_by_place(2)]
      acts_if [OF _ _ link_operations_by_place(3)] acts_if [OF _ _ link_operations_by_place(4)];
      intro acts_then_do acts_request acts_linker acts_calls)+

lemma acts_close: "acts env (close_mailbox_because env net p name reason)"
  unfolding close_mailbox_because_def close_links_for_local_def
proof (rule acts_then_do)
  have closing: "acts env (then_do (updating (\<lambda>n. n\<lparr>established_links := snd (remove_links_from p (established_links n))\<rparr>))
      (\<lambda>_. for_each (\<lambda>q. request_exit2 env net p q reason) qs))" for qs
    by (intro acts_then_do acts_for_each acts_links) (auto intro!: actsI node_action.cuts_links simp: updating_def)
  show "acts env (on_broken_links (\<lambda>q. request_exit2 env net p q reason) p)"
    unfolding acts_def
  proof (intro allI impI)
    fix n r n' assume n: "has_end n" "on_broken_links (\<lambda>q. request_exit2 env net p q reason) p n = Some (r, n')" "r \<noteq> Inl Undefined_behaviour"
    then have "then_do (updating (\<lambda>n. n\<lparr>established_links := snd (remove_links_from p (established_links n))\<rparr>))
      (\<lambda>_. for_each (\<lambda>q. request_exit2 env net p q reason) (fst (remove_links_from p (established_links n)))) n = Some (r, n')"
      by (simp add: on_broken_links_def op_defs split_beta)
    then show "has_end n' \<and> (\<exists>labs. action_run env n labs n')" using closing n unfolding acts_def by blast
  qed
  show "\<And>x. acts env (remove_mailbox p name)" by (auto intro!: actsI node_action.drops)
qed

text \<open>The operations of the clients.\<close>

lemma clients_act:
  "acts env create_mailbox" "acts env (create_named_mailbox name)" "acts env (close_mailbox env net p name)"
  "acts env (close_mailbox_async env net p name)" "acts env (node_link env net p q)" "acts env (node_unlink env net p q)"
  "acts env (deliver env net msg p)" "acts env (deliver_local msg name)"
  "acts env (deliver_registered env net msg name peer p)" "acts env (ping_peer env net peer)"
  "acts env (publish_port env sock acceptor port)"
proof -
  show "acts env create_mailbox" "acts env (create_named_mailbox name)" by (auto intro!: actsI node_action.intros(1,2))
  show "acts env (close_mailbox env net p name)" "acts env (close_mailbox_async env net p name)"
    by (simp_all add: close_mailbox_def close_mailbox_async_def acts_close)
  show "acts env (node_link env net p q)" "acts env (node_unlink env net p q)" by (rule acts_links)+
  show "acts env (deliver env net msg p)" "acts env (deliver_registered env net msg name peer p)"
    by (simp_all add: deliver_def [abs_def] deliver_registered_def [abs_def] acts_request)
  show "acts env (deliver_local msg name)" using acts_calls(5) by (simp add: deliver_local_def [abs_def])
  show "acts env (ping_peer env net peer)"
  proof (rule actsI)
    fix n r n' assume "has_end n" "ping_peer env net peer n = Some (r, n')"
    then obtain x s where "get_connection_to env net (own_node_name n) peer (connector n) = Some (x, s)" "n' = n\<lparr>connector := s\<rparr>"
      by (auto simp: ping_peer_def split: option.splits sum.splits if_splits)
    then show "n' = n \<or> (\<exists>lab. node_action env n lab n')"
      using get_connection_first [of env net "own_node_name n" peer "connector n" x s] \<open>has_end n\<close>
        node_action.connects [of s n env] by (auto simp: has_end_def the_end_def)
  qed
  show "acts env (publish_port env sock acceptor port)"
    unfolding acts_def
  proof (intro allI impI)
    fix n r n' assume n: "has_end n" "publish_port env sock acceptor port n = Some (r, n')" "r \<noteq> Inl Undefined_behaviour"
    then consider "n' = n" | c where "n' = n\<lparr>creation := c\<rparr>" | c where "n' = n\<lparr>creation := c, connector := trigger_accept (connector n)\<rparr>"
      by (auto simp: publish_port_def start_accept_incoming_def Let_def split: sum.splits prod.splits)
    then show "has_end n' \<and> (\<exists>labs. action_run env n labs n')"
    proof cases
      case (2 c)
      then show ?thesis using n(1) action_run_one [OF node_action.publishes] by (auto simp: has_end_def)
    next
      case (3 c)
      have "node_action env (n\<lparr>creation := c\<rparr>) Quiet ((n\<lparr>creation := c\<rparr>)\<lparr>connector := trigger_accept (connector n)\<rparr>)"
        using n(1) by (intro node_action.connects) (simp_all add: has_end_def the_end_def trigger_accept_def)
      from action_run.snoc [OF action_run_one [OF node_action.publishes] this] show ?thesis
        using n(1) 3 by (auto simp: has_end_def trigger_accept_def)
    qed (use n(1) action_run.start in blast)
  qed
qed

end
