(* ===== verification/Channel.thy ===== *)
theory Channel
  imports Handshake
begin

text \<open>
  Two nodes and the TCP connection between them: a connection of \<open>Connection\<close> at either end,
  and between them, in each direction, the stream of the bytes that one end has given to
  \<open>async_write\<close>. What TCP promises is that an end reads a prefix of what the other end wrote,
  cut in any places and at any time; nothing else is assumed of it, and failures may occur at
  either end. The theory shows that what one node requests of its connection is what the other
  node is called with.
\<close>

section \<open>The channel\<close>

text \<open>
  Beside the two ends: the bytes that each has read, and the operations that each has been asked
  for while it was connected; an end that is not connected ignores requests.
\<close>

record channel =
  end_a :: node_connection
  end_b :: node_connection
  taken_a :: msg_seq
  taken_b :: msg_seq
  asked_a :: "control_msg list"
  asked_b :: "control_msg list"

datatype channel_event = At_A conn_event | At_B conn_event

fun requests :: "conn_event \<Rightarrow> control_msg list" where
  "requests (Request msg) = [msg]" | "requests _ = []"

definition accepted :: "node_connection \<Rightarrow> conn_event \<Rightarrow> control_msg list" where
  "accepted c e = (if conn_state c = Connected then requests e else [])"

inductive channel_step :: "conn_env \<Rightarrow> conn_env \<Rightarrow> channel \<Rightarrow> channel_event \<Rightarrow> channel \<Rightarrow> bool" for ea eb where
  at_a: "\<lbrakk>conn_step ea (end_a ch) e c; prefix (taken_a ch @ bytes_read e) (concat (started_writes (end_b ch)))\<rbrakk>
   \<Longrightarrow> channel_step ea eb ch (At_A e)
     (ch\<lparr>end_a := c, taken_a := taken_a ch @ bytes_read e, asked_a := asked_a ch @ accepted (end_a ch) e\<rparr>)"
| at_b: "\<lbrakk>conn_step eb (end_b ch) e c; prefix (taken_b ch @ bytes_read e) (concat (started_writes (end_a ch)))\<rbrakk>
   \<Longrightarrow> channel_step ea eb ch (At_B e)
     (ch\<lparr>end_b := c, taken_b := taken_b ch @ bytes_read e, asked_b := asked_b ch @ accepted (end_b ch) e\<rparr>)"

inductive channel_run :: "conn_env \<Rightarrow> conn_env \<Rightarrow> channel \<Rightarrow> channel_event list \<Rightarrow> channel \<Rightarrow> bool" for ea eb where
  start: "channel_run ea eb ch [] ch"
| snoc: "\<lbrakk>channel_run ea eb ch es ch'; channel_step ea eb ch' e ch''\<rbrakk> \<Longrightarrow> channel_run ea eb ch (es @ [e]) ch''"

section \<open>Writing\<close>

text \<open>Everything that was handed to the connection for writing, in order.\<close>

definition given :: "node_connection \<Rightarrow> msg_seq list" where
  "given c = started_writes c @ map fst (tl (write_queue c))"

lemma given_write [simp]: "given (trigger_checked_write m cb c) = given c @ [m]"
  by (cases "write_queue c") (auto simp: given_def trigger_defs)

lemma given_update [simp]:
  "given (c\<lparr>pending_reads := rs\<rparr>) = given c" "given (c\<lparr>connected_msgs := q\<rparr>) = given c"
  "given (c\<lparr>handshake_msgs := q\<rparr>) = given c" "given (c\<lparr>conn_state := st\<rparr>) = given c"
  by (simp_all add: given_def)

lemma given_front [simp]:
  "given (async_write_front (c\<lparr>write_in_flight := b, write_queue := queue\<rparr>)) = started_writes c @ map fst queue"
  by (cases queue) (auto simp: given_def async_write_front_def)

text \<open>
  Whatever a handler does, it appends messages to the queue; only the completion of a write
  removes one. What has been handed to \<open>async_write\<close> is never taken back.
\<close>

definition queued :: "node_connection \<Rightarrow> node_connection \<Rightarrow> bool" where
  "queued c c' \<longleftrightarrow> (\<exists>new. write_queue c' = write_queue c @ new \<and> given c' = given c @ map fst new \<and>
     (write_in_flight c' \<longrightarrow> write_in_flight c \<or> new \<noteq> []))"

lemma queued_same:
  "\<lbrakk>write_queue c' = write_queue c; started_writes c' = started_writes c; write_in_flight c' \<longrightarrow> write_in_flight c\<rbrakk>
    \<Longrightarrow> queued c c'"
  by (simp add: queued_def given_def)

lemma queued_trans:
  assumes "queued a b" and "queued b c"
  shows "queued a c"
proof -
  obtain new new' where "write_queue b = write_queue a @ new" "given b = given a @ map fst new"
    "write_in_flight b \<longrightarrow> write_in_flight a \<or> new \<noteq> []" "write_queue c = write_queue b @ new'"
    "given c = given b @ map fst new'" "write_in_flight c \<longrightarrow> write_in_flight b \<or> new' \<noteq> []"
    using assms unfolding queued_def by blast
  then show ?thesis unfolding queued_def by (intro exI [of _ "new @ new'"]) auto
qed

lemma queued_write: "queued c (trigger_checked_write m cb c)"
  unfolding queued_def by (intro exI [of _ "[(m, cb)]"]) simp

lemma queued_generated: "queued c (fst (write_generated g cb c))"
  by (auto simp: write_generated_def queued_write queued_same split: sum.split)

lemma queued_state: "queued (c\<lparr>conn_state := st\<rparr>) c' \<Longrightarrow> queued c c'"
  by (simp add: queued_def)

lemma queued_parse_next:
  assumes "\<And>attr c. queued c (fst (k attr c))"
  shows "queued c (fst (parse_next l p k c))"
proof -
  obtain m c' where pop: "pop_message l c = (m, c')" by (cases "pop_message l c")
  then have "queued c c'"
    by (intro queued_same) (auto simp: pop_message_def split: lexer_id.splits prod.splits)
  then show ?thesis using queued_trans assms by (auto simp: parse_next_def pop split: option.split sum.split)
qed

lemma queued_reads:
  "queued c (trigger_checked_read cb c)" "queued c (trigger_read_on cb l c)" "queued c (report_failure c)"
  "queued c (make_transition_to_connected c)"
  by (rule queued_same; simp add: state_defs trigger_checked_read_def trigger_read_on_def)+

lemma queued_status: "queued c (fst (to_sending_status env (got_peer_name n c)))"
proof -
  obtain c1 e1 where 1: "send_status env (got_peer_name n c) = (c1, e1)" by (cases "send_status env (got_peer_name n c)")
  obtain c2 e2 where 2: "send_challenge env c1 = (c2, e2)" by (cases "send_challenge env c1")
  have "queued (got_peer_name n c) c1" "queued c1 c2"
    using queued_generated [of "got_peer_name n c"] queued_generated [of c1] 1 2
    unfolding send_status_def send_challenge_def by (metis fst_conv)+
  moreover have "queued c (got_peer_name n c)" by (rule queued_same) (simp_all add: got_peer_name_def)
  ultimately have "queued c c1" "queued c c2" using queued_trans by blast+
  then show ?thesis by (auto simp: to_sending_status_def 1 2 queued_def split: option.split)
qed

lemma queued_callback: "queued c (fst (read_done_callback env cb l c))"
proof -
  have challenge: "queued c (fst (challenge_read env l c))" for c
    unfolding challenge_read_def send_reply_def
    by (rule queued_parse_next, rule queued_state, rule queued_generated)
  have "queued c (fst (name_read env l c))"
    unfolding name_read_def by (rule queued_parse_next) (simp add: queued_status queued_reads)
  moreover have "queued c (fst (status_read env l c))"
    unfolding status_read_def
    by (rule queued_parse_next) (auto simp: receive_challenge_def queued_reads intro!: queued_state [OF challenge]
        queued_state [OF queued_reads(1)])
  moreover have "queued c (fst (reply_received env l c))"
    unfolding reply_received_def send_ack_def
    by (rule queued_parse_next) (auto simp: queued_reads intro!: queued_state [OF queued_generated])
  moreover have "queued c (fst (challenge_ack_read env l c))"
    unfolding challenge_ack_read_def by (rule queued_parse_next) (auto simp: queued_reads queued_same)
  moreover have "queued c (fst (msg_received env l c))"
  proof -
    obtain m c' where pop: "pop_message l c = (m, c')" by (cases "pop_message l c")
    then have c': "queued c c'"
      by (intro queued_same) (auto simp: pop_message_def split: lexer_id.splits prod.splits)
    moreover have "queued c' (trigger_checked_read Msg_received (send_tock c'))"
      using queued_trans [OF queued_write queued_reads(1)] by (simp add: send_tock_def)
    moreover have "queued c' (trigger_checked_read Msg_received (c'\<lparr>node_calls := calls\<rparr>))" for calls
      by (rule queued_same) (simp_all add: trigger_checked_read_def trigger_read_on_def)
    ultimately show ?thesis using queued_trans [OF c'] queued_reads(1)
      by (auto simp: msg_received_def pop split: option.split sum.split)
  qed
  ultimately show ?thesis using challenge by (cases cb) simp_all
qed

lemma queued_step: "conn_step env c e c' \<Longrightarrow> e \<noteq> Write_done \<Longrightarrow> queued c c'"
proof (induction rule: conn_step.induct)
  case (read_done c cb l rest data c' e)
  have same: "queued c c1" if "lexer_add env l data (c\<lparr>pending_reads := rest\<rparr>) = Some (Inr (b, c1))" for b c1
    using that by (intro queued_same) (auto elim: lexer_add_form)
  have "queued c (c\<lparr>pending_reads := rest\<rparr>)" by (rule queued_same) simp_all
  then show ?case
    using read_done.hyps(3) queued_trans [OF same queued_callback [of _ env cb l]] queued_trans [OF same queued_reads(2)]
    by (auto simp: checked_read_def split: option.splits sum.splits if_splits)
qed (auto simp: checked_read_def handle_io_error_def report_failure_def checked_write_def Let_def request_def
    queued_write intro!: queued_same split: list.splits if_splits)

lemma written_step:
  assumes "conn_step env c Write_done c'"
  shows "given c' = given c" and "write_queue c' = tl (write_queue c)" and "write_in_flight c' \<longleftrightarrow> write_queue c' \<noteq> []"
proof -
  have "given c' = given c \<and> write_queue c' = tl (write_queue c) \<and> (write_in_flight c' \<longleftrightarrow> write_queue c' \<noteq> [])"
  proof (cases "write_queue c")
    case Nil
    then show ?thesis using assms by (auto elim!: conn_step.cases simp: checked_write_def Let_def given_def)
  next
    case (Cons w queue)
    obtain m cb where w: "w = (m, cb)" by (cases w)
    let ?c = "async_write_front (c\<lparr>write_in_flight := False, write_queue := queue\<rparr>)"
    have "c' = write_done_callback cb ?c"
      using assms Cons w by (auto elim!: conn_step.cases simp: checked_write_def Let_def)
    moreover have "given (write_done_callback cb c) = given c" "write_queue (write_done_callback cb c) = write_queue c"
      "write_in_flight (write_done_callback cb c) = write_in_flight c" for c
      by (cases cb; simp add: given_def state_defs trigger_checked_read_def trigger_read_on_def)+
    moreover have "write_in_flight ?c \<longleftrightarrow> queue \<noteq> []" by (simp add: async_write_front_def split: list.split)
    ultimately show ?thesis using Cons by (simp add: given_def [of c])
  qed
  then show "given c' = given c" and "write_queue c' = tl (write_queue c)" and "write_in_flight c' \<longleftrightarrow> write_queue c' \<noteq> []"
    by simp_all
qed

lemma started_step:
  assumes "conn_step env c e c'"
  shows "prefix (started_writes c) (started_writes c')"
proof (cases "e = Write_done")
  case True
  then have "started_writes c' @ map fst (tl (tl (write_queue c))) = started_writes c @ map fst (tl (write_queue c))"
    using written_step [of env c c'] assms by (simp add: given_def)
  then show ?thesis by (cases "tl (write_queue c)") (auto simp: prefix_def)
next
  case False
  then obtain new where "write_queue c' = write_queue c @ new" "given c' = given c @ map fst new"
    using queued_step [OF assms] by (auto simp: queued_def)
  then show ?thesis by (cases "write_queue c"; cases new) (auto simp: given_def prefix_def)
qed

text \<open>
  The completions of an end that carry something, reads of at least a byte and writes: each of
  them is paid for by a byte or by a message.
\<close>

fun completes :: "conn_event \<Rightarrow> bool" where
  "completes (Read_done data) = (data \<noteq> [])" | "completes Write_done = True" | "completes _ = False"

lemma completions_bounded:
  assumes "conn_step env c e c'" and "write_in_flight c \<longrightarrow> write_queue c \<noteq> []"
    and "n + length (write_queue c) \<le> length received + length (given c)"
  shows "(if completes e then n + 1 else n) + length (write_queue c') \<le> length (received @ bytes_read e) + length (given c')"
    and "write_in_flight c' \<longrightarrow> write_queue c' \<noteq> []"
proof -
  have flight: "write_in_flight c" if "e = Write_done" using assms(1) that by (auto elim: conn_step.cases)
  show "write_in_flight c' \<longrightarrow> write_queue c' \<noteq> []"
    using queued_step [OF assms(1)] written_step(3) [of env c c'] assms(1,2)
    by (cases "e = Write_done") (auto simp: queued_def)
  show "(if completes e then n + 1 else n) + length (write_queue c') \<le> length (received @ bytes_read e) + length (given c')"
  proof (cases "e = Write_done")
    case True
    then show ?thesis using written_step(1,2) [of env c c'] assms flight by (cases "write_queue c") auto
  next
    case False
    then obtain new where "write_queue c' = write_queue c @ new" "given c' = given c @ map fst new"
      using queued_step [OF assms(1)] by (auto simp: queued_def)
    moreover have "(if completes e then 1 else 0) \<le> length (bytes_read e)"
      using False by (cases e) (simp_all add: Suc_le_eq)
    ultimately show ?thesis using assms(3) by (simp split: if_splits)
  qed
qed

section \<open>What a connected end says\<close>

text \<open>An item of the stream: a command, or the empty message that is a tick.\<close>

type_synonym item = "control_msg option"

fun wire_image :: "platform \<Rightarrow> item \<Rightarrow> msg_seq" where
  "wire_image pf None = replicate 4 0"
| "wire_image pf (Some cmd) = execute_connected pf cmd"

definition commands :: "item list \<Rightarrow> control_msg list" where
  "commands items = concat (map (case_option [] (\<lambda>cmd. [cmd])) items)"

definition ticks :: "item list \<Rightarrow> nat" where
  "ticks items = count_list items None"

lemma commands_simps [simp]:
  "commands [] = []" "commands (None # items) = commands items" "commands (Some cmd # items) = cmd # commands items"
  "commands (items @ items') = commands items @ commands items'" "commands (map Some cmds) = cmds"
  by (induction cmds) (simp_all add: commands_def)

lemma ticks_simps [simp]:
  "ticks [] = 0" "ticks (None # items) = Suc (ticks items)" "ticks (Some cmd # items) = ticks items"
  "ticks (items @ items') = ticks items + ticks items'" "ticks (map Some cmds) = 0"
  by (induction cmds) (simp_all add: ticks_def)

text \<open>A step of a connected end: the lexer only changes with a read, which hands over at most one message.\<close>

definition quiet_step :: "conn_env \<Rightarrow> node_connection \<Rightarrow> conn_event \<Rightarrow> node_connection \<Rightarrow> bool" where
  "quiet_step env c e c' \<longleftrightarrow> bytes_read e = [] \<and> connected_msgs c' = connected_msgs c \<and>
     node_calls c' = node_calls c \<and> given c' = given c @ map (wire_image (env_platform env)) (map Some (requests e))"

definition handed_over :: "conn_env \<Rightarrow> node_connection \<Rightarrow> msg_seq \<Rightarrow> node_connection \<Rightarrow> bool" where
  "handed_over env c m c' \<longleftrightarrow>
     (if is_tick m then given c' = given c @ [m] \<and> node_calls c' = node_calls c
      else given c' = given c \<and>
        node_calls c' = node_calls c @ (case dispatch (env_platform env) m of Inl _ \<Rightarrow> [] | Inr call \<Rightarrow> [call]))"

definition reading_step :: "conn_env \<Rightarrow> node_connection \<Rightarrow> conn_event \<Rightarrow> node_connection \<Rightarrow> bool" where
  "reading_step env c e c' \<longleftrightarrow> requests e = [] \<and> (\<exists>complete q.
     add (read_msg_size_connected (env_platform env)) (connected_msgs c) (bytes_read e) = Some (Inr (complete, q)) \<and>
     (case msgs q of
        [] \<Rightarrow> connected_msgs c' = q \<and> given c' = given c \<and> node_calls c' = node_calls c
      | m # ms \<Rightarrow> connected_msgs c' = q\<lparr>msgs := ms\<rparr> \<and> handed_over env c m c'))"

lemma msg_received_handed_over:
  assumes "msg_received env Connected_msgs c = (c', e)" and "msgs (connected_msgs c) = m # ms"
  shows "connected_msgs c' = connected_msgs c\<lparr>msgs := ms\<rparr>" and "handed_over env c m c'"
  using assms given_write [of "replicate 4 0" Ignore_write_notification "c\<lparr>connected_msgs := connected_msgs c\<lparr>msgs := ms\<rparr>\<rparr>"]
  by (auto simp: msg_received_def pop_message_def next_message_def send_tock_def is_tick_def handed_over_def given_def
      trigger_checked_read_def trigger_read_on_def split: sum.splits if_splits)


lemma talking_step:
  assumes sp: "spirit (env_platform env)" and "talking 1 c" and "conn_step env c e c'"
  shows "quiet_step env c e c' \<or> reading_step env c e c'"
  using assms(3,2)
proof (induction rule: conn_step.induct)
  case (read_done c cb l rest data c' e)
  have cb: "cb = Msg_received" "l = Connected_msgs" using read_done.hyps(1) read_done.prems by (auto simp: talking_def)
  let ?rms = "read_msg_size_connected (env_platform env)" and ?c = "c\<lparr>pending_reads := rest\<rparr>"
  obtain x where "add ?rms (connected_msgs c) data = Some x"
    using read_done.hyps(3) cb by (auto simp: checked_read_def lexer_add_def split: option.splits)
  then obtain complete q where q: "add ?rms (connected_msgs c) data = Some (Inr (complete, q))"
    using framing.add_never_asserts [OF spirit.connected_framing [OF sp], of "connected_msgs c" data]
    by (cases x) auto
  have r: "checked_read env cb l (Inr data) ?c =
      Some (if complete then msg_received env Connected_msgs (?c\<lparr>connected_msgs := q\<rparr>)
            else (trigger_read_on Msg_received Connected_msgs (?c\<lparr>connected_msgs := q\<rparr>), None))"
    using q cb by (simp add: checked_read_def lexer_add_def)
  have complete: "complete \<longleftrightarrow> msgs q \<noteq> []"
    using q(1) by (auto simp: framing.add_refines [OF spirit.connected_framing [OF sp]])
  have "reading_step env c (Read_done data) c'"
  proof (cases "msgs q")
    case Nil
    then show ?thesis using q r complete read_done.hyps(3)
      by (auto simp: reading_step_def trigger_read_on_def given_def)
  next
    case (Cons m ms)
    then have "msg_received env Connected_msgs (?c\<lparr>connected_msgs := q\<rparr>) = (c', e)"
      using r complete read_done.hyps(3) by simp
    from msg_received_handed_over [OF this] Cons show ?thesis using q(1)
      by (simp add: reading_step_def handed_over_def)
  qed
  then show ?case by blast
next
  case (read_failed c cb l rest err c' e)
  then show ?case
    by (auto simp: quiet_step_def checked_read_def handle_io_error_def talking_def given_def)
next
  case (write_done c c' e)
  then show ?case
    by (cases "write_queue c"; cases "tl (write_queue c)")
      (auto simp: quiet_step_def checked_write_def Let_def async_write_front_def given_def talking_def)
next
  case (write_failed c err c' e)
  then show ?case
    by (auto simp: quiet_step_def checked_write_def Let_def handle_io_error_def given_def talking_def split: list.splits)
next
  case (requested c msg)
  then show ?case by (simp add: quiet_step_def request_def talking_def)
qed

lemma msg_received_keeps:
  assumes "msg_received env Connected_msgs c = (c', e)"
  shows "current_lexer c' = current_lexer c \<and> signals c' = signals c \<and> peer_name c' = peer_name c \<and>
    handshake_msgs c' = handshake_msgs c"
  using assms by (auto simp: msg_received_def pop_message_def next_message_def send_tock_def trigger_defs
      split: option.splits list.splits sum.splits if_splits)

lemma talking_keeps:
  assumes "conn_step env c e c'" and "talking 1 c"
  shows "current_lexer c' = current_lexer c" and "signals c' = signals c" and "peer_name c' = peer_name c"
    and "handshake_msgs c' = handshake_msgs c"
proof -
  have "current_lexer c' = current_lexer c \<and> signals c' = signals c \<and> peer_name c' = peer_name c \<and>
    handshake_msgs c' = handshake_msgs c"
    using assms
  proof (induction rule: conn_step.induct)
    case (read_done c cb l rest data c' e)
    then show ?case
      by (auto simp: talking_def checked_read_def lexer_add_def trigger_read_on_def and_then_Inr_iff
          dest!: msg_received_keeps split: option.splits sum.splits if_splits)
  next
    case (write_done c c' e)
    then show ?case
      by (cases "write_queue c") (auto simp: talking_def checked_write_def Let_def async_write_front_def split: list.splits)
  qed (auto simp: talking_def checked_read_def handle_io_error_def checked_write_def request_def trigger_defs split: list.splits)
  then show "current_lexer c' = current_lexer c" and "signals c' = signals c" and "peer_name c' = peer_name c"
    and "handshake_msgs c' = handshake_msgs c" by simp_all
qed

lemma talking_stays: "conn_step env c e c' \<Longrightarrow> talking 1 c \<Longrightarrow> talking 1 c'"
  using step_one_at_a_time [of env c e c'] talking_keeps(1) [of env c e c']
  by (auto simp: one_at_a_time_def shaking_def talking_def)

section \<open>What a connected end hears\<close>

text \<open>A command can be sent if its pids and atoms fit their fields and its size the length field.\<close>

definition sendable :: "platform \<Rightarrow> control_msg \<Rightarrow> bool" where
  "sendable pf cmd \<longleftrightarrow> wf_command cmd \<and> length (command_body pf cmd) < 2 ^ 32 - 4"

text \<open>
  Of the items of the stream a first part has been handled, the next ones are complete and wait in
  the lexer, which also holds the bytes read of the one after them.
\<close>

definition hearing :: "platform \<Rightarrow> item list \<Rightarrow> msg_seq \<Rightarrow> item list \<Rightarrow> node_connection \<Rightarrow> bool" where
  "hearing pf stream received handled c \<longleftrightarrow> (\<exists>waiting.
     prefix (handled @ waiting) stream \<and>
     cut (read_msg_size_connected pf) received (map (wire_image pf) (handled @ waiting)) (incomplete (connected_msgs c)) \<and>
     msgs (connected_msgs c) = map (wire_image pf) waiting)"

lemma hearing_later:
  "hearing pf stream received handled c \<Longrightarrow> prefix stream stream' \<Longrightarrow> hearing pf stream' received handled c"
  unfolding hearing_def by (meson prefix_order.trans)

lemma wire_image_framed:
  assumes "spirit pf" and "\<forall>cmd\<in>set (commands items). sendable pf cmd"
  shows "cut (read_msg_size_connected pf) (concat (map (wire_image pf) items)) (map (wire_image pf) items) []"
proof -
  have "replicate 4 0 = [0, 0, 0, 0 :: byte]" by (simp add: numeral_eq_Suc)
  then have "read_msg_size_connected pf (replicate 4 0) = Some 4"
    using spirit.connected_size_Cons [OF assms(1), of 0 0 0 0 "[]"] by (simp add: be32_def)
  then have "read_msg_size_connected pf (wire_image pf i) = Some (length (wire_image pf i))" if "i \<in> set items" for i
    using assms(2) spirit.command_framed [OF assms(1)] that
    by (cases i) (force simp: commands_def sendable_def simp del: execute_connected.simps)+
  then show ?thesis
    using framing.cut_concat [OF spirit.connected_framing [OF assms(1)], of "map (wire_image pf) items" "[]"]
      framing.size_Nil [OF spirit.connected_framing [OF assms(1)]] by simp
qed

text \<open>The messages completed by further bytes are the next items of the stream.\<close>

context framing
begin

lemma cut_next:
  assumes "cut rms (concat all) all []" and "cut rms received ms1 r" and "cut rms (r @ data) ms2 r'"
    and "prefix (received @ data) (concat all)"
  shows "cut rms (received @ data) (ms1 @ ms2) r'" and "prefix (ms1 @ ms2) all"
proof -
  show c: "cut rms (received @ data) (ms1 @ ms2) r'" using assms(2,3) cut_append by blast
  obtain later where "concat all = (received @ data) @ later" using assms(4) by (auto simp: prefix_def)
  then obtain ms r'' ms' where "cut rms (received @ data) ms r''" "all = ms @ ms'"
    using assms(1) cut_append [of "received @ data" later] by auto
  then show "prefix (ms1 @ ms2) all" using cut_deterministic [OF c] by auto
qed

end

lemma prefix_map_split:
  assumes "prefix (map f xs @ ys) (map f zs)" and "prefix xs zs"
  obtains more where "ys = map f more" and "prefix (xs @ more) zs"
proof -
  obtain rest where zs: "zs = xs @ rest" using assms(2) by (auto simp: prefix_def)
  then have "prefix ys (map f rest)" using assms(1) by simp
  then have "ys = map f (take (length ys) rest)" by (metis append_eq_conv_conj prefix_def take_map)
  moreover have "prefix (xs @ take (length ys) rest) zs" using zs take_is_prefix by simp
  ultimately show thesis by (rule that)
qed

lemma hearing_step:
  assumes sp: "spirit (env_platform env)" and unsigned: "\<not> char_is_signed (env_platform env)"
    and stream: "\<forall>cmd\<in>set (commands stream). sendable (env_platform env) cmd"
    and step: "talking 1 c" "conn_step env c e c'"
    and hear: "hearing (env_platform env) stream received handled c"
    and data: "prefix (received @ bytes_read e) (concat (map (wire_image (env_platform env)) stream))"
  obtains more out where "hearing (env_platform env) stream (received @ bytes_read e) (handled @ more) c'"
    and "given c' = given c @ map (wire_image (env_platform env)) out" and "commands out = requests e" and "ticks out = ticks more"
    and "node_calls c' = node_calls c @ map call_of (commands more)"
proof -
  let ?pf = "env_platform env"
  let ?x = "wire_image ?pf" and ?rms = "read_msg_size_connected ?pf"
  obtain waiting where w: "prefix (handled @ waiting) stream"
    "cut ?rms received (map ?x (handled @ waiting)) (incomplete (connected_msgs c))"
    "msgs (connected_msgs c) = map ?x waiting"
    using hear by (auto simp: hearing_def)
  show thesis
    using talking_step [OF sp step]
  proof
    assume q: "quiet_step env c e c'"
    show thesis
      by (rule that [of "[]" "map Some (requests e)"]) (use q hear in \<open>simp_all add: quiet_step_def hearing_def\<close>)
  next
    assume "reading_step env c e c'"
    then obtain complete q where r: "requests e = []"
      "add ?rms (connected_msgs c) (bytes_read e) = Some (Inr (complete, q))"
      "case msgs q of
        [] \<Rightarrow> connected_msgs c' = q \<and> given c' = given c \<and> node_calls c' = node_calls c
      | m # ms \<Rightarrow> connected_msgs c' = q\<lparr>msgs := ms\<rparr> \<and> handed_over env c m c'"
      by (auto simp: reading_step_def)
    obtain ms r' where cut: "cut ?rms (incomplete (connected_msgs c) @ bytes_read e) ms r'"
      and "q = (connected_msgs c)\<lparr>incomplete := r', msgs := msgs (connected_msgs c) @ ms\<rparr>"
      using r(2) unfolding framing.add_refines [OF spirit.connected_framing [OF sp]] by auto
    then have q: "incomplete q = r'" "msgs q = map ?x waiting @ ms" using w(3) by simp_all
    note next_items = framing.cut_next [OF spirit.connected_framing [OF sp] wire_image_framed [OF sp stream] w(2) cut(1) data]
    obtain more where more: "ms = map ?x more" "prefix (handled @ waiting @ more) stream"
      using prefix_map_split [OF next_items(2) w(1)] by auto
    show thesis
    proof (cases "waiting @ more")
      case Nil
      then show thesis using that [of "[]" "[]"] r q next_items(1) more by (simp add: hearing_def)
    next
      case (Cons i items)
      then have "msgs q = ?x i # map ?x items" using q(2) more(1) by (metis list.simps(9) map_append)
      then have c': "connected_msgs c' = q\<lparr>msgs := map ?x items\<rparr>" "handed_over env c (?x i) c'" using r(3) by simp_all
      have "prefix (handled @ [i] @ items) stream" using more(2) Cons by simp
      moreover have "cut ?rms (received @ bytes_read e) (map ?x (handled @ [i] @ items)) r'"
        using next_items(1) more(1) Cons by (metis append.assoc append_Cons append_Nil map_append)
      ultimately have hear': "hearing ?pf stream (received @ bytes_read e) (handled @ [i]) c'"
        using c'(1) q(1) by (auto simp: hearing_def)
      show thesis
      proof (cases i)
        case None
        show thesis
          by (rule that [OF hear', of "[None]"]) (use c'(2) None r(1) in \<open>simp_all add: handed_over_def is_tick_def\<close>)
      next
        case (Some cmd)
        then have "Some cmd \<in> set stream" using more(2) Cons set_mono_prefix by fastforce
        then have "sendable ?pf cmd" using stream by (force simp: commands_def)
        then have "dispatch ?pf (?x i) = Inr (call_of cmd)"
          using spirit.dispatch_outcome [OF sp _ unsigned] Some by (simp add: sendable_def del: execute_connected.simps)
        then show thesis
          by (intro that [OF hear', of "[]"])
            (use c'(2) Some r(1) command_is_no_tick [OF sp] in \<open>simp_all add: handed_over_def del: execute_connected.simps\<close>)
      qed
    qed
  qed
qed

section \<open>A conversation\<close>

text \<open>
  An end of a conversation: it has been given its own items, one empty message for each tick that
  it has handled among them, and it hears the items that the other end has been given.
\<close>

definition conversing ::
  "conn_env \<Rightarrow> msg_seq list \<Rightarrow> access_call list \<Rightarrow> item list \<Rightarrow> msg_seq \<Rightarrow> item list \<Rightarrow> node_connection \<Rightarrow> bool" where
  "conversing env before calls theirs received ours c \<longleftrightarrow>
     talking 1 c \<and> given c = before @ map (wire_image (env_platform env)) ours \<and>
     (\<exists>handled. hearing (env_platform env) theirs received handled c \<and>
        node_calls c = calls @ map call_of (commands handled) \<and> ticks ours = ticks handled)"

lemma conversing_step:
  assumes sp: "spirit (env_platform env)" and unsigned: "\<not> char_is_signed (env_platform env)"
    and theirs: "\<forall>cmd\<in>set (commands theirs). sendable (env_platform env) cmd"
    and c: "conversing env before calls theirs received ours c" and step: "conn_step env c e c'"
    and data: "prefix (received @ bytes_read e) (concat (map (wire_image (env_platform env)) theirs))"
  obtains out where "commands out = requests e"
    and "conversing env before calls theirs (received @ bytes_read e) (ours @ out) c'"
proof -
  obtain handled where h: "hearing (env_platform env) theirs received handled c"
    "node_calls c = calls @ map call_of (commands handled)" "ticks ours = ticks handled" and t: "talking 1 c"
    using c by (auto simp: conversing_def)
  obtain more out where m: "hearing (env_platform env) theirs (received @ bytes_read e) (handled @ more) c'"
    "given c' = given c @ map (wire_image (env_platform env)) out" "commands out = requests e" "ticks out = ticks more"
    "node_calls c' = node_calls c @ map call_of (commands more)"
    using hearing_step [OF sp unsigned theirs t step h(1) data] by blast
  have "conversing env before calls theirs (received @ bytes_read e) (ours @ out) c'"
    using talking_stays [OF step t] c m h unfolding conversing_def
    by (intro conjI exI [of _ "handled @ more"]) simp_all
  with m(3) show thesis by (rule that)
qed

lemma conversing_later:
  "conversing env before calls theirs received ours c \<Longrightarrow> prefix theirs theirs' \<Longrightarrow>
    conversing env before calls theirs' received ours c"
  unfolding conversing_def by (meson hearing_later)

text \<open>What has been started begins what has been given.\<close>

lemma started_given: "prefix (concat (started_writes c)) (concat (given c))"
  by (simp add: given_def)

text \<open>An end that is connected but hears what is no stream of items: what it says is one all the same.\<close>

lemma talking_says:
  assumes "spirit (env_platform env)" and "talking 1 c" and "conn_step env c e c'"
  obtains out where "given c' = given c @ map (wire_image (env_platform env)) out" and "commands out = requests e"
proof -
  show thesis
    using talking_step [OF assms]
  proof
    assume "quiet_step env c e c'"
    then show thesis by (intro that [of "map Some (requests e)"]) (simp_all add: quiet_step_def)
  next
    assume r: "reading_step env c e c'"
    then obtain q where "case msgs q of
        [] \<Rightarrow> connected_msgs c' = q \<and> given c' = given c \<and> node_calls c' = node_calls c
      | m # ms \<Rightarrow> connected_msgs c' = q\<lparr>msgs := ms\<rparr> \<and> handed_over env c m c'"
      unfolding reading_step_def by blast
    then consider "given c' = given c" | "given c' = given c @ [replicate 4 0]"
      by (cases "msgs q") (auto simp: handed_over_def is_tick_def split: if_splits)
    then show thesis
    proof cases
      case 1
      then show thesis using r by (intro that [of "[]"]) (simp_all add: reading_step_def)
    next
      case 2
      then show thesis using r by (intro that [of "[None]"]) (simp_all add: reading_step_def)
    qed
  qed
qed

text \<open>
  What one end has requested is what the other end has called its node with, what waits there and
  what is still under way, in this order; nothing is under way once all bytes have arrived.
\<close>

definition in_order :: "platform \<Rightarrow> control_msg list \<Rightarrow> node_connection \<Rightarrow> msg_seq \<Rightarrow> access_call list \<Rightarrow> node_connection \<Rightarrow> bool" where
  "in_order pf requested sender underway calls receiver \<longleftrightarrow> (\<exists>handled waiting transit.
     requested = commands (handled @ waiting @ transit) \<and>
     node_calls receiver = calls @ map call_of (commands handled) \<and>
     msgs (connected_msgs receiver) = map (wire_image pf) waiting \<and>
     (underway = [] \<and> tl (write_queue sender) = [] \<longrightarrow> transit = []))"

lemma conversing_in_order:
  assumes sp: "spirit pf" "env_platform env = pf" and sendable: "\<forall>cmd\<in>set (commands theirs). sendable pf cmd"
    and c: "conversing env before calls theirs received ours c"
    and sender: "given sender = h @ map (wire_image pf) theirs" "concat (started_writes sender) = concat h @ received @ underway"
  shows "in_order pf (commands theirs) sender underway calls c"
proof -
  obtain handled waiting where h: "prefix (handled @ waiting) theirs"
    "cut (read_msg_size_connected pf) received (map (wire_image pf) (handled @ waiting)) (incomplete (connected_msgs c))"
    "msgs (connected_msgs c) = map (wire_image pf) waiting" "node_calls c = calls @ map call_of (commands handled)"
    using c sp(2) by (auto simp: conversing_def hearing_def)
  obtain transit where theirs: "theirs = handled @ waiting @ transit" using h(1) by (auto simp: prefix_def)
  have "transit = []" if "underway = []" "tl (write_queue sender) = []"
  proof -
    have "concat (map (wire_image pf) theirs) = received" using sender that by (simp add: given_def)
    then have "map (wire_image pf) theirs = map (wire_image pf) (handled @ waiting)"
      using cut_deterministic [OF h(2)] wire_image_framed [OF sp(1) sendable]
      by simp
    then show ?thesis unfolding theirs by simp
  qed
  then show ?thesis unfolding in_order_def using theirs h by blast
qed

end
