(* ===== verification/Session.thy ===== *)
theory Session
  imports Channel
begin

text \<open>
  A whole session of two honest nodes over TCP, from the accepted socket on: the handshake under
  every interleaving of the two nodes and every way in which the stream is cut into reads, and
  the commands exchanged after it.
\<close>

section \<open>The script\<close>

text \<open>The five messages of a handshake, as their senders generate and their receivers parse them.\<close>

record script =
  name_msg :: msg_seq
  status_msg :: msg_seq
  challenge_msg :: msg_seq
  reply_msg :: msg_seq
  ack_msg :: msg_seq

definition handshake_framed :: "platform \<Rightarrow> msg_seq \<Rightarrow> bool" where
  "handshake_framed pf m \<longleftrightarrow> m \<noteq> [] \<and> read_msg_size_handshake pf m = Some (length m)"

text \<open>Who the two nodes are: their names, the name under which the one knows the other, their challenges.\<close>

record parties =
  env_a :: conn_env
  env_b :: conn_env
  name_a :: string
  name_b :: string
  known_b :: string
  challenge_a :: u32
  challenge_b :: u32

definition scripted :: "parties \<Rightarrow> script \<Rightarrow> bool" where
  "scripted p sc \<longleftrightarrow>
     spirit (env_platform (env_a p)) \<and> env_platform (env_b p) = env_platform (env_a p) \<and>
     (\<forall>c. digest_of (env_b p) c = digest_of (env_a p) c) \<and>
     generate (send_name (env_platform (env_a p))) (name_a p) = Inr (name_msg sc) \<and>
     parse (name_msg sc) (send_name_p (env_platform (env_a p))) =
       Inr \<lparr>version0 = 5, version1 = 1284, sent_name = name_a p\<rparr> \<and>
     generate (receive_status_g (env_platform (env_a p))) ''ok'' = Inr (status_msg sc) \<and>
     parse (status_msg sc) (receive_status (env_platform (env_a p))) = Inr ''ok'' \<and>
     generate (send_challenge_g (env_platform (env_a p))) \<lparr>att_challenge = challenge_b p, att_node_name = name_b p\<rparr> =
       Inr (challenge_msg sc) \<and>
     parse (challenge_msg sc) (recv_challenge (env_platform (env_a p))) =
       Inr \<lparr>att_challenge = challenge_b p, att_node_name = name_b p\<rparr> \<and>
     generate (challenge_reply (env_platform (env_a p)))
       \<lparr>reply_challenge = challenge_a p, reply_digest = digest_of (env_a p) (challenge_b p)\<rparr> = Inr (reply_msg sc) \<and>
     parse (reply_msg sc) (challenge_reply_p (env_platform (env_a p))) =
       Inr \<lparr>reply_challenge = challenge_a p, reply_digest = digest_of (env_a p) (challenge_b p)\<rparr> \<and>
     generate (send_challenge_ack_g (env_platform (env_a p))) (digest_of (env_a p) (challenge_a p)) = Inr (ack_msg sc) \<and>
     parse (ack_msg sc) (recv_challenge_ack_p (env_platform (env_a p))) = Inr (digest_of (env_a p) (challenge_a p)) \<and>
     (\<forall>m\<in>{name_msg sc, status_msg sc, challenge_msg sc, reply_msg sc, ack_msg sc}. handshake_framed (env_platform (env_a p)) m)"

section \<open>Reading a handshake message in pieces\<close>

context framing
begin

lemma cut_unfinished:
  assumes "rms m = Some (length m)" and "strict_prefix s m"
  shows "cut rms s [] s"
proof (rule cut.short)
  obtain t where m: "m = s @ t" "t \<noteq> []" using assms(2) by (auto simp: strict_prefix_def prefix_def)
  show "rms s = None \<or> (\<exists>n. rms s = Some n \<and> length s < n)"
    using size_stable [of s _ t] assms(1) m by (cases "rms s") auto
qed

lemma add_unfinished:
  assumes "rms m = Some (length m)" and "strict_prefix (s @ data) m"
  shows "add rms \<lparr>incomplete = s, msgs = []\<rparr> data = Some (Inr (False, \<lparr>incomplete = s @ data, msgs = []\<rparr>))"
  using cut_unfinished [OF assms] add_refines [of "\<lparr>incomplete = s, msgs = []\<rparr>" data] by fastforce

lemma add_finished:
  assumes "rms m = Some (length m)" and "s @ data = m @ later" and "cut rms later ms r"
  shows "add rms \<lparr>incomplete = s, msgs = []\<rparr> data = Some (Inr (True, \<lparr>incomplete = r, msgs = m # ms\<rparr>))"
proof -
  have "cut rms (m @ later) (m # ms) r"
    using cut.message [of rms "m @ later" "length m" ms r] size_stable [OF assms(1)] assms(3) by simp
  then show ?thesis using add_refines [of "\<lparr>incomplete = s, msgs = []\<rparr>" data] assms(2) by fastforce
qed

end

text \<open>What arrives while a message is awaited: a part of it, or all of it and possibly more.\<close>

lemma part_or_whole:
  assumes "prefix s (m @ rest)"
  obtains "strict_prefix s m" | later where "s = m @ later" and "prefix later rest"
  using assms that(2) [of "[]"] by (cases "s = m") (auto simp: prefix_append strict_prefix_def)

lemma read_unfinished:
  assumes "spirit (env_platform env)" and "handshake_msgs c = \<lparr>incomplete = s, msgs = []\<rparr>"
    and "handshake_framed (env_platform env) m" and "strict_prefix (s @ data) m"
  shows "checked_read env cb Handshake_msgs (Inr data) c =
    Some (trigger_read_on cb Handshake_msgs (c\<lparr>handshake_msgs := \<lparr>incomplete = s @ data, msgs = []\<rparr>\<rparr>), None)"
  using framing.add_unfinished [OF spirit.handshake_framing [OF assms(1)] _ assms(4)] assms(2,3)
  by (simp add: checked_read_def lexer_add_def handshake_framed_def)

lemma read_finished:
  assumes "spirit (env_platform env)" and "handshake_msgs c = \<lparr>incomplete = s, msgs = []\<rparr>"
    and "handshake_framed (env_platform env) m" and "s @ data = m @ later"
    and "cut (read_msg_size_handshake (env_platform env)) later ms r"
  shows "checked_read env cb Handshake_msgs (Inr data) c =
    Some (read_done_callback env cb Handshake_msgs (c\<lparr>handshake_msgs := \<lparr>incomplete = r, msgs = m # ms\<rparr>\<rparr>))"
  using framing.add_finished [OF spirit.handshake_framing [OF assms(1)] _ assms(4,5)] assms(2,3)
  by (simp add: checked_read_def lexer_add_def handshake_framed_def)

lemma parse_first_message:
  assumes "handshake_msgs c = \<lparr>incomplete = r, msgs = m # ms\<rparr>" and "parse m p = Inr attr"
  shows "parse_next Handshake_msgs p k c = k attr (c\<lparr>handshake_msgs := \<lparr>incomplete = r, msgs = ms\<rparr>\<rparr>)"
  using assms by (simp add: parse_next_def pop_message_def next_message_def)

section \<open>The phases of a handshake\<close>

definition start_a :: "parties \<Rightarrow> node_connection" where
  "start_a p = fst (start_handshake_as_A (env_a p) (challenge_a p) (create_connection (Some (known_b p)) (name_a p)))"

definition start_b :: "parties \<Rightarrow> node_connection" where
  "start_b p = start_handshake_as_B (challenge_b p) (create_connection None (name_b p))"

text \<open>An end of a connection during the handshake.\<close>

definition shaking_end :: "string option \<Rightarrow> string \<Rightarrow> u32 \<Rightarrow> connection_state \<Rightarrow> msg_seq \<Rightarrow> msg_seq list \<Rightarrow>
    read_callback list \<Rightarrow> (msg_seq \<times> write_callback) list \<Rightarrow> msg_seq list \<Rightarrow> node_connection" where
  "shaking_end peer name challenge st part complete reads queue started =
     \<lparr>peer_name = peer, conn_name = name, conn_state = st, handshake_msgs = \<lparr>incomplete = part, msgs = complete\<rparr>,
      connected_msgs = new_lexer, current_lexer = Handshake_msgs, own_challenge = challenge,
      pending_reads = map (\<lambda>cb. (cb, Handshake_msgs)) reads, write_queue = queue, write_in_flight = (queue \<noteq> []),
      started_writes = started, signals = [], node_calls = []\<rparr>"

definition end_of_a :: "parties \<Rightarrow> connection_state \<Rightarrow> msg_seq \<Rightarrow> read_callback list \<Rightarrow>
    (msg_seq \<times> write_callback) list \<Rightarrow> msg_seq list \<Rightarrow> node_connection" where
  "end_of_a p st part = shaking_end (Some (known_b p)) (name_a p) (challenge_a p) st part []"

definition end_of_b :: "parties \<Rightarrow> string option \<Rightarrow> connection_state \<Rightarrow> msg_seq \<Rightarrow> read_callback list \<Rightarrow>
    (msg_seq \<times> write_callback) list \<Rightarrow> msg_seq list \<Rightarrow> node_connection" where
  "end_of_b p peer st part = shaking_end peer (name_b p) (challenge_b p) st part []"

text \<open>The connection in each phase, and the bytes it has read.\<close>

inductive a_shaking :: "parties \<Rightarrow> script \<Rightarrow> node_connection \<Rightarrow> msg_seq \<Rightarrow> bool" for p sc where
  naming: "a_shaking p sc
     (end_of_a p Connected_tcp [] [] [(name_msg sc, Handshake_sent)] [name_msg sc]) []"
| awaiting_status: "strict_prefix part (status_msg sc) \<Longrightarrow> a_shaking p sc
     (end_of_a p Waiting_for_status part [Status_read] [] [name_msg sc]) part"
| awaiting_challenge: "strict_prefix part (challenge_msg sc) \<Longrightarrow> a_shaking p sc
     (end_of_a p Receiving_challenge part [Challenge_read] [] [name_msg sc]) (status_msg sc @ part)"
| replying: "a_shaking p sc
     (end_of_a p Sending_challenge_reply [] [] [(reply_msg sc, Reply_sent)] [name_msg sc, reply_msg sc])
     (status_msg sc @ challenge_msg sc)"
| awaiting_ack: "strict_prefix part (ack_msg sc) \<Longrightarrow> a_shaking p sc
     (end_of_a p Receiving_challenge_ack part [Challenge_ack_read] [] [name_msg sc, reply_msg sc])
     (status_msg sc @ challenge_msg sc @ part)"

inductive b_shaking :: "parties \<Rightarrow> script \<Rightarrow> node_connection \<Rightarrow> msg_seq \<Rightarrow> bool" for p sc where
  awaiting_name: "strict_prefix part (name_msg sc) \<Longrightarrow> b_shaking p sc
     (end_of_b p None Connected_tcp part [Name_read] [] []) part"
| sending_status: "b_shaking p sc
     (end_of_b p (Some (name_a p)) Sending_status [] []
        [(status_msg sc, Ignore_write_notification), (challenge_msg sc, Challenge_written)] [status_msg sc])
     (name_msg sc)"
| sending_challenge: "b_shaking p sc
     (end_of_b p (Some (name_a p)) Sending_status [] [] [(challenge_msg sc, Challenge_written)]
        [status_msg sc, challenge_msg sc])
     (name_msg sc)"
| awaiting_reply: "strict_prefix part (reply_msg sc) \<Longrightarrow> b_shaking p sc
     (end_of_b p (Some (name_a p)) Waiting_for_challenge_reply part [Reply_received] []
        [status_msg sc, challenge_msg sc])
     (name_msg sc @ part)"
| acknowledging: "b_shaking p sc
     (end_of_b p (Some (name_a p)) Sending_challenge_ack [] [] [(ack_msg sc, Challenge_ack_written)]
        [status_msg sc, challenge_msg sc, ack_msg sc])
     (name_msg sc @ reply_msg sc)"

text \<open>A connection that has just become connected; its handshake lexer may hold bytes that came too early.\<close>

definition early_bytes :: "node_connection \<Rightarrow> msg_seq" where
  "early_bytes c = concat (msgs (handshake_msgs c)) @ incomplete (handshake_msgs c)"

definition just_connected :: "node_connection \<Rightarrow> string \<Rightarrow> msg_seq list \<Rightarrow> msg_seq \<Rightarrow> bool" where
  "just_connected c peer started early \<longleftrightarrow>
     talking 1 c \<and> pending_reads c = [(Msg_received, Connected_msgs)] \<and> signals c = [True] \<and> peer_name c = Some peer \<and>
     connected_msgs c = new_lexer \<and> node_calls c = [] \<and> write_queue c = [] \<and> \<not> write_in_flight c \<and> started_writes c = started \<and>
     early_bytes c = early"

text \<open>The steps of an end during the handshake.\<close>

lemmas end_defs = end_of_a_def end_of_b_def shaking_end_def

inductive_simps request_step: "conn_step env c (Request m) c'"
inductive_simps read_step: "conn_step env c (Read_done data) c'"
inductive_simps write_step: "conn_step env c Write_done c'"

lemma shaking_end_fields [simp]:
  "conn_state (shaking_end peer name ch st part ms reads queue started) = st"
  "pending_reads (shaking_end peer name ch st part ms reads queue started) = map (\<lambda>cb. (cb, Handshake_msgs)) reads"
  "handshake_msgs (shaking_end peer name ch st part ms reads queue started) = \<lparr>incomplete = part, msgs = ms\<rparr>"
  "write_queue (shaking_end peer name ch st part ms reads queue started) = queue"
  "started_writes (shaking_end peer name ch st part ms reads queue started) = started"
  "write_in_flight (shaking_end peer name ch st part ms reads queue started) = (queue \<noteq> [])"
  "signals (shaking_end peer name ch st part ms reads queue started) = []"
  "own_challenge (shaking_end peer name ch st part ms reads queue started) = ch"
  "conn_name (shaking_end peer name ch st part ms reads queue started) = name"
  by (simp_all add: shaking_end_def)

lemma shaking_end_update [simp]:
  "shaking_end peer name ch st part ms reads queue started\<lparr>handshake_msgs := \<lparr>incomplete = part', msgs = ms'\<rparr>\<rparr> =
     shaking_end peer name ch st part' ms' reads queue started"
  "shaking_end peer name ch st part ms reads queue started\<lparr>conn_state := st'\<rparr> =
     shaking_end peer name ch st' part ms reads queue started"
  "shaking_end peer name ch st part ms reads queue started\<lparr>peer_name := peer'\<rparr> =
     shaking_end peer' name ch st part ms reads queue started"
  "trigger_read_on cb Handshake_msgs (shaking_end peer name ch st part ms reads queue started) =
     shaking_end peer name ch st part ms (reads @ [cb]) queue started"
  "trigger_checked_read cb (shaking_end peer name ch st part ms reads queue started) =
     shaking_end peer name ch st part ms (reads @ [cb]) queue started"
  "trigger_checked_write m wcb (shaking_end peer name ch st part ms reads queue started) =
     shaking_end peer name ch st part ms reads (queue @ [(m, wcb)]) (if queue = [] then started @ [m] else started)"
  by (simp_all add: shaking_end_def trigger_defs)

lemma shaking_end_request:
  "st \<noteq> Connected \<Longrightarrow> conn_step env (shaking_end peer name ch st part ms reads queue started) (Request m) c' \<longleftrightarrow>
    c' = shaking_end peer name ch st part ms reads queue started"
  by (auto simp: request_step request_def)

lemma shaking_end_read:
  "conn_step env (shaking_end peer name ch st part ms reads queue started) (Read_done data) c' \<longleftrightarrow>
    (\<exists>cb rest e. reads = cb # rest \<and> length data \<le> 128 \<and>
       checked_read env cb Handshake_msgs (Inr data) (shaking_end peer name ch st part ms rest queue started) = Some (c', e))"
  by (auto simp: read_step shaking_end_def)

lemma shaking_end_written:
  "conn_step env (shaking_end peer name ch st part ms reads queue started) Write_done c' \<longleftrightarrow>
    (\<exists>m cb rest. queue = (m, cb) # rest \<and>
       c' = write_done_callback cb (shaking_end peer name ch st part ms reads rest (started @ map fst (take 1 rest))))"
  by (cases queue; cases "tl queue")
    (auto simp: write_step shaking_end_def checked_write_def Let_def async_write_front_def)

text \<open>A handshake without failures.\<close>

fun healthy :: "conn_event \<Rightarrow> bool" where
  "healthy (Read_failed _) = False" | "healthy (Write_failed _) = False" | "healthy _ = True"

lemma scriptedD:
  assumes "scripted p sc"
  shows "spirit (env_platform (env_a p))" and "env_platform (env_b p) = env_platform (env_a p)"
    and "digest_of (env_b p) c = digest_of (env_a p) c"
    and "generate (send_name (env_platform (env_a p))) (name_a p) = Inr (name_msg sc)"
    and "parse (name_msg sc) (send_name_p (env_platform (env_a p))) =
       Inr \<lparr>version0 = 5, version1 = 1284, sent_name = name_a p\<rparr>"
    and "generate (receive_status_g (env_platform (env_a p))) ''ok'' = Inr (status_msg sc)"
    and "parse (status_msg sc) (receive_status (env_platform (env_a p))) = Inr ''ok''"
    and "generate (send_challenge_g (env_platform (env_a p))) \<lparr>att_challenge = challenge_b p, att_node_name = name_b p\<rparr> =
       Inr (challenge_msg sc)"
    and "parse (challenge_msg sc) (recv_challenge (env_platform (env_a p))) =
       Inr \<lparr>att_challenge = challenge_b p, att_node_name = name_b p\<rparr>"
    and "generate (challenge_reply (env_platform (env_a p)))
       \<lparr>reply_challenge = challenge_a p, reply_digest = digest_of (env_a p) (challenge_b p)\<rparr> = Inr (reply_msg sc)"
    and "parse (reply_msg sc) (challenge_reply_p (env_platform (env_a p))) =
       Inr \<lparr>reply_challenge = challenge_a p, reply_digest = digest_of (env_a p) (challenge_b p)\<rparr>"
    and "generate (send_challenge_ack_g (env_platform (env_a p))) (digest_of (env_a p) (challenge_a p)) = Inr (ack_msg sc)"
    and "parse (ack_msg sc) (recv_challenge_ack_p (env_platform (env_a p))) = Inr (digest_of (env_a p) (challenge_a p))"
    and "\<And>m. m \<in> {name_msg sc, status_msg sc, challenge_msg sc, reply_msg sc, ack_msg sc} \<Longrightarrow>
       handshake_framed (env_platform (env_a p)) m"
  using assms by (auto simp: scripted_def)

text \<open>The reactions of A to the messages that it awaits.\<close>

lemma cut_nothing: "spirit pf \<Longrightarrow> cut (read_msg_size_handshake pf) [] [] []"
  using framing.cut_Nil [OF spirit.handshake_framing] .

lemma cut_part: "spirit pf \<Longrightarrow> handshake_framed pf m \<Longrightarrow> strict_prefix s m \<Longrightarrow> cut (read_msg_size_handshake pf) s [] s"
  unfolding handshake_framed_def using framing.cut_unfinished [OF spirit.handshake_framing] by blast

lemma cut_whole: "spirit pf \<Longrightarrow> handshake_framed pf m \<Longrightarrow> cut (read_msg_size_handshake pf) m [m] []"
  using cut_exact framing.size_Nil [OF spirit.handshake_framing] by (simp add: handshake_framed_def)

lemma a_reads_status:
  assumes "scripted p sc" and "strict_prefix part (status_msg sc)"
    and "prefix (part @ data) (status_msg sc @ challenge_msg sc)"
    and "checked_read (env_a p) Status_read Handshake_msgs (Inr data) (end_of_a p Waiting_for_status part [] [] [name_msg sc]) = Some (c', e)"
  shows "a_shaking p sc c' (part @ data)"
proof -
  note sc = scriptedD [OF assms(1)]
  let ?c = "end_of_a p Waiting_for_status part [] [] [name_msg sc]"
  have lex: "handshake_msgs ?c = \<lparr>incomplete = part, msgs = []\<rparr>" by (simp add: end_of_a_def)
  note react = status_read_def parse_first_message receive_challenge_def has_complete_def has_complete_msg_def
    challenge_read_def send_reply_def write_generated_def sc(7,9,10)
  from assms(3) show ?thesis
  proof (rule part_or_whole)
    assume "strict_prefix (part @ data) (status_msg sc)"
    with read_unfinished [OF sc(1) lex sc(14) this, of Status_read] assms(4) show ?thesis
      using a_shaking.awaiting_status [of "part @ data" sc p] by (simp add: end_of_a_def)
  next
    fix later assume later: "part @ data = status_msg sc @ later" "prefix later (challenge_msg sc)"
    note read = read_finished [OF sc(1) lex sc(14) later(1), of _ _ Status_read]
    show ?thesis
    proof (cases "later = challenge_msg sc")
      case True
      then have "cut (read_msg_size_handshake (env_platform (env_a p))) later [challenge_msg sc] []"
        using cut_whole [OF sc(1) sc(14), of "challenge_msg sc"] by simp
      then have "c' = end_of_a p Sending_challenge_reply [] [] [(reply_msg sc, Reply_sent)] [name_msg sc, reply_msg sc]"
        using read assms(4)
        by (simp add: end_of_a_def react)
      then show ?thesis using a_shaking.replying [of p sc] later(1) True by simp
    next
      case False
      then have part: "strict_prefix later (challenge_msg sc)" using later(2) by (simp add: strict_prefix_def)
      have "c' = end_of_a p Receiving_challenge later [Challenge_read] [] [name_msg sc]"
        using read [OF _ cut_part [OF sc(1) sc(14) part]] assms(4) by (simp add: end_of_a_def react)
      then show ?thesis using a_shaking.awaiting_challenge [OF part, of p] later(1) by simp
    qed
  qed
qed

lemma a_reads_challenge:
  assumes "scripted p sc" and "strict_prefix part (challenge_msg sc)" and "prefix (part @ data) (challenge_msg sc)"
    and "checked_read (env_a p) Challenge_read Handshake_msgs (Inr data)
      (end_of_a p Receiving_challenge part [] [] [name_msg sc]) = Some (c', e)"
  shows "a_shaking p sc c' (status_msg sc @ part @ data)"
proof -
  note sc = scriptedD [OF assms(1)]
  let ?c = "end_of_a p Receiving_challenge part [] [] [name_msg sc]"
  have lex: "handshake_msgs ?c = \<lparr>incomplete = part, msgs = []\<rparr>" by (simp add: end_of_a_def)
  show ?thesis
  proof (cases "part @ data = challenge_msg sc")
    case True
    then have "c' = end_of_a p Sending_challenge_reply [] [] [(reply_msg sc, Reply_sent)] [name_msg sc, reply_msg sc]"
      using read_finished [OF sc(1) lex sc(14) _ cut_nothing [OF sc(1)], of "challenge_msg sc" data Challenge_read] assms(4)
      by (simp add: end_of_a_def challenge_read_def parse_first_message send_reply_def write_generated_def sc(9,10))
    then show ?thesis using a_shaking.replying [of p sc] True by simp
  next
    case False
    then have part: "strict_prefix (part @ data) (challenge_msg sc)" using assms(3) by (simp add: strict_prefix_def)
    from read_unfinished [OF sc(1) lex sc(14) part, of Challenge_read] assms(4) show ?thesis
      using a_shaking.awaiting_challenge [OF part, of p] by (simp add: end_of_a_def)
  qed
qed

lemma transition_just_connected:
  "just_connected (make_transition_to_connected (shaking_end (Some peer) name ch st part ms [] [] started)) peer started
     (concat ms @ part)"
  by (simp add: just_connected_def early_bytes_def talking_def state_defs trigger_defs shaking_end_def)

lemma a_reads_ack:
  assumes "scripted p sc" and "strict_prefix part (ack_msg sc)" and "prefix (part @ data) (ack_msg sc @ rest)"
    and "checked_read (env_a p) Challenge_ack_read Handshake_msgs (Inr data)
      (end_of_a p Receiving_challenge_ack part [] [] [name_msg sc, reply_msg sc]) = Some (c', e)"
  shows "a_shaking p sc c' (status_msg sc @ challenge_msg sc @ part @ data) \<or>
    (\<exists>early. part @ data = ack_msg sc @ early \<and> just_connected c' (known_b p) [name_msg sc, reply_msg sc] early)"
proof -
  note sc = scriptedD [OF assms(1)]
  let ?c = "end_of_a p Receiving_challenge_ack part [] [] [name_msg sc, reply_msg sc]"
  have lex: "handshake_msgs ?c = \<lparr>incomplete = part, msgs = []\<rparr>" by (simp add: end_of_a_def)
  from assms(3) show ?thesis
  proof (rule part_or_whole)
    assume part: "strict_prefix (part @ data) (ack_msg sc)"
    from read_unfinished [OF sc(1) lex sc(14) part, of Challenge_ack_read] assms(4) show ?thesis
      using a_shaking.awaiting_ack [OF part, of p] by (simp add: end_of_a_def)
  next
    fix later assume later: "part @ data = ack_msg sc @ later"
    obtain ms r where cut: "cut (read_msg_size_handshake (env_platform (env_a p))) later ms r"
      using spirit.handshake_total [OF sc(1)] by blast
    have "c' = make_transition_to_connected (shaking_end (Some (known_b p)) (name_a p) (challenge_a p)
        Receiving_challenge_ack r ms [] [] [name_msg sc, reply_msg sc])"
      using read_finished [OF sc(1) lex sc(14) later cut, of Challenge_ack_read] assms(4) sc(13)
      by (auto simp: end_of_a_def challenge_ack_read_def parse_first_message shaking_end_def)
    then have "just_connected c' (known_b p) [name_msg sc, reply_msg sc] later"
      using transition_just_connected [of "known_b p" _ _ _ r ms] cut_conserves [OF cut] by metis
    with later show ?thesis by blast
  qed
qed

lemma a_shaking_step:
  assumes sc: "scripted p sc" and a: "a_shaking p sc c received" and step: "conn_step (env_a p) c e c'" and "healthy e"
    and stream: "prefix (received @ bytes_read e) (status_msg sc @ challenge_msg sc @ ack_msg sc @ rest)"
    and early: "started_writes c = [name_msg sc] \<Longrightarrow> prefix (received @ bytes_read e) (status_msg sc @ challenge_msg sc)"
  shows "a_shaking p sc c' (received @ bytes_read e) \<or>
    (\<exists>early. received @ bytes_read e = status_msg sc @ challenge_msg sc @ ack_msg sc @ early \<and>
       just_connected c' (known_b p) [name_msg sc, reply_msg sc] early)"
  using a
proof cases
  case naming
  show ?thesis
    by (cases e) (use step \<open>healthy e\<close> naming a a_shaking.awaiting_status [of "[]" sc p] scriptedD(14) [OF sc, of "status_msg sc"] in
      \<open>auto simp: end_of_a_def shaking_end_read shaking_end_written shaking_end_request to_waiting_for_status_def
        handshake_framed_def strict_prefix_def\<close>)
next
  case awaiting_status
  show ?thesis
  proof (cases e)
    case (Read_done data)
    then obtain err where "checked_read (env_a p) Status_read Handshake_msgs (Inr data)
        (end_of_a p Waiting_for_status received [] [] [name_msg sc]) = Some (c', err)"
      using step awaiting_status by (auto simp: end_of_a_def shaking_end_read)
    from a_reads_status [OF sc awaiting_status(2) _ this] show ?thesis
      using early awaiting_status Read_done by (simp add: end_of_a_def)
  qed (use step \<open>healthy e\<close> awaiting_status a in \<open>auto simp: end_of_a_def shaking_end_written shaking_end_request\<close>)
next
  case (awaiting_challenge part)
  show ?thesis
  proof (cases e)
    case (Read_done data)
    then obtain err where "checked_read (env_a p) Challenge_read Handshake_msgs (Inr data)
        (end_of_a p Receiving_challenge part [] [] [name_msg sc]) = Some (c', err)"
      using step awaiting_challenge by (auto simp: end_of_a_def shaking_end_read)
    from a_reads_challenge [OF sc awaiting_challenge(3) _ this] show ?thesis
      using early awaiting_challenge Read_done by (simp add: end_of_a_def)
  qed (use step \<open>healthy e\<close> awaiting_challenge a in \<open>auto simp: end_of_a_def shaking_end_written shaking_end_request\<close>)
next
  case replying
  show ?thesis
    by (cases e) (use step \<open>healthy e\<close> replying a a_shaking.awaiting_ack [of "[]" sc p] scriptedD(14) [OF sc, of "ack_msg sc"] in
      \<open>auto simp: end_of_a_def shaking_end_read shaking_end_written shaking_end_request to_receiving_challenge_ack_def
        handshake_framed_def strict_prefix_def\<close>)
next
  case (awaiting_ack part)
  show ?thesis
  proof (cases e)
    case (Read_done data)
    then obtain err where "checked_read (env_a p) Challenge_ack_read Handshake_msgs (Inr data)
        (end_of_a p Receiving_challenge_ack part [] [] [name_msg sc, reply_msg sc]) = Some (c', err)"
      using step awaiting_ack by (auto simp: end_of_a_def shaking_end_read)
    from a_reads_ack [OF sc awaiting_ack(3) _ this, of rest] show ?thesis
      using stream awaiting_ack Read_done by simp
  qed (use step \<open>healthy e\<close> awaiting_ack a in \<open>auto simp: end_of_a_def shaking_end_written shaking_end_request\<close>)
qed

text \<open>The reactions of B.\<close>

lemma b_reads_name:
  assumes "scripted p sc" and "strict_prefix part (name_msg sc)" and "prefix (part @ data) (name_msg sc)"
    and "checked_read (env_b p) Name_read Handshake_msgs (Inr data) (end_of_b p None Connected_tcp part [] [] []) = Some (c', e)"
  shows "b_shaking p sc c' (part @ data)"
proof -
  note sc = scriptedD [OF assms(1)]
  let ?c = "end_of_b p None Connected_tcp part [] [] []"
  have sp: "spirit (env_platform (env_b p))" and framed: "handshake_framed (env_platform (env_b p)) (name_msg sc)"
    using sc(1,2) sc(14) [of "name_msg sc"] by simp_all
  have lex: "handshake_msgs ?c = \<lparr>incomplete = part, msgs = []\<rparr>" by (simp add: end_of_b_def)
  show ?thesis
  proof (cases "part @ data = name_msg sc")
    case True
    then have "c' = end_of_b p (Some (name_a p)) Sending_status [] []
        [(status_msg sc, Ignore_write_notification), (challenge_msg sc, Challenge_written)] [status_msg sc]"
      using read_finished [OF sp lex framed _ cut_nothing [OF sp], of data Name_read] assms(4) sc(2,5,6,8)
      by (simp add: end_of_b_def name_read_def parse_first_message supported_def to_sending_status_def send_status_def
          send_challenge_def write_generated_def got_peer_name_def)
    then show ?thesis using b_shaking.sending_status [of p sc] True by simp
  next
    case False
    then have part: "strict_prefix (part @ data) (name_msg sc)" using assms(3) by (simp add: strict_prefix_def)
    from read_unfinished [OF sp lex framed part, of Name_read] assms(4) show ?thesis
      using b_shaking.awaiting_name [OF part, of p] by (simp add: end_of_b_def)
  qed
qed

lemma b_reads_reply:
  assumes "scripted p sc" and "strict_prefix part (reply_msg sc)" and "prefix (part @ data) (reply_msg sc)"
    and "checked_read (env_b p) Reply_received Handshake_msgs (Inr data)
      (end_of_b p (Some (name_a p)) Waiting_for_challenge_reply part [] [] [status_msg sc, challenge_msg sc]) = Some (c', e)"
  shows "b_shaking p sc c' (name_msg sc @ part @ data)"
proof -
  note sc = scriptedD [OF assms(1)]
  let ?c = "end_of_b p (Some (name_a p)) Waiting_for_challenge_reply part [] [] [status_msg sc, challenge_msg sc]"
  have sp: "spirit (env_platform (env_b p))" and framed: "handshake_framed (env_platform (env_b p)) (reply_msg sc)"
    using sc(1,2) sc(14) [of "reply_msg sc"] by simp_all
  have lex: "handshake_msgs ?c = \<lparr>incomplete = part, msgs = []\<rparr>" by (simp add: end_of_b_def)
  show ?thesis
  proof (cases "part @ data = reply_msg sc")
    case True
    then have "c' = end_of_b p (Some (name_a p)) Sending_challenge_ack [] [] [(ack_msg sc, Challenge_ack_written)]
        [status_msg sc, challenge_msg sc, ack_msg sc]"
      using read_finished [OF sp lex framed _ cut_nothing [OF sp], of data Reply_received] assms(4) sc(2,3,11,12)
      by (simp add: end_of_b_def reply_received_def parse_first_message send_ack_def write_generated_def)
    then show ?thesis using b_shaking.acknowledging [of p sc] True by simp
  next
    case False
    then have part: "strict_prefix (part @ data) (reply_msg sc)" using assms(3) by (simp add: strict_prefix_def)
    from read_unfinished [OF sp lex framed part, of Reply_received] assms(4) show ?thesis
      using b_shaking.awaiting_reply [OF part, of p] by (simp add: end_of_b_def)
  qed
qed

lemma b_shaking_step:
  assumes sc: "scripted p sc" and b: "b_shaking p sc c received" and step: "conn_step (env_b p) c e c'" and "healthy e"
    and naming: "started_writes c = [] \<Longrightarrow> prefix (received @ bytes_read e) (name_msg sc)"
    and replying: "started_writes c = [status_msg sc, challenge_msg sc] \<Longrightarrow>
      prefix (received @ bytes_read e) (name_msg sc @ reply_msg sc)"
  shows "b_shaking p sc c' (received @ bytes_read e) \<or>
    received @ bytes_read e = name_msg sc @ reply_msg sc \<and>
       just_connected c' (name_a p) [status_msg sc, challenge_msg sc, ack_msg sc] []"
  using b
proof cases
  case awaiting_name
  show ?thesis
  proof (cases e)
    case (Read_done data)
    then obtain err where "checked_read (env_b p) Name_read Handshake_msgs (Inr data)
        (end_of_b p None Connected_tcp received [] [] []) = Some (c', err)"
      using step awaiting_name by (auto simp: end_of_b_def shaking_end_read)
    from b_reads_name [OF sc awaiting_name(2) _ this] show ?thesis
      using naming awaiting_name Read_done by (simp add: end_of_b_def)
  qed (use step \<open>healthy e\<close> awaiting_name b in \<open>auto simp: end_of_b_def shaking_end_written shaking_end_request\<close>)
next
  case sending_status
  show ?thesis
    by (cases e) (use step \<open>healthy e\<close> sending_status b b_shaking.sending_challenge [of p sc] in
      \<open>auto simp: end_of_b_def shaking_end_read shaking_end_written shaking_end_request\<close>)
next
  case sending_challenge
  show ?thesis
    by (cases e) (use step \<open>healthy e\<close> sending_challenge b b_shaking.awaiting_reply [of "[]" sc p] scriptedD(14) [OF sc, of "reply_msg sc"] in
      \<open>auto simp: end_of_b_def shaking_end_read shaking_end_written shaking_end_request to_waiting_for_challenge_reply_def
        handshake_framed_def strict_prefix_def\<close>)
next
  case (awaiting_reply part)
  show ?thesis
  proof (cases e)
    case (Read_done data)
    then obtain err where "checked_read (env_b p) Reply_received Handshake_msgs (Inr data)
        (end_of_b p (Some (name_a p)) Waiting_for_challenge_reply part [] [] [status_msg sc, challenge_msg sc]) = Some (c', err)"
      using step awaiting_reply by (auto simp: end_of_b_def shaking_end_read)
    from b_reads_reply [OF sc awaiting_reply(3) _ this] show ?thesis
      using replying awaiting_reply Read_done by (simp add: end_of_b_def)
  qed (use step \<open>healthy e\<close> awaiting_reply b in \<open>auto simp: end_of_b_def shaking_end_written shaking_end_request\<close>)
next
  case acknowledging
  show ?thesis
    by (cases e) (use step \<open>healthy e\<close> acknowledging b transition_just_connected [of "name_a p" _ _ _ "[]" "[]"] in
      \<open>auto simp: end_of_b_def shaking_end_read shaking_end_written shaking_end_request\<close>)
qed

section \<open>The session\<close>

definition fresh_channel :: "parties \<Rightarrow> channel" where
  "fresh_channel p =
     \<lparr>end_a = start_a p, end_b = start_b p, taken_a = [], taken_b = [], asked_a = [], asked_b = []\<rparr>"

definition a_inv :: "parties \<Rightarrow> script \<Rightarrow> node_connection \<Rightarrow> msg_seq \<Rightarrow> item list \<Rightarrow> item list \<Rightarrow> bool" where
  "a_inv p sc c received ours theirs \<longleftrightarrow>
     a_shaking p sc c received \<and> ours = [] \<or>
     (\<exists>early heard. received = status_msg sc @ challenge_msg sc @ ack_msg sc @ early @ heard \<and>
        talking 1 c \<and> signals c = [True] \<and> peer_name c = Some (known_b p) \<and>
        given c = [name_msg sc, reply_msg sc] @ map (wire_image (env_platform (env_a p))) ours \<and>
        early_bytes c = early \<and>
        (early = [] \<longrightarrow> conversing (env_a p) [name_msg sc, reply_msg sc] [] theirs heard ours c))"

definition b_inv :: "parties \<Rightarrow> script \<Rightarrow> node_connection \<Rightarrow> msg_seq \<Rightarrow> item list \<Rightarrow> item list \<Rightarrow> bool" where
  "b_inv p sc c received ours theirs \<longleftrightarrow>
     b_shaking p sc c received \<and> ours = [] \<or>
     (\<exists>heard. received = name_msg sc @ reply_msg sc @ heard \<and>
        signals c = [True] \<and> peer_name c = Some (name_a p) \<and>
        prefix [status_msg sc, challenge_msg sc, ack_msg sc] (started_writes c) \<and>
        conversing (env_b p) [status_msg sc, challenge_msg sc, ack_msg sc] [] theirs heard ours c)"

definition session_inv :: "parties \<Rightarrow> script \<Rightarrow> channel \<Rightarrow> bool" where
  "session_inv p sc ch \<longleftrightarrow> (\<exists>by_a by_b.
     a_inv p sc (end_a ch) (taken_a ch) by_a by_b \<and> b_inv p sc (end_b ch) (taken_b ch) by_b by_a \<and>
     commands by_a = asked_a ch \<and> commands by_b = asked_b ch \<and>
     prefix (taken_a ch) (concat (started_writes (end_b ch))) \<and> prefix (taken_b ch) (concat (started_writes (end_a ch))))"

lemma end_fields [simp]:
  "started_writes (end_of_a p st part reads queue started) = started"
  "started_writes (end_of_b p peer st part reads queue started) = started"
  "conn_state (end_of_a p st part reads queue started) = st"
  "conn_state (end_of_b p peer st part reads queue started) = st"
  by (simp_all add: end_of_a_def end_of_b_def)

lemma script_not_empty:
  assumes "scripted p sc"
  shows "name_msg sc \<noteq> []" "status_msg sc \<noteq> []" "challenge_msg sc \<noteq> []" "reply_msg sc \<noteq> []" "ack_msg sc \<noteq> []"
  using scriptedD(14) [OF assms] by (simp_all add: handshake_framed_def)

text \<open>What each end has written, by its phase; the bytes read by the one bound the phase of the other.\<close>

lemma a_wrote:
  assumes "a_inv p sc c received ours theirs"
  shows "prefix (concat (started_writes c))
    (name_msg sc @ reply_msg sc @ concat (map (wire_image (env_platform (env_a p))) ours))"
proof (cases "a_shaking p sc c received")
  case True
  then show ?thesis by cases simp_all
next
  case False
  then have "given c = [name_msg sc, reply_msg sc] @ map (wire_image (env_platform (env_a p))) ours"
    using assms by (auto simp: a_inv_def)
  then show ?thesis using started_given [of c] by simp
qed

lemma b_wrote:
  assumes "b_inv p sc c received ours theirs"
  shows "prefix (concat (started_writes c))
    (status_msg sc @ challenge_msg sc @ ack_msg sc @ concat (map (wire_image (env_platform (env_b p))) ours))"
proof (cases "b_shaking p sc c received")
  case True
  then show ?thesis by cases simp_all
next
  case False
  then have "given c = [status_msg sc, challenge_msg sc, ack_msg sc] @ map (wire_image (env_platform (env_b p))) ours"
    using assms by (auto simp: b_inv_def conversing_def)
  then show ?thesis using started_given [of c] by simp
qed

lemma a_wrote_by_reads:
  assumes "scripted p sc" and "a_inv p sc c received ours theirs"
  shows "prefix received [] \<Longrightarrow> started_writes c = [name_msg sc]"
    and "prefix received (status_msg sc @ challenge_msg sc) \<Longrightarrow> prefix (concat (started_writes c)) (name_msg sc @ reply_msg sc)"
proof -
  have "a_shaking p sc c received" if "prefix received (status_msg sc @ challenge_msg sc)"
    using that assms(2) script_not_empty [OF assms(1)] by (auto simp: a_inv_def)
  then show "prefix received [] \<Longrightarrow> started_writes c = [name_msg sc]"
    and "prefix received (status_msg sc @ challenge_msg sc) \<Longrightarrow> prefix (concat (started_writes c)) (name_msg sc @ reply_msg sc)"
    using script_not_empty [OF assms(1)] by (auto elim!: a_shaking.cases)
qed

lemma b_wrote_by_reads:
  assumes "scripted p sc" and "b_inv p sc c received ours theirs" and "prefix received (name_msg sc)"
  shows "prefix (concat (started_writes c)) (status_msg sc @ challenge_msg sc)"
proof -
  have "b_shaking p sc c received"
    using assms(2,3) script_not_empty [OF assms(1)] by (auto simp: b_inv_def)
  then show ?thesis using script_not_empty [OF assms(1)] assms(3) by cases auto
qed

text \<open>A connection that has just become connected starts a conversation.\<close>

lemma just_connected_conversing:
  assumes "spirit (env_platform env)" and "just_connected c peer before early"
  shows "conversing env before [] theirs [] [] c"
  using assms(2) framing.cut_Nil [OF spirit.connected_framing [OF assms(1)]]
  by (auto simp: just_connected_def conversing_def hearing_def given_def new_lexer_def intro!: exI [of _ "[]"])

lemma shaking_not_connected:
  "a_shaking p sc c received \<Longrightarrow> conn_state c \<noteq> Connected" "b_shaking p sc c received \<Longrightarrow> conn_state c \<noteq> Connected"
  by (auto elim!: a_shaking.cases b_shaking.cases)

lemma talking_accepts: "talking 1 c \<Longrightarrow> accepted c e = requests e"
  by (simp add: accepted_def talking_def)

lemma a_inv_step:
  assumes sc: "scripted p sc" and unsigned: "\<not> char_is_signed (env_platform (env_a p))"
    and sendable: "\<forall>cmd\<in>set (commands theirs). sendable (env_platform (env_a p)) cmd"
    and a: "a_inv p sc c received ours theirs" and step: "conn_step (env_a p) c e c'" and "healthy e"
    and stream: "prefix (received @ bytes_read e) (status_msg sc @ challenge_msg sc @ ack_msg sc @
      concat (map (wire_image (env_platform (env_a p))) theirs))"
    and early: "started_writes c = [name_msg sc] \<Longrightarrow> prefix (received @ bytes_read e) (status_msg sc @ challenge_msg sc)"
  obtains out where "commands out = accepted c e" and "a_inv p sc c' (received @ bytes_read e) (ours @ out) theirs"
proof -
  note sp = scriptedD(1) [OF sc]
  consider "a_shaking p sc c received" "ours = []"
    | early heard where "received = status_msg sc @ challenge_msg sc @ ack_msg sc @ early @ heard"
      "talking 1 c" "signals c = [True]" "peer_name c = Some (known_b p)"
      "given c = [name_msg sc, reply_msg sc] @ map (wire_image (env_platform (env_a p))) ours"
      "early_bytes c = early"
      "early = [] \<longrightarrow> conversing (env_a p) [name_msg sc, reply_msg sc] [] theirs heard ours c"
    using a unfolding a_inv_def by blast
  then show thesis
  proof cases
    case 1
    then have none: "commands [] = accepted c e" using shaking_not_connected by (simp add: accepted_def)
    from a_shaking_step [OF sc 1(1) step \<open>healthy e\<close> stream early]
    consider "a_shaking p sc c' (received @ bytes_read e)"
      | early where "received @ bytes_read e = status_msg sc @ challenge_msg sc @ ack_msg sc @ early"
        "just_connected c' (known_b p) [name_msg sc, reply_msg sc] early" by blast
    then show thesis
    proof cases
      case 1
      then show thesis using that [OF none] \<open>ours = []\<close> by (simp add: a_inv_def)
    next
      case 2
      then have "a_inv p sc c' (received @ bytes_read e) [] theirs"
        using just_connected_conversing [OF sp 2(2)] by (auto simp: a_inv_def just_connected_def given_def)
      then show thesis using that [OF none] \<open>ours = []\<close> by simp
    qed
  next
    case (2 early heard)
    note keeps = talking_keeps [OF step 2(2)] talking_stays [OF step 2(2)] talking_accepts [OF 2(2)]
    have same: "early_bytes c' = early_bytes c" using keeps by (simp add: early_bytes_def)
    show thesis
    proof (cases "early = []")
      case True
      then obtain out where out: "commands out = requests e"
        "conversing (env_a p) [name_msg sc, reply_msg sc] [] theirs (heard @ bytes_read e) (ours @ out) c'"
        using conversing_step [OF sp unsigned sendable _ step, of "[name_msg sc, reply_msg sc]" "[]" heard ours] 2(1,7) stream
        by auto
      then have "a_inv p sc c' (received @ bytes_read e) (ours @ out) theirs"
        using 2 keeps True same conversing_def [of "env_a p"] by (simp add: a_inv_def)
      then show thesis using that out(1) keeps by simp
    next
      case False
      obtain out where "given c' = given c @ map (wire_image (env_platform (env_a p))) out" "commands out = requests e"
        using talking_says [OF sp 2(2) step] .
      moreover from this have "a_inv p sc c' (received @ bytes_read e) (ours @ out) theirs"
        using 2 keeps False same by (auto simp: a_inv_def)
      ultimately show thesis using that keeps by simp
    qed
  qed
qed

lemma b_inv_step:
  assumes sc: "scripted p sc" and unsigned: "\<not> char_is_signed (env_platform (env_a p))"
    and sendable: "\<forall>cmd\<in>set (commands theirs). sendable (env_platform (env_a p)) cmd"
    and b: "b_inv p sc c received ours theirs" and step: "conn_step (env_b p) c e c'" and "healthy e"
    and stream: "prefix (received @ bytes_read e) (name_msg sc @ reply_msg sc @
      concat (map (wire_image (env_platform (env_a p))) theirs))"
    and naming: "started_writes c = [] \<Longrightarrow> prefix (received @ bytes_read e) (name_msg sc)"
    and replying: "started_writes c = [status_msg sc, challenge_msg sc] \<Longrightarrow>
      prefix (received @ bytes_read e) (name_msg sc @ reply_msg sc)"
  obtains out where "commands out = accepted c e" and "b_inv p sc c' (received @ bytes_read e) (ours @ out) theirs"
proof -
  have env: "env_platform (env_b p) = env_platform (env_a p)" and sp: "spirit (env_platform (env_b p))"
    using scriptedD(1,2) [OF sc] by simp_all
  consider "b_shaking p sc c received" "ours = []"
    | heard where "received = name_msg sc @ reply_msg sc @ heard" "signals c = [True]" "peer_name c = Some (name_a p)"
      "prefix [status_msg sc, challenge_msg sc, ack_msg sc] (started_writes c)"
      "conversing (env_b p) [status_msg sc, challenge_msg sc, ack_msg sc] [] theirs heard ours c"
    using b unfolding b_inv_def by blast
  then show thesis
  proof cases
    case 1
    then have none: "commands [] = accepted c e" using shaking_not_connected by (simp add: accepted_def)
    from b_shaking_step [OF sc 1(1) step \<open>healthy e\<close> naming replying]
    have "b_inv p sc c' (received @ bytes_read e) [] theirs"
      using just_connected_conversing [OF sp, of c'] by (force simp: b_inv_def just_connected_def)
    then show thesis using that [OF none] 1(2) by simp
  next
    case (2 heard)
    then have t: "talking 1 c" by (simp add: conversing_def)
    obtain out where out: "commands out = requests e"
      "conversing (env_b p) [status_msg sc, challenge_msg sc, ack_msg sc] [] theirs (heard @ bytes_read e) (ours @ out) c'"
      using conversing_step [OF sp _ _ 2(5) step] unsigned sendable stream 2(1) env by auto
    then have "b_inv p sc c' (received @ bytes_read e) (ours @ out) theirs"
      using 2 talking_keeps [OF step t] prefix_order.trans [OF 2(4) started_step [OF step]] by (simp add: b_inv_def)
    then show thesis using that out(1) talking_accepts [OF t] by simp
  qed
qed

lemma inv_later:
  assumes "prefix theirs theirs'"
  shows "a_inv p sc c received ours theirs \<Longrightarrow> a_inv p sc c received ours theirs'"
    and "b_inv p sc c received ours theirs \<Longrightarrow> b_inv p sc c received ours theirs'"
  unfolding a_inv_def b_inv_def using conversing_later [OF _ assms] by blast+

fun healthy_event :: "channel_event \<Rightarrow> bool" where
  "healthy_event (At_A e) = healthy e" | "healthy_event (At_B e) = healthy e"

lemma session_step:
  assumes sc: "scripted p sc" and unsigned: "\<not> char_is_signed (env_platform (env_a p))"
    and sendable: "\<forall>cmd\<in>set (asked_a ch @ asked_b ch). sendable (env_platform (env_a p)) cmd"
    and inv: "session_inv p sc ch" and step: "channel_step (env_a p) (env_b p) ch e ch'" and healthy: "healthy_event e"
  shows "session_inv p sc ch'"
proof -
  obtain by_a by_b where a: "a_inv p sc (end_a ch) (taken_a ch) by_a by_b" and b: "b_inv p sc (end_b ch) (taken_b ch) by_b by_a"
    and asked: "commands by_a = asked_a ch" "commands by_b = asked_b ch"
    and read_a: "prefix (taken_a ch) (concat (started_writes (end_b ch)))"
    and read_b: "prefix (taken_b ch) (concat (started_writes (end_a ch)))"
    using inv by (auto simp: session_inv_def)
  note env = scriptedD(2) [OF sc]
  from step show ?thesis
  proof cases
    case (at_a e c)
    have "prefix (taken_b ch) (name_msg sc)" if "started_writes (end_a ch) = [name_msg sc]" using read_b that by simp
    then have "prefix (taken_a ch @ bytes_read e) (status_msg sc @ challenge_msg sc)"
      if "started_writes (end_a ch) = [name_msg sc]"
      using b_wrote_by_reads [OF sc b] at_a(4) that prefix_order.trans by blast
    moreover have "prefix (taken_a ch @ bytes_read e) (status_msg sc @ challenge_msg sc @ ack_msg sc @
        concat (map (wire_image (env_platform (env_a p))) by_b))"
      using prefix_order.trans [OF at_a(4) b_wrote [OF b]] env by simp
    ultimately obtain out where out: "commands out = accepted (end_a ch) e"
      "a_inv p sc c (taken_a ch @ bytes_read e) (by_a @ out) by_b"
      using a_inv_step [OF sc unsigned _ a at_a(3)] sendable asked healthy at_a(1) by auto
    have "prefix (taken_b ch) (concat (started_writes c))"
      using prefix_order.trans [OF read_b] started_step [OF at_a(3)] by (auto simp: prefix_def)
    then show ?thesis
      using at_a out inv_later(2) [OF prefixI b] asked unfolding session_inv_def
      by (intro exI [of _ "by_a @ out"] exI [of _ by_b]) simp
  next
    case (at_b e c)
    have "prefix (taken_b ch @ bytes_read e) (name_msg sc)" if "started_writes (end_b ch) = []"
      using at_b(4) a_wrote_by_reads(1) [OF sc a] read_a that by simp
    moreover have "prefix (taken_b ch @ bytes_read e) (name_msg sc @ reply_msg sc)"
      if "started_writes (end_b ch) = [status_msg sc, challenge_msg sc]"
      using prefix_order.trans [OF at_b(4) a_wrote_by_reads(2) [OF sc a]] read_a that by simp
    moreover have "prefix (taken_b ch @ bytes_read e) (name_msg sc @ reply_msg sc @
        concat (map (wire_image (env_platform (env_a p))) by_a))"
      using prefix_order.trans [OF at_b(4) a_wrote [OF a]] by simp
    ultimately obtain out where out: "commands out = accepted (end_b ch) e"
      "b_inv p sc c (taken_b ch @ bytes_read e) (by_b @ out) by_a"
      using b_inv_step [OF sc unsigned _ b at_b(3)] sendable asked healthy at_b(1) by auto
    have "prefix (taken_a ch) (concat (started_writes c))"
      using prefix_order.trans [OF read_a] started_step [OF at_b(3)] by (auto simp: prefix_def)
    then show ?thesis
      using at_b out inv_later(1) [OF prefixI a] asked unfolding session_inv_def
      by (intro exI [of _ by_a] exI [of _ "by_b @ out"]) simp
  qed
qed

lemma session_start:
  assumes "scripted p sc"
  shows "session_inv p sc (fresh_channel p)"
proof -
  have "start_a p = end_of_a p Connected_tcp [] [] [(name_msg sc, Handshake_sent)] [name_msg sc]"
    using scriptedD(4) [OF assms]
    by (simp add: start_a_def start_handshake_as_A_def Let_def create_connection_def initiate_handshake_def
        write_generated_def trigger_defs end_defs new_lexer_def)
  then have "a_inv p sc (start_a p) [] [] []" using a_shaking.naming [of p sc] by (simp add: a_inv_def)
  moreover have "start_b p = end_of_b p None Connected_tcp [] [Name_read] [] []"
    by (simp add: start_b_def start_handshake_as_B_def Let_def create_connection_def trigger_defs end_defs new_lexer_def)
  then have "b_inv p sc (start_b p) [] [] []"
    using b_shaking.awaiting_name [of "[]" sc p] script_not_empty [OF assms] by (simp add: b_inv_def strict_prefix_def)
  ultimately show ?thesis unfolding session_inv_def fresh_channel_def by fastforce
qed

lemma asked_grows:
  assumes "channel_step ea eb ch e ch'"
  shows "set (asked_a ch) \<subseteq> set (asked_a ch')" and "set (asked_b ch) \<subseteq> set (asked_b ch')"
  using assms by (auto elim: channel_step.cases)

lemma session_run:
  assumes "channel_run (env_a p) (env_b p) ch es ch'" and "scripted p sc" and "\<not> char_is_signed (env_platform (env_a p))"
    and "\<forall>cmd\<in>set (asked_a ch' @ asked_b ch'). sendable (env_platform (env_a p)) cmd"
    and "session_inv p sc ch" and "\<forall>e\<in>set es. healthy_event e"
  shows "session_inv p sc ch'"
  using assms
proof (induction rule: channel_run.induct)
  case (snoc ch es ch' e ch'')
  have "\<forall>cmd\<in>set (asked_a ch' @ asked_b ch'). sendable (env_platform (env_a p)) cmd"
    using snoc.prems(3) asked_grows [OF snoc.hyps(2)] by auto
  with snoc show ?case by (intro session_step [OF _ _ _ _ snoc.hyps(2)]) auto
qed simp

section \<open>Deliveries\<close>

definition underway :: "msg_seq \<Rightarrow> node_connection \<Rightarrow> msg_seq" where
  "underway taken sender = drop (length taken) (concat (started_writes sender))"

lemma underway_eq: "prefix taken (concat (started_writes sender)) \<Longrightarrow> concat (started_writes sender) = taken @ underway taken sender"
  by (auto simp: underway_def prefix_def)

lemma wire_image_not_empty: "spirit pf \<Longrightarrow> wire_image pf i \<noteq> []"
  by (cases i) (simp_all add: spirit.execute_connected_eq be32_bytes_def del: execute_connected.simps)

text \<open>An end in its handshake has been asked for nothing that the other could have handled.\<close>

lemma shaking_in_order:
  assumes sp: "spirit pf" and given: "given sender = before @ map (wire_image pf) items"
    and taken: "concat (started_writes sender) = taken @ rest" "length taken \<le> length (concat before)"
    and c: "node_calls c = []" "msgs (connected_msgs c) = []"
  shows "in_order pf (commands items) sender rest [] c"
proof -
  have "items = []" if "rest = []" "tl (write_queue sender) = []"
  proof -
    have "length (concat (given sender)) \<le> length (concat before)" using that taken by (simp add: given_def)
    then show ?thesis using given wire_image_not_empty [OF sp] by (cases items) auto
  qed
  then show ?thesis unfolding in_order_def using c by (intro exI [of _ "[]"] exI [of _ items]) auto
qed

lemma a_shaking_fields:
  "a_shaking p sc c received \<Longrightarrow> node_calls c = [] \<and> connected_msgs c = new_lexer \<and> conn_state c \<noteq> Connected \<and> signals c = [] \<and>
     length received \<le> length (status_msg sc @ challenge_msg sc @ ack_msg sc) \<and> length (given c) \<le> 2"
  by (auto elim!: a_shaking.cases simp: end_defs given_def dest: prefix_length_less)

lemma b_shaking_fields:
  "b_shaking p sc c received \<Longrightarrow> node_calls c = [] \<and> connected_msgs c = new_lexer \<and> conn_state c \<noteq> Connected \<and> signals c = [] \<and>
     length received \<le> length (name_msg sc @ reply_msg sc) \<and> length (given c) \<le> 3"
  by (auto elim!: b_shaking.cases simp: end_defs given_def dest: prefix_length_less)

lemma session_in_order:
  assumes sc: "scripted p sc" and inv: "session_inv p sc ch"
    and sendable: "\<forall>cmd\<in>set (asked_a ch @ asked_b ch). sendable (env_platform (env_a p)) cmd"
  shows "in_order (env_platform (env_a p)) (asked_a ch) (end_a ch) (underway (taken_b ch) (end_a ch)) [] (end_b ch)"
    and "early_bytes (end_a ch) = [] \<Longrightarrow> conn_state (end_a ch) = Connected \<Longrightarrow>
      in_order (env_platform (env_a p)) (asked_b ch) (end_b ch) (underway (taken_a ch) (end_b ch)) [] (end_a ch)"
proof -
  let ?pf = "env_platform (env_a p)"
  note sp = scriptedD(1) [OF sc] and env = scriptedD(2) [OF sc]
  obtain by_a by_b where a: "a_inv p sc (end_a ch) (taken_a ch) by_a by_b" and b: "b_inv p sc (end_b ch) (taken_b ch) by_b by_a"
    and asked: "commands by_a = asked_a ch" "commands by_b = asked_b ch"
    and read_a: "prefix (taken_a ch) (concat (started_writes (end_b ch)))"
    and read_b: "prefix (taken_b ch) (concat (started_writes (end_a ch)))"
    using inv by (auto simp: session_inv_def)
  have shaking: "in_order ?pf (asked_a ch) (end_a ch) (underway (taken_b ch) (end_a ch)) [] (end_b ch)"
    if "b_shaking p sc (end_b ch) (taken_b ch)"
  proof (cases "a_shaking p sc (end_a ch) (taken_a ch)")
    case True
    then have "by_a = []" using a shaking_not_connected(1) by (auto simp: a_inv_def talking_def)
    then show ?thesis using b_shaking_fields [OF that] asked(1)
      by (auto simp: in_order_def new_lexer_def intro!: exI [of _ "[]"])
  next
    case False
    then have "given (end_a ch) = [name_msg sc, reply_msg sc] @ map (wire_image ?pf) by_a" using a by (auto simp: a_inv_def)
    from shaking_in_order [OF sp this underway_eq [OF read_b]] show ?thesis
      using b_shaking_fields [OF that] asked(1) by (simp add: new_lexer_def)
  qed
  show "in_order ?pf (asked_a ch) (end_a ch) (underway (taken_b ch) (end_a ch)) [] (end_b ch)"
  proof (cases "b_shaking p sc (end_b ch) (taken_b ch)")
    case False
    then obtain heard where h: "taken_b ch = name_msg sc @ reply_msg sc @ heard"
      "conversing (env_b p) [status_msg sc, challenge_msg sc, ack_msg sc] [] by_a heard by_b (end_b ch)"
      using b by (auto simp: b_inv_def)
    show ?thesis
    proof (cases "a_shaking p sc (end_a ch) (taken_a ch)")
      case True
      then have "by_a = []" using a shaking_not_connected(1) by (auto simp: a_inv_def talking_def)
      with h(2) show ?thesis using asked(1) by (auto simp: in_order_def conversing_def hearing_def intro!: exI [of _ "[]"])
    next
      case False
      then have "given (end_a ch) = [name_msg sc, reply_msg sc] @ map (wire_image ?pf) by_a" using a by (auto simp: a_inv_def)
      from conversing_in_order [OF sp env _ h(2) this, of "underway (taken_b ch) (end_a ch)"] show ?thesis
        using asked(1) sendable underway_eq [OF read_b] h(1) by simp
    qed
  qed (rule shaking)
  assume early: "early_bytes (end_a ch) = []" and connected: "conn_state (end_a ch) = Connected"
  then obtain heard where h: "taken_a ch = status_msg sc @ challenge_msg sc @ ack_msg sc @ heard"
    "conversing (env_a p) [name_msg sc, reply_msg sc] [] by_b heard by_a (end_a ch)"
    using a shaking_not_connected(1) by (auto simp: a_inv_def)
  show "in_order ?pf (asked_b ch) (end_b ch) (underway (taken_a ch) (end_b ch)) [] (end_a ch)"
  proof (cases "b_shaking p sc (end_b ch) (taken_b ch)")
    case True
    then have "by_b = []" using b shaking_not_connected(2) by (auto simp: b_inv_def conversing_def talking_def)
    with h(2) show ?thesis using asked(2) by (auto simp: in_order_def conversing_def hearing_def intro!: exI [of _ "[]"])
  next
    case False
    then have "given (end_b ch) = [status_msg sc, challenge_msg sc, ack_msg sc] @ map (wire_image ?pf) by_b"
      using b env by (auto simp: b_inv_def conversing_def)
    from conversing_in_order [OF sp _ _ h(2) this, of "underway (taken_a ch) (end_b ch)"] show ?thesis
      using asked(2) sendable underway_eq [OF read_a] h(1) by simp
  qed
qed

section \<open>Completion\<close>

definition completed :: "parties \<Rightarrow> channel \<Rightarrow> bool" where
  "completed p ch \<longleftrightarrow>
     conn_state (end_a ch) = Connected \<and> signals (end_a ch) = [True] \<and> peer_name (end_a ch) = Some (known_b p) \<and>
     conn_state (end_b ch) = Connected \<and> signals (end_b ch) = [True] \<and> peer_name (end_b ch) = Some (name_a p)"

text \<open>An operation under way can complete: a write, or a read of the next byte.\<close>

definition can_complete :: "parties \<Rightarrow> channel \<Rightarrow> bool" where
  "can_complete p ch \<longleftrightarrow> (\<exists>e ch'. channel_step (env_a p) (env_b p) ch e ch' \<and>
     (e = At_A Write_done \<or> e = At_B Write_done \<or> (\<exists>b. e = At_A (Read_done [b]) \<or> e = At_B (Read_done [b]))))"

lemma shaking_write_enabled:
  "queue \<noteq> [] \<Longrightarrow> \<exists>c'. conn_step env (shaking_end peer name ch st part ms reads queue started) Write_done c'"
  by (cases queue) (auto simp: shaking_end_written)

lemma shaking_read_enabled:
  assumes "spirit (env_platform env)"
  shows "\<exists>c'. conn_step env (shaking_end peer name ch st part ms (cb # reads) queue started) (Read_done [b]) c'"
proof -
  let ?c = "shaking_end peer name ch st part ms reads queue started"
  obtain new r where "cut (read_msg_size_handshake (env_platform env)) (part @ [b]) new r"
    using spirit.handshake_total [OF assms] by blast
  then have "add (read_msg_size_handshake (env_platform env)) (handshake_msgs ?c) [b] =
      Some (Inr (ms @ new \<noteq> [], handshake_msgs ?c\<lparr>incomplete := r, msgs := ms @ new\<rparr>))"
    unfolding framing.add_refines [OF spirit.handshake_framing [OF assms]] by auto
  then have "checked_read env cb Handshake_msgs (Inr [b]) ?c \<noteq> None"
    by (simp add: checked_read_def lexer_add_def del: shaking_end_fields)
  then obtain x where "checked_read env cb Handshake_msgs (Inr [b]) ?c = Some x" by blast
  then show ?thesis by (cases x) (auto simp: shaking_end_read)
qed

lemma can_write:
  assumes "\<exists>c'. conn_step (env_a p) (end_a ch) Write_done c' \<or> conn_step (env_b p) (end_b ch) Write_done c'"
    and "prefix (taken_a ch) (concat (started_writes (end_b ch)))" and "prefix (taken_b ch) (concat (started_writes (end_a ch)))"
  shows "can_complete p ch"
  using assms channel_step.at_a [of "env_a p" ch Write_done] channel_step.at_b [of "env_b p" ch Write_done]
  unfolding can_complete_def by fastforce

lemma prefix_next: "prefix s t \<Longrightarrow> s \<noteq> t \<Longrightarrow> \<exists>b. prefix (s @ [b]) t"
  by (metis append_one_prefix prefix_length_le prefix_order.le_imp_less_or_eq prefix_length_less)

lemma can_read_a:
  assumes "\<And>b. \<exists>c'. conn_step (env_a p) (end_a ch) (Read_done [b]) c'"
    and "prefix (taken_a ch) (concat (started_writes (end_b ch)))" and "taken_a ch \<noteq> concat (started_writes (end_b ch))"
  shows "can_complete p ch"
proof -
  obtain b where b: "prefix (taken_a ch @ [b]) (concat (started_writes (end_b ch)))" using prefix_next assms(2,3) by blast
  obtain c' where "conn_step (env_a p) (end_a ch) (Read_done [b]) c'" using assms(1) by blast
  from channel_step.at_a [OF this, of "env_b p"] b show ?thesis unfolding can_complete_def by auto
qed

lemma can_read_b:
  assumes "\<And>b. \<exists>c'. conn_step (env_b p) (end_b ch) (Read_done [b]) c'"
    and "prefix (taken_b ch) (concat (started_writes (end_a ch)))" and "taken_b ch \<noteq> concat (started_writes (end_a ch))"
  shows "can_complete p ch"
proof -
  obtain b where b: "prefix (taken_b ch @ [b]) (concat (started_writes (end_a ch)))" using prefix_next assms(2,3) by blast
  obtain c' where "conn_step (env_b p) (end_b ch) (Read_done [b]) c'" using assms(1) by blast
  from channel_step.at_b [OF this, of "env_a p"] b show ?thesis unfolding can_complete_def by auto
qed

text \<open>A handshake is never stuck: while B is in its handshake, it writes, or A has written what it awaits, or A itself can go on.\<close>

lemma session_progress:
  assumes sc: "scripted p sc" and inv: "session_inv p sc ch" and "\<not> completed p ch"
  shows "can_complete p ch"
proof -
  obtain by_a by_b where a: "a_inv p sc (end_a ch) (taken_a ch) by_a by_b" and b: "b_inv p sc (end_b ch) (taken_b ch) by_b by_a"
    and read_a: "prefix (taken_a ch) (concat (started_writes (end_b ch)))"
    and read_b: "prefix (taken_b ch) (concat (started_writes (end_a ch)))"
    using inv by (auto simp: session_inv_def)
  have spa: "spirit (env_platform (env_a p))" and spb: "spirit (env_platform (env_b p))"
    using scriptedD(1,2) [OF sc] by simp_all
  note ne = script_not_empty [OF sc]
  note writing = can_write [OF _ read_a read_b]
  have b_goes_on: "can_complete p ch"
    if "b_shaking p sc (end_b ch) (taken_b ch)" and "prefix (name_msg sc) (concat (started_writes (end_a ch)))"
      and "started_writes (end_b ch) = [status_msg sc, challenge_msg sc] \<Longrightarrow>
        prefix (name_msg sc @ reply_msg sc) (concat (started_writes (end_a ch)))"
    using that(1)
  proof cases
    case awaiting_name
    then have "taken_b ch \<noteq> concat (started_writes (end_a ch))" using that(2) by auto
    then show ?thesis
      by (intro can_read_b [OF _ read_b]) (use awaiting_name shaking_read_enabled [OF spb] in \<open>simp_all add: end_of_b_def\<close>)
  next
    case sending_status
    then show ?thesis using writing shaking_write_enabled by (fastforce simp: end_of_b_def)
  next
    case sending_challenge
    then show ?thesis using writing shaking_write_enabled by (fastforce simp: end_of_b_def)
  next
    case (awaiting_reply part)
    then have "prefix (name_msg sc @ reply_msg sc) (concat (started_writes (end_a ch)))" using that(3) by simp
    then have "taken_b ch \<noteq> concat (started_writes (end_a ch))"
      using awaiting_reply(2,3) by (metis prefix_order.leD same_prefix_prefix)
    then show ?thesis
      by (intro can_read_b [OF _ read_b]) (use awaiting_reply shaking_read_enabled [OF spb] in \<open>simp_all add: end_of_b_def\<close>)
  next
    case acknowledging
    then show ?thesis using writing shaking_write_enabled by (fastforce simp: end_of_b_def)
  qed
  have awaiting: "can_complete p ch"
    if reads: "\<And>b. \<exists>c'. conn_step (env_a p) (end_a ch) (Read_done [b]) c'"
      and started: "started_writes (end_a ch) = [name_msg sc] \<and> length (taken_a ch) < length (status_msg sc @ challenge_msg sc) \<or>
        started_writes (end_a ch) = [name_msg sc, reply_msg sc] \<and>
          length (taken_a ch) < length (status_msg sc @ challenge_msg sc @ ack_msg sc)"
  proof (cases "taken_a ch = concat (started_writes (end_b ch))")
    case True
    have "b_shaking p sc (end_b ch) (taken_b ch)"
    proof (rule ccontr)
      assume "\<not> b_shaking p sc (end_b ch) (taken_b ch)"
      then have "prefix [status_msg sc, challenge_msg sc, ack_msg sc] (started_writes (end_b ch))"
        "\<exists>heard. taken_b ch = name_msg sc @ reply_msg sc @ heard" using b by (auto simp: b_inv_def)
      then show False using started True read_b ne by (auto simp: prefix_def)
    qed
    then show ?thesis by (rule b_goes_on) (use started True in auto)
  qed (rule can_read_a [OF reads read_a])
  show ?thesis
  proof (cases "a_shaking p sc (end_a ch) (taken_a ch)")
    case True
    then show ?thesis
    proof cases
      case naming
      then show ?thesis using writing shaking_write_enabled by (fastforce simp: end_of_a_def)
    next
      case replying
      then show ?thesis using writing shaking_write_enabled by (fastforce simp: end_of_a_def)
    qed (use awaiting shaking_read_enabled [OF spa] in \<open>auto simp: end_of_a_def dest: prefix_length_less\<close>)
  next
    case False
    then have "conn_state (end_a ch) = Connected \<and> signals (end_a ch) = [True] \<and> peer_name (end_a ch) = Some (known_b p)"
      and read: "prefix (status_msg sc @ challenge_msg sc @ ack_msg sc) (taken_a ch)"
      using a by (auto simp: a_inv_def talking_def)
    with \<open>\<not> completed p ch\<close> have "b_shaking p sc (end_b ch) (taken_b ch)"
      using b by (auto simp: b_inv_def completed_def conversing_def talking_def)
    moreover have "length (status_msg sc @ challenge_msg sc @ ack_msg sc) \<le> length (concat (started_writes (end_b ch)))"
      using prefix_length_le [OF prefix_order.trans [OF read read_a]] .
    ultimately show ?thesis using ne
      by cases (use writing shaking_write_enabled in \<open>fastforce simp: end_of_b_def\<close>)+
  qed
qed

text \<open>The number of completions in a run: each is paid for by a byte or a message, and a handshake has few of them.\<close>

fun at_a :: "channel_event \<Rightarrow> conn_event list" where
  "at_a (At_A e) = [e]" | "at_a (At_B e) = []"

fun at_b :: "channel_event \<Rightarrow> conn_event list" where
  "at_b (At_B e) = [e]" | "at_b (At_A e) = []"

definition completions :: "conn_event list \<Rightarrow> nat" where
  "completions es = length (filter completes es)"

lemma completions_simps [simp]:
  "completions [] = 0" "completions (es @ es') = completions es + completions es'"
  "completions [e] = (if completes e then 1 else 0)"
  by (simp_all add: completions_def)

definition paid :: "conn_event list \<Rightarrow> msg_seq \<Rightarrow> node_connection \<Rightarrow> bool" where
  "paid es taken c \<longleftrightarrow> (write_in_flight c \<longrightarrow> write_queue c \<noteq> []) \<and>
     completions es + length (write_queue c) \<le> length taken + length (given c)"

lemma paid_step:
  assumes "conn_step env c e c'" and "paid es taken c"
  shows "paid (es @ [e]) (taken @ bytes_read e) c'"
  using completions_bounded [OF assms(1), of "completions es" taken] assms(2) by (simp add: paid_def split: if_splits)

lemma run_paid:
  assumes "channel_run ea eb ch es ch'" and "paid [] (taken_a ch) (end_a ch)" and "paid [] (taken_b ch) (end_b ch)"
  shows "paid (concat (map at_a es)) (taken_a ch') (end_a ch') \<and> paid (concat (map at_b es)) (taken_b ch') (end_b ch')"
  using assms
proof (induction rule: channel_run.induct)
  case (snoc ch es ch' e ch'')
  from snoc.hyps(2) snoc.IH [OF snoc.prems] show ?case
    by cases (auto dest: paid_step)
qed simp

text \<open>An end that has heard nothing has sent no tick, so that it was given what it was asked for.\<close>

lemma conversing_silent:
  assumes "conversing env before calls theirs received ours c" and "theirs = []"
  shows "length (given c) = length before + length (commands ours)"
proof -
  have "length items = length (commands items)" if "ticks items = 0" for items
    using that by (induction items) (auto simp: ticks_def commands_def split: if_splits option.splits)
  then show ?thesis using assms by (auto simp: conversing_def hearing_def)
qed

lemma session_work:
  assumes sc: "scripted p sc" and inv: "session_inv p sc ch" and "\<not> completed p ch"
  shows "length (taken_a ch) + length (given (end_a ch)) + (length (taken_b ch) + length (given (end_b ch))) \<le>
    length (concat [name_msg sc, status_msg sc, challenge_msg sc, reply_msg sc, ack_msg sc]) + 5 +
    length (asked_a ch) + length (asked_b ch)"
proof -
  obtain by_a by_b where a: "a_inv p sc (end_a ch) (taken_a ch) by_a by_b" and b: "b_inv p sc (end_b ch) (taken_b ch) by_b by_a"
    and asked: "commands by_a = asked_a ch" "commands by_b = asked_b ch"
    and read_a: "prefix (taken_a ch) (concat (started_writes (end_b ch)))"
    and read_b: "prefix (taken_b ch) (concat (started_writes (end_a ch)))"
    using inv by (auto simp: session_inv_def)
  have a_part: "length (taken_a ch) + length (given (end_a ch)) \<le>
      length (status_msg sc @ challenge_msg sc @ ack_msg sc) + 2 + length (asked_a ch)"
    if "a_shaking p sc (end_a ch) (taken_a ch) \<or> by_b = []"
  proof (cases "a_shaking p sc (end_a ch) (taken_a ch)")
    case True
    then show ?thesis using a_shaking_fields by fastforce
  next
    case False
    then have none: "by_b = []" using that by blast
    obtain early heard where h: "taken_a ch = status_msg sc @ challenge_msg sc @ ack_msg sc @ early @ heard"
      "early = [] \<longrightarrow> conversing (env_a p) [name_msg sc, reply_msg sc] [] by_b heard by_a (end_a ch)"
      using a False unfolding a_inv_def by blast
    have "prefix (taken_a ch) (status_msg sc @ challenge_msg sc @ ack_msg sc)"
      using prefix_order.trans [OF read_a b_wrote [OF b]] none by simp
    then have "early @ heard = []" using h(1) by simp
    then show ?thesis using h conversing_silent [OF _ none] asked(1) by auto
  qed
  have b_part: "length (taken_b ch) + length (given (end_b ch)) \<le>
      length (name_msg sc @ reply_msg sc) + 3 + length (asked_b ch)"
    if "b_shaking p sc (end_b ch) (taken_b ch) \<or> by_a = []"
  proof (cases "b_shaking p sc (end_b ch) (taken_b ch)")
    case True
    then show ?thesis using b_shaking_fields by fastforce
  next
    case False
    then have none: "by_a = []" using that by blast
    obtain heard where h: "taken_b ch = name_msg sc @ reply_msg sc @ heard"
      "conversing (env_b p) [status_msg sc, challenge_msg sc, ack_msg sc] [] by_a heard by_b (end_b ch)"
      using b False unfolding b_inv_def by blast
    have "prefix (taken_b ch) (name_msg sc @ reply_msg sc)"
      using prefix_order.trans [OF read_b a_wrote [OF a]] none by simp
    then have "heard = []" using h(1) by simp
    then show ?thesis using h conversing_silent [OF h(2) none] asked(2) by auto
  qed
  have "a_shaking p sc (end_a ch) (taken_a ch) \<or> b_shaking p sc (end_b ch) (taken_b ch)"
    using a b \<open>\<not> completed p ch\<close> by (auto simp: a_inv_def b_inv_def completed_def conversing_def talking_def)
  moreover have "by_a = []" if "a_shaking p sc (end_a ch) (taken_a ch)"
    using a that shaking_not_connected(1) by (auto simp: a_inv_def talking_def)
  moreover have "by_b = []" if "b_shaking p sc (end_b ch) (taken_b ch)"
    using b that shaking_not_connected(2) by (auto simp: b_inv_def conversing_def talking_def)
  ultimately show ?thesis using a_part b_part by auto
qed

section \<open>Honest parties\<close>

definition honest_parties :: "parties \<Rightarrow> bool" where
  "honest_parties p \<longleftrightarrow>
     spirit (env_platform (env_a p)) \<and> \<not> char_is_signed (env_platform (env_a p)) \<and>
     env_platform (env_b p) = env_platform (env_a p) \<and> env_cookie (env_b p) = env_cookie (env_a p) \<and>
     length (env_garbage (env_a p)) = 64 \<and> length (env_garbage (env_b p)) = 64 \<and>
     name_a p \<noteq> [] \<and> length (name_a p) + 7 < 2 ^ 16 \<and> name_b p \<noteq> [] \<and> length (name_b p) + 11 < 2 ^ 16"

lemma script_exists:
  assumes "honest_parties p"
  obtains sc where "scripted p sc"
    and "length (concat [name_msg sc, status_msg sc, challenge_msg sc, reply_msg sc, ack_msg sc]) =
      length (name_a p) + length (name_b p) + 69"
proof -
  let ?pf = "env_platform (env_a p)"
  have h: "spirit ?pf" "env_platform (env_b p) = ?pf" "env_cookie (env_b p) = env_cookie (env_a p)"
    "length (env_garbage (env_a p)) = 64" "length (env_garbage (env_b p)) = 64"
    "name_a p \<noteq> []" "length (name_a p) + 7 < 2 ^ 16" "name_b p \<noteq> []" "length (name_b p) + 11 < 2 ^ 16"
    using assms by (simp_all add: honest_parties_def)
  obtain m1 where 1: "generate (send_name ?pf) (name_a p) = Inr m1"
    "parse m1 (send_name_p ?pf) = Inr \<lparr>version0 = 5, version1 = 1284, sent_name = name_a p\<rparr>"
    "read_msg_size_handshake ?pf m1 = Some (length m1)"
    using spirit.name_roundtrip [OF h(1,6,7)] by blast
  obtain m2 where 2: "generate (receive_status_g ?pf) ''ok'' = Inr m2" "parse m2 (receive_status ?pf) = Inr ''ok''"
    "read_msg_size_handshake ?pf m2 = Some (length m2)"
    using spirit.status_roundtrip [OF h(1), of "''ok''"] by auto
  obtain m3 where 3: "generate (send_challenge_g ?pf) \<lparr>att_challenge = challenge_b p, att_node_name = name_b p\<rparr> = Inr m3"
    "parse m3 (recv_challenge ?pf) = Inr \<lparr>att_challenge = challenge_b p, att_node_name = name_b p\<rparr>"
    "read_msg_size_handshake ?pf m3 = Some (length m3)"
    using spirit.challenge_roundtrip [OF h(1), of "\<lparr>att_challenge = challenge_b p, att_node_name = name_b p\<rparr>"] h(8,9) by auto
  obtain m4 where 4: "generate (challenge_reply ?pf)
      \<lparr>reply_challenge = challenge_a p, reply_digest = digest_of (env_a p) (challenge_b p)\<rparr> = Inr m4"
    "parse m4 (challenge_reply_p ?pf) = Inr \<lparr>reply_challenge = challenge_a p, reply_digest = digest_of (env_a p) (challenge_b p)\<rparr>"
    "read_msg_size_handshake ?pf m4 = Some (length m4)"
    using spirit.reply_roundtrip [OF h(1), of "\<lparr>reply_challenge = challenge_a p, reply_digest = digest_of (env_a p) (challenge_b p)\<rparr>"]
    by auto
  obtain m5 where 5: "generate (send_challenge_ack_g ?pf) (digest_of (env_a p) (challenge_a p)) = Inr m5"
    "parse m5 (recv_challenge_ack_p ?pf) = Inr (digest_of (env_a p) (challenge_a p))"
    "read_msg_size_handshake ?pf m5 = Some (length m5)"
    using spirit.ack_roundtrip [OF h(1), of "digest_of (env_a p) (challenge_a p)"] by auto
  have len: "length m1 = length (name_a p) + 9" "length m2 = 5" "length m3 = length (name_b p) + 13" "length m4 = 23" "length m5 = 19"
    using spirit.handshake_lengths(1) [OF h(1) 1(1)] spirit.handshake_lengths(2) [OF h(1) 2(1)]
      spirit.handshake_lengths(3) [OF h(1) 3(1)] spirit.handshake_lengths(4) [OF h(1) 4(1)]
      spirit.handshake_lengths(5) [OF h(1) 5(1)] by simp_all
  have "digest_of (env_b p) c = digest_of (env_a p) c" for c by (rule digest_environment) (simp_all add: h)
  then have "scripted p \<lparr>name_msg = m1, status_msg = m2, challenge_msg = m3, reply_msg = m4, ack_msg = m5\<rparr>"
    using 1 2 3 4 5 len h(1,2) by (auto simp: scripted_def handshake_framed_def)
  then show thesis by (rule that) (simp add: len)
qed

lemma start_paid: "scripted p sc \<Longrightarrow> paid [] [] (start_a p) \<and> paid [] [] (start_b p)"
  using scriptedD(4) [of p sc]
  by (simp add: paid_def start_a_def start_b_def start_handshake_as_A_def start_handshake_as_B_def Let_def create_connection_def
      initiate_handshake_def write_generated_def trigger_defs given_def)

lemma session_complete:
  assumes "honest_parties p" and "channel_run (env_a p) (env_b p) (fresh_channel p) es ch" and "\<forall>e\<in>set es. healthy_event e"
    and "\<forall>cmd\<in>set (asked_a ch @ asked_b ch). sendable (env_platform (env_a p)) cmd" and "\<not> completed p ch"
  shows "can_complete p ch" and "completions (concat (map at_a es)) + completions (concat (map at_b es)) \<le>
      length (name_a p) + length (name_b p) + 74 + length (asked_a ch) + length (asked_b ch)"
proof -
  obtain sc where sc: "scripted p sc"
    and len: "length (concat [name_msg sc, status_msg sc, challenge_msg sc, reply_msg sc, ack_msg sc]) =
      length (name_a p) + length (name_b p) + 69"
    using script_exists [OF assms(1)] .
  have inv: "session_inv p sc ch"
    using session_run [OF assms(2) sc _ assms(4) session_start [OF sc] assms(3)] assms(1) by (simp add: honest_parties_def)
  show "can_complete p ch" using session_progress [OF sc inv assms(5)] .
  have "paid (concat (map at_a es)) (taken_a ch) (end_a ch) \<and> paid (concat (map at_b es)) (taken_b ch) (end_b ch)"
    using run_paid [OF assms(2)] start_paid [OF sc] by (simp add: fresh_channel_def)
  then show "completions (concat (map at_a es)) + completions (concat (map at_b es)) \<le>
      length (name_a p) + length (name_b p) + 74 + length (asked_a ch) + length (asked_b ch)"
    using session_work [OF sc inv assms(5)] unfolding len by (simp add: paid_def)
qed

lemma long_run:
  assumes "honest_parties p"
  shows "\<exists>es ch. channel_run (env_a p) (env_b p) (fresh_channel p) es ch \<and> (\<forall>e\<in>set es. healthy_event e) \<and>
    asked_a ch = [] \<and> asked_b ch = [] \<and>
    (completed p ch \<or> n \<le> completions (concat (map at_a es)) + completions (concat (map at_b es)))"
proof (induction n)
  case 0
  show ?case using channel_run.start [of "env_a p" "env_b p" "fresh_channel p"] by (force simp: fresh_channel_def)
next
  case (Suc n)
  then obtain es ch where run: "channel_run (env_a p) (env_b p) (fresh_channel p) es ch" "\<forall>e\<in>set es. healthy_event e"
    "asked_a ch = []" "asked_b ch = []"
    and n: "completed p ch \<or> n \<le> completions (concat (map at_a es)) + completions (concat (map at_b es))" by blast
  show ?case
  proof (cases "completed p ch")
    case True
    with run show ?thesis by blast
  next
    case False
    then obtain e ch' where step: "channel_step (env_a p) (env_b p) ch e ch'"
      and e: "e = At_A Write_done \<or> e = At_B Write_done \<or> (\<exists>b. e = At_A (Read_done [b]) \<or> e = At_B (Read_done [b]))"
      using session_complete(1) [OF assms run(1,2)] run(3,4) by (auto simp: can_complete_def)
    have "asked_a ch' = []" "asked_b ch' = []"
      using step e run(3,4) by (auto elim!: channel_step.cases simp: accepted_def)
    moreover have "healthy_event e" using e by auto
    moreover have "Suc n \<le> completions (concat (map at_a (es @ [e]))) + completions (concat (map at_b (es @ [e])))"
      using e n False by auto
    ultimately show ?thesis using channel_run.snoc [OF run(1) step] run(2)
      by (intro exI [of _ "es @ [e]"] exI [of _ ch']) auto
  qed
qed

lemma completed_run_exists:
  assumes "honest_parties p"
  obtains es ch where "channel_run (env_a p) (env_b p) (fresh_channel p) es ch" and "\<forall>e\<in>set es. healthy_event e"
    and "asked_a ch = []" and "asked_b ch = []" and "completed p ch"
proof -
  obtain es ch where r: "channel_run (env_a p) (env_b p) (fresh_channel p) es ch" "\<forall>e\<in>set es. healthy_event e"
    "asked_a ch = []" "asked_b ch = []"
    "completed p ch \<or> length (name_a p) + length (name_b p) + 75 \<le> completions (concat (map at_a es)) + completions (concat (map at_b es))"
    using long_run [OF assms] by blast
  then have "completed p ch" using session_complete(2) [OF assms r(1,2)] by fastforce
  with r show thesis using that by blast
qed

text \<open>A session in which A is asked for one operation after the handshake.\<close>

lemma completed_and_asked:
  assumes "honest_parties p"
  obtains es ch where "channel_run (env_a p) (env_b p) (fresh_channel p) es ch" and "\<forall>e\<in>set es. healthy_event e"
    and "asked_a ch = [cmd]" and "asked_b ch = []"
proof -
  obtain es ch where r: "channel_run (env_a p) (env_b p) (fresh_channel p) es ch" "\<forall>e\<in>set es. healthy_event e"
    "asked_a ch = []" "asked_b ch = []" "completed p ch"
    using completed_run_exists [OF assms] .
  obtain sc where sc: "scripted p sc" using script_exists [OF assms] .
  have "session_inv p sc ch"
    using session_run [OF r(1) sc _ _ session_start [OF sc] r(2)] r(3,4) assms by (simp add: honest_parties_def)
  then have "prefix (taken_a ch) (concat (started_writes (end_b ch)))" by (auto simp: session_inv_def)
  then obtain ch' where step: "channel_step (env_a p) (env_b p) ch (At_A (Request cmd)) ch'"
    using channel_step.at_a [OF conn_step.requested [of "env_a p" "end_a ch" cmd], of "env_b p"] by auto
  have "asked_a ch' = [cmd]" "asked_b ch' = []"
    using step r(3-5) by (auto elim!: channel_step.cases simp: accepted_def completed_def)
  then show thesis using that [OF channel_run.snoc [OF r(1) step]] r(2) by auto
qed

text \<open>Two nodes for the examples.\<close>

definition sample_parties :: parties where
  "sample_parties =
     \<lparr>env_a = \<lparr>env_platform = documented_platform, env_garbage = replicate 64 0, env_cookie = ''c''\<rparr>,
      env_b = \<lparr>env_platform = documented_platform, env_garbage = replicate 64 1, env_cookie = ''c''\<rparr>,
      name_a = ''a@h'', name_b = ''b@h'', known_b = ''b@h'', challenge_a = 7, challenge_b = 9\<rparr>"

lemma sample_parties: "honest_parties sample_parties" "env_platform (env_a sample_parties) = documented_platform"
  by (simp_all add: honest_parties_def sample_parties_def doc.spirit_axioms)

section \<open>Properties of a session\<close>

text \<open>C5. Two honest nodes complete their handshake whatever the order in which their operations complete and
  however TCP cuts the stream into reads: as long as they have not both become connected and
  reported success, a write or a read of one more byte can complete, and after a bounded number of
  such completions they have; neither ever reports a failure.\<close>

theorem handshake_always_completes:
  assumes "honest_parties p" and "channel_run (env_a p) (env_b p) (fresh_channel p) es ch" and "\<forall>e\<in>set es. healthy_event e"
    and "\<forall>cmd\<in>set (asked_a ch @ asked_b ch). sendable (env_platform (env_a p)) cmd"
  shows "(completed p ch \<or> can_complete p ch \<and>
      completions (concat (map at_a es)) + completions (concat (map at_b es)) \<le>
        length (name_a p) + length (name_b p) + 74 + length (asked_a ch) + length (asked_b ch)) \<and>
    False \<notin> set (signals (end_a ch)) \<union> set (signals (end_b ch))"
proof -
  obtain sc where sc: "scripted p sc" using script_exists [OF assms(1)] .
  have "session_inv p sc ch"
    using session_run [OF assms(2) sc _ assms(4) session_start [OF sc] assms(3)] assms(1) by (simp add: honest_parties_def)
  then have "signals (end_a ch) \<in> {[], [True]} \<and> signals (end_b ch) \<in> {[], [True]}"
    using a_shaking_fields b_shaking_fields by (fastforce simp: session_inv_def a_inv_def b_inv_def)
  then show ?thesis using session_complete [OF assms] by auto
qed

theorem handshake_always_completes_witness:
  "\<exists>es ch. channel_run (env_a sample_parties) (env_b sample_parties) (fresh_channel sample_parties) es ch \<and> completed sample_parties ch"
proof -
  obtain es ch where r: "channel_run (env_a sample_parties) (env_b sample_parties) (fresh_channel sample_parties) es ch"
    "\<forall>e\<in>set es. healthy_event e" "asked_a ch = []" "asked_b ch = []"
    "completed sample_parties ch \<or>
      length (name_a sample_parties) + length (name_b sample_parties) + 75 \<le> completions (concat (map at_a es)) + completions (concat (map at_b es))"
    using long_run [OF sample_parties(1)] by blast
  with handshake_always_completes [OF sample_parties(1) r(1,2)] have "completed sample_parties ch" by auto
  with r(1) show ?thesis by blast
qed

text \<open>C19. Two honest nodes on platforms whose \<open>char\<close> is unsigned, a request being one step: from the handshake on, what one node requests of a connection is what the other node is called
  with, in the same order, nothing lost, repeated or made up: the operations accepted at A are those
  that B's node has been called with, followed by those that wait in B's lexer and those still under
  way, of which none is left once all bytes have been read. The same holds from B to A unless bytes
  of B's first messages came together with its last handshake message.\<close>

theorem commands_arrive_in_order:
  assumes "honest_parties p" and "channel_run (env_a p) (env_b p) (fresh_channel p) es ch" and "\<forall>e\<in>set es. healthy_event e"
    and "\<forall>cmd\<in>set (asked_a ch @ asked_b ch). sendable (env_platform (env_a p)) cmd"
  shows "in_order (env_platform (env_a p)) (asked_a ch) (end_a ch) (underway (taken_b ch) (end_a ch)) [] (end_b ch) \<and>
    (early_bytes (end_a ch) = [] \<and> conn_state (end_a ch) = Connected \<longrightarrow>
      in_order (env_platform (env_a p)) (asked_b ch) (end_b ch) (underway (taken_a ch) (end_b ch)) [] (end_a ch))"
proof -
  obtain sc where sc: "scripted p sc" using script_exists [OF assms(1)] .
  have "session_inv p sc ch"
    using session_run [OF assms(2) sc _ assms(4) session_start [OF sc] assms(3)] assms(1) by (simp add: honest_parties_def)
  then show ?thesis using session_in_order [OF sc _ assms(4)] by blast
qed

theorem commands_arrive_in_order_witness:
  "\<exists>es ch. channel_run (env_a sample_parties) (env_b sample_parties) (fresh_channel sample_parties) es ch \<and>
    asked_a ch = [Control_msg_link default_e_pid default_e_pid] \<and>
    in_order documented_platform [Control_msg_link default_e_pid default_e_pid] (end_a ch) (underway (taken_b ch) (end_a ch)) [] (end_b ch)"
proof -
  let ?cmd = "Control_msg_link default_e_pid default_e_pid"
  obtain es ch where r: "channel_run (env_a sample_parties) (env_b sample_parties) (fresh_channel sample_parties) es ch"
    "\<forall>e\<in>set es. healthy_event e" "asked_a ch = [?cmd]" "asked_b ch = []"
    using completed_and_asked [OF sample_parties(1), of ?cmd] .
  have "sendable documented_platform ?cmd"
    by (simp add: sendable_def wf_pid_def wf_atom_def default_e_pid_def command_body_def add_message_header_def ctrl_int_def
        grammar_defs serialize_int_def)
  with commands_arrive_in_order [OF sample_parties(1) r(1,2)] r sample_parties(2) show ?thesis by auto
qed

end
