(* ===== verification/Two_Nodes.thy ===== *)
theory Two_Nodes
  imports Node_Actions Session
begin

text \<open>
  Two nodes with their clients and the session between them, as one system: the connection of \<open>Session\<close> is the
  first one in the connector of either node, the calls it makes are carried out on the node in the same
  step (\<open>msg_received\<close> of \<open>impl/node_connection_state.cpp\<close>), and between these steps the clients of both
  nodes do what they want, in the operations of \<open>impl/actual_node.cpp\<close>. The theory follows one mailbox through such
  a run and shows that its messages are conserved from the clients of one node to those of the other.
\<close>

section \<open>The system\<close>

text \<open>A completion on the connection, with the calls it makes on its node; \<open>msg_received\<close> performs them at once.\<close>

inductive io_action :: "conn_env \<Rightarrow> actual_node \<Rightarrow> conn_event \<Rightarrow> access_call list \<Rightarrow> actual_node \<Rightarrow> bool" for env where
  completes: "\<lbrakk>conn_step env (the_end n) e c; healthy e; requests e = []; node_calls c = node_calls (the_end n) @ cs;
     perform_all (env_platform env) cs (put_end c n) = Some n'\<rbrakk> \<Longrightarrow> io_action env n e cs n'"

text \<open>Beside the nodes: the bytes that each end has read, and the actions of each node so far.\<close>

record system =
  node_a :: actual_node
  node_b :: actual_node
  read_a :: msg_seq
  read_b :: msg_seq
  log_a :: "action list"
  log_b :: "action list"

inductive system_step :: "conn_env \<Rightarrow> conn_env \<Rightarrow> system \<Rightarrow> system \<Rightarrow> bool" for ea eb where
  acts_a: "node_action ea (node_a s) lab n \<Longrightarrow> system_step ea eb s (s\<lparr>node_a := n, log_a := log_a s @ [lab]\<rparr>)"
| acts_b: "node_action eb (node_b s) lab n \<Longrightarrow> system_step ea eb s (s\<lparr>node_b := n, log_b := log_b s @ [lab]\<rparr>)"
| io_a: "\<lbrakk>io_action ea (node_a s) e cs n; prefix (read_a s @ bytes_read e) (concat (started_writes (the_end (node_b s))))\<rbrakk>
   \<Longrightarrow> system_step ea eb s (s\<lparr>node_a := n, read_a := read_a s @ bytes_read e, log_a := log_a s @ map Hears cs\<rparr>)"
| io_b: "\<lbrakk>io_action eb (node_b s) e cs n; prefix (read_b s @ bytes_read e) (concat (started_writes (the_end (node_a s))))\<rbrakk>
   \<Longrightarrow> system_step ea eb s (s\<lparr>node_b := n, read_b := read_b s @ bytes_read e, log_b := log_b s @ map Hears cs\<rparr>)"

text \<open>Two nodes that have just opened and accepted a connection, whatever else they have.\<close>

definition beginning :: "parties \<Rightarrow> system \<Rightarrow> bool" where
  "beginning p s \<longleftrightarrow>
     has_end (node_a s) \<and> the_end (node_a s) = start_a p \<and> has_end (node_b s) \<and> the_end (node_b s) = start_b p \<and>
     read_a s = [] \<and> read_b s = [] \<and> log_a s = [] \<and> log_b s = []"

section \<open>The session in the system\<close>

fun asked_of :: "action \<Rightarrow> control_msg list" where
  "asked_of (Asks cmd) = [cmd]" | "asked_of lab = []"

fun heard_of :: "action \<Rightarrow> access_call list" where
  "heard_of (Hears c) = [c]" | "heard_of lab = []"

definition asked_in :: "action list \<Rightarrow> control_msg list" where
  "asked_in labs = concat (map asked_of labs)"

definition heard_in :: "action list \<Rightarrow> access_call list" where
  "heard_in labs = concat (map heard_of labs)"

lemma logs_simps [simp]:
  "asked_in [] = []" "asked_in (xs @ ys) = asked_in xs @ asked_in ys" "asked_in (map Hears cs) = []" "asked_in [lab] = asked_of lab"
  "heard_in [] = []" "heard_in (xs @ ys) = heard_in xs @ heard_in ys" "heard_in (map Hears cs) = cs" "heard_in [lab] = heard_of lab"
  by (induction cs) (simp_all add: asked_in_def heard_in_def)

text \<open>The channel of the two ends.\<close>

definition channel_of :: "system \<Rightarrow> channel" where
  "channel_of s =
     \<lparr>end_a = the_end (node_a s), end_b = the_end (node_b s), taken_a = read_a s, taken_b = read_b s,
      asked_a = asked_in (log_a s), asked_b = asked_in (log_b s)\<rparr>"

lemma channel_of_sims [simp]:
  "end_a (channel_of s) = the_end (node_a s)" "end_b (channel_of s) = the_end (node_b s)"
  "taken_a (channel_of s) = read_a s" "taken_b (channel_of s) = read_b s"
  "asked_a (channel_of s) = asked_in (log_a s)" "asked_b (channel_of s) = asked_in (log_b s)"
  by (simp_all add: channel_of_def)

definition streams_ok :: "system \<Rightarrow> bool" where
  "streams_ok s \<longleftrightarrow> has_end (node_a s) \<and> has_end (node_b s) \<and>
     prefix (read_a s) (concat (started_writes (the_end (node_b s)))) \<and>
     prefix (read_b s) (concat (started_writes (the_end (node_a s))))"

lemma io_end:
  assumes "io_action env n e cs n'" and "has_end n"
  shows "has_end n'" and "conn_step env (the_end n) e (the_end n')" and "healthy e" and "requests e = []"
    and "node_calls (the_end n') = node_calls (the_end n) @ cs"
proof -
  obtain c where c: "conn_step env (the_end n) e c" "healthy e" "requests e = []" "node_calls c = node_calls (the_end n) @ cs"
    "perform_all (env_platform env) cs (put_end c n) = Some n'" using assms(1) by (auto elim: io_action.cases)
  have "connector n' = connector (put_end c n)" using connector_perform_all [OF c(5)] .
  then have "has_end n' \<and> the_end n' = c" using the_end_put(1) [OF assms(2), of c] the_end_put(2) [of c n] assms(2)
    by (simp add: has_end_def the_end_def)
  with c show "has_end n'" "conn_step env (the_end n) e (the_end n')" "healthy e" "requests e = []"
    "node_calls (the_end n') = node_calls (the_end n) @ cs" by simp_all
qed

lemma action_asked:
  assumes "node_action env n lab n'" and "has_end n"
  shows "(asked_of lab = [] \<and> the_end n' = the_end n) \<or>
    (\<exists>cmd. lab = Asks cmd \<and> conn_state (the_end n) = Connected \<and> the_end n' = request env cmd (the_end n))"
  using action_end [OF assms] by (cases lab) (use assms(1) in \<open>auto elim: node_action.cases\<close>)

lemma node_calls_request [simp]: "node_calls (request env cmd c) = node_calls c"
  by (simp add: request_def)

text \<open>Every step of the system is one of the channel, or leaves it alone.\<close>

lemma started_prefix:
  "conn_step env c e c' \<Longrightarrow> prefix s (concat (started_writes c)) \<Longrightarrow> prefix s (concat (started_writes c'))"
  using started_step by (fastforce simp: prefix_def)

lemma step_channel:
  assumes step: "system_step ea eb s s'" and ok: "streams_ok s"
  shows "streams_ok s' \<and> (channel_of s' = channel_of s \<or>
    (\<exists>e. healthy_event e \<and> channel_step ea eb (channel_of s) e (channel_of s')))"
  using step
proof cases
  case (acts_a lab n)
  have here: "has_end (node_a s)" using ok by (simp add: streams_ok_def)
  from action_asked [OF acts_a(2) here] show ?thesis
  proof (elim disjE exE conjE)
    fix cmd assume c: "lab = Asks cmd" "conn_state (the_end (node_a s)) = Connected" "the_end n = request ea cmd (the_end (node_a s))"
    have "channel_step ea eb (channel_of s) (At_A (Request cmd)) (channel_of s')"
      using channel_step.at_a [OF conn_step.requested [of ea "end_a (channel_of s)" cmd], of eb] ok c acts_a(1)
      by (simp add: streams_ok_def accepted_def) (simp add: channel_of_def)
    then show ?thesis using ok c acts_a(1) action_end [OF acts_a(2) here] started_prefix [OF conn_step.requested]
      by (fastforce simp: streams_ok_def)
  qed (use ok acts_a(1) action_end [OF acts_a(2) here] in \<open>simp add: streams_ok_def channel_of_def\<close>)
next
  case (acts_b lab n)
  have here: "has_end (node_b s)" using ok by (simp add: streams_ok_def)
  from action_asked [OF acts_b(2) here] show ?thesis
  proof (elim disjE exE conjE)
    fix cmd assume c: "lab = Asks cmd" "conn_state (the_end (node_b s)) = Connected" "the_end n = request eb cmd (the_end (node_b s))"
    have "channel_step ea eb (channel_of s) (At_B (Request cmd)) (channel_of s')"
      using channel_step.at_b [OF conn_step.requested [of eb "end_b (channel_of s)" cmd], of ea] ok c acts_b(1)
      by (simp add: streams_ok_def accepted_def) (simp add: channel_of_def)
    then show ?thesis using ok c acts_b(1) action_end [OF acts_b(2) here] started_prefix [OF conn_step.requested]
      by (fastforce simp: streams_ok_def)
  qed (use ok acts_b(1) action_end [OF acts_b(2) here] in \<open>simp add: streams_ok_def channel_of_def\<close>)
next
  case (io_a e cs n)
  have here: "has_end (node_a s)" using ok by (simp add: streams_ok_def)
  note io = io_end [OF io_a(2) here]
  have "channel_step ea eb (channel_of s) (At_A e) (channel_of s')"
    using channel_step.at_a [of ea "channel_of s" e "the_end n" eb] io io_a(1,3)
    by (simp add: accepted_def cong: if_cong) (simp add: channel_of_def)
  then show ?thesis using ok io io_a(1,3) started_prefix [OF io(2)] by (auto simp: streams_ok_def intro!: exI [of _ "At_A e"])
next
  case (io_b e cs n)
  have here: "has_end (node_b s)" using ok by (simp add: streams_ok_def)
  note io = io_end [OF io_b(2) here]
  have "channel_step ea eb (channel_of s) (At_B e) (channel_of s')"
    using channel_step.at_b [of eb "channel_of s" e "the_end n" ea] io io_b(1,3)
    by (simp add: accepted_def cong: if_cong) (simp add: channel_of_def)
  then show ?thesis using ok io io_b(1,3) started_prefix [OF io(2)] by (auto simp: streams_ok_def intro!: exI [of _ "At_B e"])
qed

lemma run_channel:
  assumes "(system_step ea eb)\<^sup>*\<^sup>* s0 s" and "streams_ok s0"
  shows "streams_ok s \<and> (\<exists>es. channel_run ea eb (channel_of s0) es (channel_of s) \<and> (\<forall>e\<in>set es. healthy_event e))"
  using assms
proof (induction rule: rtranclp_induct)
  case base
  then show ?case using channel_run.start by fastforce
next
  case (step s s')
  then obtain es where es: "streams_ok s" "channel_run ea eb (channel_of s0) es (channel_of s)" "\<forall>e\<in>set es. healthy_event e"
    by blast
  from step_channel [OF step.hyps(2) es(1)] show ?case
  proof (elim conjE disjE exE)
    fix e assume "streams_ok s'" "healthy_event e" "channel_step ea eb (channel_of s) e (channel_of s')"
    then show ?case using channel_run.snoc [OF es(2)] es(3) by (intro conjI exI [of _ "es @ [e]"]) auto
  qed (use es in auto)
qed

text \<open>B's node has heard what the connection has called it with.\<close>

lemma run_heard:
  assumes "(system_step ea eb)\<^sup>*\<^sup>* s0 s" and "has_end (node_b s0)" and "log_b s0 = []"
  shows "has_end (node_b s) \<and> node_calls (the_end (node_b s)) = node_calls (the_end (node_b s0)) @ heard_in (log_b s)"
  using assms
proof (induction rule: rtranclp_induct)
  case (step s s')
  then have h: "has_end (node_b s)" "node_calls (the_end (node_b s)) = node_calls (the_end (node_b s0)) @ heard_in (log_b s)"
    by simp_all
  from step.hyps(2) show ?case
  proof cases
    case (acts_b lab n)
    have "heard_of lab = []" using acts_b(2) by cases auto
    then show ?thesis using acts_b(1) h action_end [OF acts_b(2) h(1)] by (cases lab) auto
  next
    case (io_b e cs n)
    then show ?thesis using h io_end [OF io_b(2) h(1)] by simp
  qed (use h in auto)
qed simp

text \<open>What one mailbox of B sees of all this.\<close>

definition seen :: "e_pid \<Rightarrow> string option \<Rightarrow> nat \<Rightarrow> action list \<Rightarrow> mailbox_event list" where
  "seen q known b labs = concat (map (events_in q known b) labs)"

lemma seen_simps [simp]:
  "seen q known b [] = []" "seen q known b (xs @ ys) = seen q known b xs @ seen q known b ys"
  "seen q known b [lab] = events_in q known b lab" "seen q known b (map Hears cs) = concat (map (events_of_call q known) cs)"
  by (induction cs) (simp_all add: seen_def)

lemma hosts_put_end: "hosts n q known b \<Longrightarrow> hosts (put_end c n) q known b"
  by (simp add: put_end_def hosts_def)

lemma run_seen:
  assumes "(system_step ea eb)\<^sup>*\<^sup>* s0 s" and "hosts (node_b s0) q known b" and "log_b s0 = []"
    and "\<forall>lab\<in>set (log_b s). spares q known b lab"
  shows "hosts (node_b s) q known b \<and> sees (node_b s0) b (seen q known b (log_b s)) (node_b s)"
  using assms
proof (induction rule: rtranclp_induct)
  case base
  then show ?case using sees_nothing by simp
next
  case (step s s')
  have IH: "hosts (node_b s) q known b" "sees (node_b s0) b (seen q known b (log_b s)) (node_b s)"
    if "set (log_b s) \<subseteq> set (log_b s')" using step that by auto
  from step.hyps(2) show ?case
  proof cases
    case (acts_b lab n)
    then have h: "hosts (node_b s) q known b" "sees (node_b s0) b (seen q known b (log_b s)) (node_b s)" using IH by auto
    have "spares q known b lab" using step.prems(3) acts_b(1) by simp
    from action_sees [OF acts_b(2) h(1) this] show ?thesis using sees_trans [OF h(2)] acts_b(1) by simp
  next
    case (io_b e cs n)
    then have h: "hosts (node_b s) q known b" "sees (node_b s0) b (seen q known b (log_b s)) (node_b s)" using IH by auto
    obtain c where "perform_all (env_platform eb) cs (put_end c (node_b s)) = Some n" using io_b(2) by (auto elim: io_action.cases)
    from calls_sees [OF this hosts_put_end [OF h(1)]]
    have "hosts n q known b" "sees (node_b s) b (concat (map (events_of_call q known) cs)) n"
      by (simp_all add: sees_def put_end_def)
    then show ?thesis using sees_trans [OF h(2)] io_b(1) by simp
  qed (use IH in auto)
qed

section \<open>Conservation\<close>

text \<open>The messages that are meant for a mailbox among some calls, and those that its clients have taken out.\<close>

definition messages_for :: "e_pid \<Rightarrow> string option \<Rightarrow> access_call list \<Rightarrow> msg_seq list" where
  "messages_for q known cs = concat (map incoming_of (concat (map (events_of_call q known) cs)))"

fun called_of :: "action \<Rightarrow> access_call list" where
  "called_of (Calls c) = [c]" | "called_of lab = []"

definition called_in :: "action list \<Rightarrow> access_call list" where
  "called_in labs = concat (map called_of labs)"

fun taken_of :: "nat \<Rightarrow> action \<Rightarrow> msg_seq list" where
  "taken_of b (Takes a (Inr msg)) = (if a = b then [msg] else [])" | "taken_of b lab = []"

definition taken_in :: "nat \<Rightarrow> action list \<Rightarrow> msg_seq list" where
  "taken_in b labs = concat (map (taken_of b) labs)"

lemma seen_delivered: "concat (map delivered_of (seen q known b labs)) = taken_in b labs"
proof (induction labs)
  case (Cons lab labs)
  have call: "concat (map delivered_of (events_of_call q known c)) = []" for c by (cases c) (simp_all add: events_of_call_def)
  have "concat (map delivered_of (events_in q known b lab)) = taken_of b lab"
  proof (cases lab)
    case (Takes a r)
    then show ?thesis by (cases r) auto
  qed (use call in auto)
  then show ?case using Cons by (simp add: seen_def taken_in_def)
qed (simp add: seen_def taken_in_def)

lemma seen_incoming:
  "mset (concat (map incoming_of (seen q known b labs))) =
     mset (messages_for q known (heard_in labs)) + mset (messages_for q known (called_in labs))"
proof (induction labs)
  case (Cons lab labs)
  have "mset (concat (map incoming_of (events_in q known b lab))) =
      mset (messages_for q known (heard_of lab)) + mset (messages_for q known (called_of lab))"
    by (cases lab) (auto simp: messages_for_def)
  then show ?case using Cons by (simp add: seen_def heard_in_def called_in_def messages_for_def)
qed (simp add: seen_def heard_in_def called_in_def messages_for_def)

lemma sent_and_received:
  assumes "honest_parties p" and "beginning p s0" and "(system_step (env_a p) (env_b p))\<^sup>*\<^sup>* s0 s"
    and "\<forall>cmd\<in>set (asked_in (log_a s) @ asked_in (log_b s)). sendable (env_platform (env_a p)) cmd"
  shows "\<exists>k. heard_in (log_b s) = map call_of (take k (asked_in (log_a s))) \<and>
    (underway (read_b s) (the_end (node_a s)) = [] \<and> tl (write_queue (the_end (node_a s))) = [] \<and>
       msgs (connected_msgs (the_end (node_b s))) = [] \<longrightarrow> k = length (asked_in (log_a s)))"
proof -
  have s0: "channel_of s0 = fresh_channel p" "streams_ok s0"
    using assms(2) by (simp_all add: beginning_def channel_of_def fresh_channel_def streams_ok_def)
  obtain es where es: "channel_run (env_a p) (env_b p) (fresh_channel p) es (channel_of s)" "\<forall>e\<in>set es. healthy_event e"
    using run_channel [OF assms(3) s0(2)] s0(1) by auto
  obtain sc where sc: "scripted p sc" using script_exists [OF assms(1)] .
  have "session_inv p sc (channel_of s)"
    using session_run [OF es(1) sc _ _ session_start [OF sc] es(2)] assms(1,4) by (simp add: honest_parties_def)
  from session_in_order(1) [OF sc this] assms(4)
  obtain handled waiting transit where h: "asked_in (log_a s) = commands (handled @ waiting @ transit)"
    "node_calls (the_end (node_b s)) = map call_of (commands handled)"
    "msgs (connected_msgs (the_end (node_b s))) = map (wire_image (env_platform (env_a p))) waiting"
    "underway (read_b s) (the_end (node_a s)) = [] \<and> tl (write_queue (the_end (node_a s))) = [] \<longrightarrow> transit = []"
    by (auto simp: in_order_def)
  have "node_calls (the_end (node_b s)) = node_calls (the_end (node_b s0)) @ heard_in (log_b s)"
    using run_heard [OF assms(3)] assms(2) by (simp add: beginning_def)
  then have "heard_in (log_b s) = map call_of (commands handled)"
    using h(2) assms(2) by (simp add: beginning_def start_b_def start_handshake_as_B_def create_connection_def trigger_defs)
  then show ?thesis using h by (intro exI [of _ "length (commands handled)"]) auto
qed

text \<open>Sending from a mailbox to a pid of the other node is asking the connection to.\<close>

lemma send_asks:
  assumes "map_of (node_connections (connector n)) (node_name q) = Some 0" and "conn_state (the_end n) = Connected"
  shows "\<exists>n'. mailbox_send env net q v n = Some (Inr (), n') \<and>
    node_action env n (Asks (Control_msg_send (serialize (env_platform env) v) q)) n'"
  using node_action.asks [OF assms request_here [OF assms(1)]] request_here [OF assms(1)]
  by (auto simp: mailbox_send_def deliver_def)

section \<open>Every run of a channel is one of the system\<close>

text \<open>A step of an end only adds to its calls.\<close>

lemma calls_grow:
  assumes sc: "scripted p sc" and inv: "session_inv p sc ch"
  shows "conn_step (env_a p) (end_a ch) e c \<Longrightarrow> \<exists>cs. node_calls c = node_calls (end_a ch) @ cs"
    and "conn_step (env_b p) (end_b ch) e c \<Longrightarrow> \<exists>cs. node_calls c = node_calls (end_b ch) @ cs"
proof -
  have talking: "\<exists>cs. node_calls c = node_calls c0 @ cs"
    if "talking 1 c0" "conn_step env c0 e c" "spirit (env_platform env)" for c0 env
    using talking_step [OF that(3,1,2)]
  proof
    assume "reading_step env c0 e c"
    then obtain complete q where "case msgs q of
        [] \<Rightarrow> connected_msgs c = q \<and> given c = given c0 \<and> node_calls c = node_calls c0
      | m # ms \<Rightarrow> connected_msgs c = q\<lparr>msgs := ms\<rparr> \<and> handed_over env c0 m c"
      unfolding reading_step_def by blast
    then show ?thesis by (cases "msgs q") (auto simp: handed_over_def split: if_splits)
  qed (simp add: quiet_step_def)
  have sp: "spirit (env_platform (env_a p))" "spirit (env_platform (env_b p))" using scriptedD(1,2) [OF sc] by simp_all
  have "node_calls (end_a ch) = [] \<or> talking 1 (end_a ch)" "node_calls (end_b ch) = [] \<or> talking 1 (end_b ch)"
    using inv a_shaking_fields b_shaking_fields by (auto simp: session_inv_def a_inv_def b_inv_def conversing_def)
  then show "conn_step (env_a p) (end_a ch) e c \<Longrightarrow> \<exists>cs. node_calls c = node_calls (end_a ch) @ cs"
    "conn_step (env_b p) (end_b ch) e c \<Longrightarrow> \<exists>cs. node_calls c = node_calls (end_b ch) @ cs"
    using talking sp by fastforce+
qed

text \<open>A node that carries on: consistent, and with a registry that can look up at least the pids it could at first.\<close>

definition carries_on :: "(e_pid \<Rightarrow> bool) \<Rightarrow> actual_node \<Rightarrow> bool" where
  "carries_on D n \<longleftrightarrow> has_end n \<and> node_inv n \<and> (\<forall>q. D q \<longrightarrow> defined_on n q)"

lemma put_end_carries_on: "carries_on D n \<Longrightarrow> carries_on D (put_end c n)"
  using the_end_put(2) [of c n] by (simp add: carries_on_def put_end_def defined_on_def)

lemma io_carries_on:
  assumes n: "carries_on D n" and step: "conn_step env (the_end n) e c" "healthy e" "requests e = []"
    and cs: "node_calls c = node_calls (the_end n) @ cs" "\<forall>c\<in>set cs. \<forall>q. pid_of c = Some q \<longrightarrow> D q"
  obtains n' where "io_action env n e cs n'" and "carries_on D n'" and "connector n' = connector (put_end c n)"
proof -
  note p = put_end_carries_on [OF n, of c]
  obtain n' where n': "perform_all (env_platform env) cs (put_end c n) = Some n'" "routed (put_end c n) cs n'" "node_inv n'"
    using perform_all_routed [of "put_end c n" cs "env_platform env"] p cs(2) by (auto simp: carries_on_def)
  have k: "connector n' = connector (put_end c n)" using connector_perform_all [OF n'(1)] .
  have "carries_on D n'" using p n'(2,3) k by (simp add: carries_on_def has_end_def routed_def)
  then show thesis using that io_action.completes [OF step cs(1) n'(1)] k by blast
qed

text \<open>A system whose A is connected under the name \<open>peer\<close>, and whose B has only heard so far.\<close>

definition lifting :: "string \<Rightarrow> (e_pid \<Rightarrow> bool) \<Rightarrow> system \<Rightarrow> bool" where
  "lifting peer D s \<longleftrightarrow>
     carries_on (\<lambda>q. True) (node_a s) \<and> map_of (node_connections (connector (node_a s))) peer = Some 0 \<and>
     carries_on D (node_b s) \<and> set (log_b s) \<subseteq> range Hears"

lemma a_lifts:
  assumes step: "conn_step (env_a p) (the_end (node_a s)) e c" "healthy e"
    and read: "prefix (read_a s @ bytes_read e) (concat (started_writes (the_end (node_b s))))"
    and calls: "\<exists>cs. node_calls c = node_calls (the_end (node_a s)) @ cs" and s: "lifting peer D s"
  shows "\<exists>s'. (system_step (env_a p) (env_b p))\<^sup>*\<^sup>* s s' \<and> lifting peer D s' \<and>
    channel_of s' = (channel_of s)\<lparr>end_a := c, taken_a := read_a s @ bytes_read e,
      asked_a := asked_in (log_a s) @ accepted (the_end (node_a s)) e\<rparr>"
proof (cases "requests e")
  case Nil
  have a: "carries_on (\<lambda>q. True) (node_a s)" using s by (simp add: lifting_def)
  obtain cs where cs: "node_calls c = node_calls (the_end (node_a s)) @ cs" using calls by blast
  from io_carries_on [OF a step Nil cs]
  obtain n where n: "io_action (env_a p) (node_a s) e cs n" "carries_on (\<lambda>q. True) n"
    "connector n = connector (put_end c (node_a s))" by auto
  have "the_end n = c" using n(3) a the_end_put(1) [of "node_a s" c] by (simp add: the_end_def carries_on_def)
  with n s show ?thesis
    by (intro exI [of _ "s\<lparr>node_a := n, read_a := read_a s @ bytes_read e, log_a := log_a s @ map Hears cs\<rparr>"])
      (auto simp: r_into_rtranclp [where r = "system_step (env_a p) (env_b p)", OF system_step.io_a [OF n(1) read]] lifting_def channel_of_def accepted_def Nil put_end_def)
next
  case (Cons cmd rest)
  then have e: "e = Request cmd" by (cases e; simp)
  then have c: "c = request (env_a p) cmd (the_end (node_a s))" using step(1) by (auto elim: conn_step.cases)
  have a: "carries_on (\<lambda>q. True) (node_a s)" "map_of (node_connections (connector (node_a s))) peer = Some 0"
    using s by (simp_all add: lifting_def)
  show ?thesis
  proof (cases "conn_state (the_end (node_a s)) = Connected")
    case True
    have "system_step (env_a p) (env_b p) s (s\<lparr>node_a := put_end c (node_a s), log_a := log_a s @ [Asks cmd]\<rparr>)"
      using system_step.acts_a [OF node_action.asks [OF a(2) True request_here [OF a(2)]]] c by simp
    then show ?thesis using s put_end_carries_on [OF a(1), of c] a(1) e True
      by (intro exI [of _ "s\<lparr>node_a := put_end c (node_a s), log_a := log_a s @ [Asks cmd]\<rparr>"])
        (simp add: r_into_rtranclp lifting_def channel_of_def accepted_def carries_on_def, simp add: put_end_def)
  qed (use s c e in \<open>auto simp: channel_of_def accepted_def request_def\<close>)
qed

lemma b_lifts:
  assumes step: "conn_step (env_b p) (the_end (node_b s)) e c" "healthy e"
    and read: "prefix (read_b s @ bytes_read e) (concat (started_writes (the_end (node_a s))))"
    and calls: "\<exists>cs. node_calls c = node_calls (the_end (node_b s)) @ cs" and s: "lifting peer D s"
    and silent: "accepted (the_end (node_b s)) e = []" and D: "\<forall>c\<in>set (node_calls c). \<forall>q. pid_of c = Some q \<longrightarrow> D q"
  shows "\<exists>s'. (system_step (env_a p) (env_b p))\<^sup>*\<^sup>* s s' \<and> lifting peer D s' \<and>
    channel_of s' = (channel_of s)\<lparr>end_b := c, taken_b := read_b s @ bytes_read e\<rparr>"
proof (cases "requests e")
  case Nil
  have b: "carries_on D (node_b s)" using s by (simp add: lifting_def)
  obtain cs where cs: "node_calls c = node_calls (the_end (node_b s)) @ cs" using calls by blast
  then have "\<forall>c\<in>set cs. \<forall>q. pid_of c = Some q \<longrightarrow> D q" using D by auto
  from io_carries_on [OF b step Nil cs this]
  obtain n where n: "io_action (env_b p) (node_b s) e cs n" "carries_on D n" "connector n = connector (put_end c (node_b s))" .
  have "the_end n = c" using n(3) b the_end_put(1) [of "node_b s" c] by (simp add: the_end_def carries_on_def)
  with n s show ?thesis
    by (intro exI [of _ "s\<lparr>node_b := n, read_b := read_b s @ bytes_read e, log_b := log_b s @ map Hears cs\<rparr>"])
      (auto simp: r_into_rtranclp [where r = "system_step (env_a p) (env_b p)", OF system_step.io_b [OF n(1) read]] lifting_def channel_of_def)
next
  case (Cons cmd rest)
  then have e: "e = Request cmd" by (cases e; simp)
  then have "c = the_end (node_b s)" using step(1) silent by (auto simp: accepted_def request_def elim: conn_step.cases split: if_splits)
  then show ?thesis using s e by (intro exI [of _ s]) (simp add: channel_of_def)
qed

lemma step_lifts:
  assumes sc: "scripted p sc" and unsigned: "\<not> char_is_signed (env_platform (env_a p))"
    and inv: "session_inv p sc (channel_of s)" and step: "channel_step (env_a p) (env_b p) (channel_of s) e ch" and healthy: "healthy_event e"
    and asked: "\<forall>cmd\<in>set (asked_a ch). sendable (env_platform (env_a p)) cmd" "asked_b ch = []"
    and s: "lifting peer D s" and D: "\<forall>cmd\<in>set (asked_a ch). \<forall>q. pid_of (call_of cmd) = Some q \<longrightarrow> D q"
  shows "\<exists>s'. (system_step (env_a p) (env_b p))\<^sup>*\<^sup>* s s' \<and> lifting peer D s' \<and> channel_of s' = ch"
  using step
proof cases
  case (at_a e' c)
  then have "conn_step (env_a p) (the_end (node_a s)) e' c" "healthy e'"
    "prefix (read_a s @ bytes_read e') (concat (started_writes (the_end (node_b s))))" using healthy by simp_all
  from a_lifts [OF this _ s] calls_grow(1) [OF sc inv at_a(3)] at_a(2) show ?thesis by simp
next
  case (at_b e' c)
  have "session_inv p sc ch"
    using session_step [OF sc unsigned _ inv step healthy] asked asked_grows [OF step] by (auto simp: subset_iff)
  from session_in_order(1) [OF sc this] asked at_b(2)
  have "set (node_calls c) \<subseteq> call_of ` set (asked_a ch)" by (auto simp: in_order_def)
  then have "\<forall>c\<in>set (node_calls c). \<forall>q. pid_of c = Some q \<longrightarrow> D q" using D by auto
  moreover have "conn_step (env_b p) (the_end (node_b s)) e' c" "healthy e'"
    "prefix (read_b s @ bytes_read e') (concat (started_writes (the_end (node_a s))))" using at_b healthy by simp_all
  moreover have "accepted (the_end (node_b s)) e' = []" "asked_in (log_b s) = []" using asked(2) at_b(2) by simp_all
  ultimately show ?thesis using b_lifts [of p s e' c peer D] s calls_grow(2) [OF sc inv at_b(3)] at_b(2)
    by (simp add: channel_of_def)
qed

lemma run_lifts:
  assumes "channel_run (env_a p) (env_b p) ch0 es ch" and "ch0 = channel_of s0" and "scripted p sc"
    and "\<not> char_is_signed (env_platform (env_a p))" and "session_inv p sc (channel_of s0)" and "\<forall>e\<in>set es. healthy_event e"
    and "\<forall>cmd\<in>set (asked_a ch). sendable (env_platform (env_a p)) cmd" and "asked_b ch = []"
    and "lifting peer D s0" and "\<forall>cmd\<in>set (asked_a ch). \<forall>q. pid_of (call_of cmd) = Some q \<longrightarrow> D q"
  shows "\<exists>s. (system_step (env_a p) (env_b p))\<^sup>*\<^sup>* s0 s \<and> lifting peer D s \<and> channel_of s = ch"
  using assms
proof (induction rule: channel_run.induct)
  case (snoc ch0 es ch e ch')
  note grows = asked_grows [OF snoc.hyps(2)]
  have asked: "\<forall>cmd\<in>set (asked_a ch). sendable (env_platform (env_a p)) cmd" "asked_b ch = []"
    "\<forall>cmd\<in>set (asked_a ch). \<forall>q. pid_of (call_of cmd) = Some q \<longrightarrow> D q" using grows snoc.prems by auto
  obtain s where s: "(system_step (env_a p) (env_b p))\<^sup>*\<^sup>* s0 s" "lifting peer D s" "channel_of s = ch"
    using snoc.IH [OF snoc.prems(1-4) _ asked(1,2) snoc.prems(8) asked(3)] snoc.prems(5) by auto
  have inv: "session_inv p sc (channel_of s)"
    using session_run [OF snoc.hyps(1) snoc.prems(2,3)] snoc.prems(1,4,5) asked s(3) by auto
  have step: "channel_step (env_a p) (env_b p) (channel_of s) e ch'" using snoc.hyps(2) s(3) by simp
  have "healthy_event e" using snoc.prems(5) by simp
  from step_lifts [OF snoc.prems(2,3) inv step this snoc.prems(6,7) s(2) snoc.prems(9)]
  obtain s' where "(system_step (env_a p) (env_b p))\<^sup>*\<^sup>* s s'" "lifting peer D s'" "channel_of s' = ch'" by blast
  with rtranclp_trans [OF s(1)] show ?case by blast
qed auto

text \<open>Two nodes for the example: the one knows the other, which has a mailbox.\<close>

definition sample_system :: system where
  "sample_system =
     \<lparr>node_a = (new_node ''a@h'')\<lparr>connector := new_connector\<lparr>node_connections := [(''b@h'', 0)], connections := [start_a sample_parties]\<rparr>\<rparr>,
      node_b = (new_node ''b@h'')\<lparr>pid_id := 2, mailboxes := [(fst (make_pid (new_node ''b@h'')), 0)],
        mailbox_objects := [Some (new_mailbox (fst (make_pid (new_node ''b@h''))) '''')],
        connector := new_connector\<lparr>connections := [start_b sample_parties]\<rparr>\<rparr>,
      read_a = [], read_b = [], log_a = [], log_b = []\<rparr>"

lemma sample_system:
  "beginning sample_parties sample_system"
  "hosts (node_b sample_system) (fst (make_pid (new_node ''b@h''))) None 0"
  "mailbox_objects (node_b sample_system) ! 0 = Some (new_mailbox (fst (make_pid (new_node ''b@h''))) '''')"
  "lifting ''b@h'' ((=) (fst (make_pid (new_node ''b@h'')))) sample_system"
proof -
  show "beginning sample_parties sample_system" by (simp add: beginning_def sample_system_def has_end_def the_end_def)
  show "hosts (node_b sample_system) (fst (make_pid (new_node ''b@h''))) None 0"
    by (auto simp: hosts_def sample_system_def equivalent_iff new_node_def)
  show "mailbox_objects (node_b sample_system) ! 0 = Some (new_mailbox (fst (make_pid (new_node ''b@h''))) '''')"
    by (simp add: sample_system_def)
  have "node_inv (node_a sample_system)" using node_inv_new [of "''a@h''"] by (simp add: sample_system_def)
  moreover have "node_inv (node_b sample_system)"
    by (simp add: sample_system_def node_inv_def pids_inv_def entry_ok_def linker.inv_none new_node_def make_pid_def new_mailbox_def)
  ultimately show "lifting ''b@h'' ((=) (fst (make_pid (new_node ''b@h'')))) sample_system"
    by (simp add: lifting_def carries_on_def sample_system_def has_end_def defined_on_def comparable_def pid_less_def equivalent_iff
        new_node_def)
qed

text \<open>C12. From the clients of one node to those of the other: two honest nodes, on platforms whose \<open>char\<close> is unsigned, whatever mailboxes they have, with clients
  that create, close, link and unlink mailboxes, send and receive as they please, in any interleaving with the
  completions on their connection and with other connections (a request being one step, see \<open>Write_Race\<close>). No message of a mailbox of B that stays open is lost or
  doubled: what its clients have taken out, together with what still waits in it, is what waited at first, what B's own
  clients and other connections have sent to it, and the messages for it among the first part of what A's clients have
  asked for, which is what B has heard, and all of it once everything has been read and handled. The breaks of its links are
  reported once each, in the order in which B's node has learnt of them.\<close>

theorem messages_conserved:
  assumes "honest_parties p" and "beginning p s0" and "(system_step (env_a p) (env_b p))\<^sup>*\<^sup>* s0 s"
    and "\<forall>cmd\<in>set (asked_in (log_a s) @ asked_in (log_b s)). sendable (env_platform (env_a p)) cmd"
    and "hosts (node_b s0) q known b" and "mailbox_objects (node_b s0) ! b = Some m"
    and "\<forall>lab\<in>set (log_b s). spares q known b lab"
  shows "\<exists>k m'. mailbox_objects (node_b s) ! b = Some m' \<and>
    heard_in (log_b s) = map call_of (take k (asked_in (log_a s))) \<and>
    mset (taken_in b (log_b s)) + mset (received_msgs m') =
      mset (received_msgs m) + mset (messages_for q known (map call_of (take k (asked_in (log_a s))))) +
      mset (messages_for q known (called_in (log_b s))) \<and>
    broken_links m @ concat (map broken_of (seen q known b (log_b s))) =
      concat (map reported_of (seen q known b (log_b s))) @ broken_links m' \<and>
    (underway (read_b s) (the_end (node_a s)) = [] \<and> tl (write_queue (the_end (node_a s))) = [] \<and>
       msgs (connected_msgs (the_end (node_b s))) = [] \<longrightarrow> k = length (asked_in (log_a s)))"
proof -
  obtain k where k: "heard_in (log_b s) = map call_of (take k (asked_in (log_a s)))"
    "underway (read_b s) (the_end (node_a s)) = [] \<and> tl (write_queue (the_end (node_a s))) = [] \<and>
       msgs (connected_msgs (the_end (node_b s))) = [] \<longrightarrow> k = length (asked_in (log_a s))"
    using sent_and_received [OF assms(1-4)] by blast
  have "log_b s0 = []" using assms(2) by (simp add: beginning_def)
  from run_seen [OF assms(3,5) this assms(7)] assms(6)
  obtain m' where m': "mailbox_objects (node_b s) ! b = Some m'" "mailbox_run m (seen q known b (log_b s)) m'"
    by (auto simp: sees_def)
  from run_conserves [OF m'(2)]
  have "mset (messages_for q known (heard_in (log_b s))) + mset (messages_for q known (called_in (log_b s))) + mset (received_msgs m) =
      mset (taken_in b (log_b s)) + mset (received_msgs m')" by (simp add: seen_delivered seen_incoming)
  then have "mset (taken_in b (log_b s)) + mset (received_msgs m') =
      mset (received_msgs m) + mset (messages_for q known (map call_of (take k (asked_in (log_a s))))) +
      mset (messages_for q known (called_in (log_b s)))" unfolding k(1) by (simp add: ac_simps)
  with run_conserves [OF m'(2)] m'(1) k show ?thesis by blast
qed

theorem messages_conserved_witness:
  "\<exists>s k m'. (system_step (env_a sample_parties) (env_b sample_parties))\<^sup>*\<^sup>* sample_system s \<and>
    asked_in (log_a s) = [Control_msg_send [97] (fst (make_pid (new_node ''b@h'')))] \<and>
    mailbox_objects (node_b s) ! 0 = Some m' \<and>
    mset (taken_in 0 (log_b s)) + mset (received_msgs m') = mset (take k [[97]])"
proof -
  let ?q = "fst (make_pid (new_node ''b@h''))"
  let ?cmd = "Control_msg_send [97] ?q"
  obtain es ch where r: "channel_run (env_a sample_parties) (env_b sample_parties) (fresh_channel sample_parties) es ch"
    "\<forall>e\<in>set es. healthy_event e" "asked_a ch = [?cmd]" "asked_b ch = []"
    using completed_and_asked [OF sample_parties(1), of ?cmd] .
  have "length (command_body documented_platform ?cmd) < 2 ^ 32 - 4"
    by (simp add: command_body_def add_message_header_def append_payload_def ctrl_int_def grammar_defs serialize_int_def
        make_pid_def new_node_def)
  then have sendable: "\<forall>cmd\<in>set [?cmd]. sendable (env_platform (env_a sample_parties)) cmd"
    by (simp add: sendable_def wf_pid_def wf_atom_def make_pid_def new_node_def sample_parties(2))
  obtain sc where sc: "scripted sample_parties sc" using script_exists [OF sample_parties(1)] .
  have start: "fresh_channel sample_parties = channel_of sample_system"
    using sample_system(1) by (simp add: beginning_def fresh_channel_def channel_of_def)
  have unsigned: "\<not> char_is_signed (env_platform (env_a sample_parties))" using sample_parties(1) by (simp add: honest_parties_def)
  have inv: "session_inv sample_parties sc (channel_of sample_system)" using session_start [OF sc] start by simp
  have cmds: "\<forall>cmd\<in>set (asked_a ch). sendable (env_platform (env_a sample_parties)) cmd"
    "\<forall>cmd\<in>set (asked_a ch). \<forall>q. pid_of (call_of cmd) = Some q \<longrightarrow> ?q = q" using sendable by (simp_all add: r(3))
  obtain s where s: "(system_step (env_a sample_parties) (env_b sample_parties))\<^sup>*\<^sup>* sample_system s"
    "lifting ''b@h'' ((=) ?q) s" "channel_of s = ch"
    using run_lifts [OF r(1) start sc unsigned inv r(2) cmds(1) r(4) sample_system(4) cmds(2)] by blast
  then have asked: "asked_in (log_a s) = [?cmd]" "asked_in (log_b s) = []" using r(3,4) channel_of_sims(5,6) [of s] by simp_all
  have heard: "set (log_b s) \<subseteq> range Hears" using s(2) by (simp add: lifting_def)
  then have "\<forall>lab\<in>set (log_b s). spares ?q None 0 lab" by auto
  from messages_conserved [OF sample_parties(1) sample_system(1) s(1) _ sample_system(2,3) this] asked sendable
  obtain k m' where m': "mailbox_objects (node_b s) ! 0 = Some m'"
    "mset (taken_in 0 (log_b s)) + mset (received_msgs m') =
      mset (messages_for ?q None (map call_of (take k [?cmd]))) + mset (messages_for ?q None (called_in (log_b s)))"
    by (auto simp: new_mailbox_def)
  have "called_in (log_b s) = []" using heard by (auto simp: called_in_def)
  moreover have "messages_for ?q None (map call_of (take k [?cmd])) = take k [[97]]"
    by (cases k) (simp_all add: messages_for_def events_of_call_def equivalent_iff)
  ultimately have "mset (taken_in 0 (log_b s)) + mset (received_msgs m') = mset (take k [[97]])"
    using m'(2) by (simp add: messages_for_def)
  then show ?thesis using s(1) asked(1) m'(1) by blast
qed

end
