(* ===== verification/Connecting.thy ===== *)
theory Connecting
  imports Connector Channel
begin

text \<open>
  The connector under concurrency. \<open>get_connection_to\<close> of \<open>impl/node_connector.cpp\<close> holds the
  mutex, but waiting for the result of the handshake releases it: other threads then ask for
  connections of their own, and the I/O thread runs the handshakes. A step is what one thread
  does while it holds the mutex, or one completed operation of one connection in the I/O thread. The
  first part shows that a handshake reports its outcome at most once, the second what the
  connector makes of it: with one waiting thread at a time it only hands out connections whose peer has
  proved itself; with two, a thread can take the outcome of another one's handshake.
\<close>

section \<open>A handshake has one outcome\<close>

text \<open>Nothing under way: the state in which a callback of a read runs.\<close>

definition idle_shaking :: "node_connection \<Rightarrow> bool" where
  "idle_shaking c \<longleftrightarrow> current_lexer c = Handshake_msgs \<and> conn_state c \<noteq> Connected \<and> signals c = [] \<and>
     pending_reads c = [] \<and> write_queue c = [] \<and> \<not> write_in_flight c"

text \<open>One thing at a time: a read, or some writes of which only the last one is followed by anything.\<close>

definition undecided :: "node_connection \<Rightarrow> bool" where
  "undecided c \<longleftrightarrow> current_lexer c = Handshake_msgs \<and> conn_state c \<noteq> Connected \<and> signals c = [] \<and>
     (pending_reads c = [] \<or> write_queue c = []) \<and> (\<exists>cb. cb \<noteq> Msg_received \<and> set (pending_reads c) \<subseteq> {(cb, Handshake_msgs)}) \<and>
     length (pending_reads c) \<le> 1 \<and> (write_in_flight c \<longrightarrow> write_queue c \<noteq> []) \<and>
     (\<forall>w\<in>set (butlast (write_queue c)). snd w = Ignore_write_notification)"

definition outcome :: "node_connection \<Rightarrow> bool" where
  "outcome c \<longleftrightarrow> undecided c \<or> signals c = [True] \<and> talking 1 c \<or> signals c = [False] \<and> dead c"

lemma idle_undecided: "idle_shaking c \<Longrightarrow> outcome c"
  by (auto simp: idle_shaking_def undecided_def outcome_def)

lemma idle_failure: "idle_shaking c \<Longrightarrow> outcome (report_failure c)"
  by (simp add: idle_shaking_def outcome_def report_failure_def dead_def)

lemma idle_transition: "idle_shaking c \<Longrightarrow> outcome (make_transition_to_connected c)"
  by (simp add: idle_shaking_def outcome_def state_defs trigger_defs talking_def)

lemma idle_read: "idle_shaking c \<Longrightarrow> cb \<noteq> Msg_received \<Longrightarrow> outcome (trigger_read_on cb Handshake_msgs c)"
  by (auto simp: idle_shaking_def outcome_def undecided_def trigger_read_on_def)

lemma idle_trigger: "idle_shaking c \<Longrightarrow> cb \<noteq> Msg_received \<Longrightarrow> outcome (trigger_checked_read cb c)"
  using idle_read by (simp add: trigger_checked_read_def idle_shaking_def)

lemma idle_write: "idle_shaking c \<Longrightarrow> outcome (trigger_checked_write m cb c)"
  by (auto simp: idle_shaking_def outcome_def undecided_def)

lemma idle_generated: "idle_shaking c \<Longrightarrow> outcome (fst (write_generated g cb c))"
  by (auto simp: write_generated_def idle_write idle_undecided split: sum.split)

lemma idle_state: "idle_shaking c \<Longrightarrow> st \<noteq> Connected \<Longrightarrow> idle_shaking (c\<lparr>conn_state := st\<rparr>)"
  by (simp add: idle_shaking_def)

lemma idle_parse_next:
  assumes "idle_shaking c" and "\<And>attr c. idle_shaking c \<Longrightarrow> outcome (fst (k attr c))"
  shows "outcome (fst (parse_next l p k c))"
proof -
  obtain m c' where pop: "pop_message l c = (m, c')" by (cases "pop_message l c")
  then have "idle_shaking c'" using assms(1)
    by (auto simp: pop_message_def idle_shaking_def split: lexer_id.splits prod.splits)
  then show ?thesis using assms(2) idle_undecided by (auto simp: parse_next_def pop split: option.split sum.split)
qed

lemma idle_sending_status: "idle_shaking c \<Longrightarrow> outcome (fst (to_sending_status env (got_peer_name n c)))"
  by (auto simp: to_sending_status_def send_status_def send_challenge_def write_generated_def got_peer_name_def
      generate_def receive_status_g_def send_challenge_g_def idle_shaking_def outcome_def undecided_def trigger_defs)

lemma idle_callback:
  assumes "idle_shaking c" and "cb \<noteq> Msg_received"
  shows "outcome (fst (read_done_callback env cb l c))"
proof -
  have challenge: "outcome (fst (challenge_read env l c))" if "idle_shaking c" for c
    unfolding challenge_read_def send_reply_def using that by (rule idle_parse_next) (simp add: idle_generated idle_state)
  have "outcome (fst (name_read env l c))"
    unfolding name_read_def using assms(1) by (rule idle_parse_next) (simp add: idle_sending_status idle_failure)
  moreover have "outcome (fst (status_read env l c))"
    unfolding status_read_def using assms(1)
    by (rule idle_parse_next) (simp add: receive_challenge_def challenge idle_trigger idle_failure idle_state)
  moreover have "outcome (fst (reply_received env l c))"
    unfolding reply_received_def send_ack_def using assms(1)
    by (rule idle_parse_next) (simp add: idle_generated idle_failure idle_state)
  moreover have "outcome (fst (challenge_ack_read env l c))"
    unfolding challenge_ack_read_def using assms(1)
    by (rule idle_parse_next) (simp add: idle_transition idle_undecided)
  ultimately show ?thesis using challenge [OF assms(1)] assms(2) by (cases cb) simp_all
qed

lemma undecided_step:
  assumes "undecided c" and "conn_step env c e c'"
  shows "outcome c'"
  using assms(2,1)
proof (induction rule: conn_step.induct)
  case (read_done c cb l rest data c' e)
  have c: "rest = []" "cb \<noteq> Msg_received" "l = Handshake_msgs" "idle_shaking (c\<lparr>pending_reads := rest\<rparr>)"
    using read_done by (auto simp: undecided_def idle_shaking_def)
  consider b c1 where "lexer_add env l data (c\<lparr>pending_reads := rest\<rparr>) = Some (Inr (b, c1))" | "c' = c\<lparr>pending_reads := rest\<rparr>"
    using read_done.hyps(3) by (auto simp: checked_read_def split: option.splits sum.splits)
  then show ?case
  proof cases
    case (1 b c1)
    then have "idle_shaking c1" using c(4) by (auto elim!: lexer_add_form simp: idle_shaking_def)
    moreover have "c' = fst (read_done_callback env cb l c1) \<or> c' = trigger_read_on cb l c1"
      using read_done.hyps(3) 1 by (auto simp: checked_read_def split: if_splits)
    ultimately show ?thesis using idle_callback idle_read c(2,3) by blast
  qed (use c idle_undecided in simp)
next
  case (read_failed c cb l rest err c' e)
  then have "idle_shaking (c\<lparr>pending_reads := rest\<rparr>)" by (auto simp: undecided_def idle_shaking_def)
  then show ?case using read_failed.hyps(2) read_failed.prems idle_failure
    by (auto simp: checked_read_def handle_io_error_def undecided_def)
next
  case (write_done c c' e)
  then obtain m cb queue where q: "write_queue c = (m, cb) # queue" by (cases "write_queue c") (auto simp: undecided_def)
  then have c': "c' = write_done_callback cb (async_write_front (c\<lparr>write_in_flight := False, write_queue := queue\<rparr>))"
    using write_done by (simp add: checked_write_def Let_def)
  show ?case
  proof (cases queue)
    case Nil
    then have "idle_shaking (async_write_front (c\<lparr>write_in_flight := False, write_queue := queue\<rparr>))"
      using write_done q by (auto simp: undecided_def idle_shaking_def async_write_front_def)
    then show ?thesis unfolding c'
      by (cases cb) (simp_all add: to_waiting_for_status_def to_receiving_challenge_ack_def to_waiting_for_challenge_reply_def
          idle_transition idle_undecided, auto simp: idle_shaking_def outcome_def undecided_def trigger_defs)
  next
    case (Cons w ws)
    then show ?thesis using write_done q c'
      by (cases w) (auto simp: undecided_def outcome_def async_write_front_def split: list.split)
  qed
next
  case (write_failed c err c' e)
  then show ?case
    by (auto simp: checked_write_def Let_def handle_io_error_def undecided_def outcome_def report_failure_def dead_def
        split: list.splits)
next
  case (requested c msg)
  then show ?case by (simp add: request_def undecided_def outcome_def)
qed

lemma outcome_step:
  assumes "outcome c" and "conn_step env c e c'"
  shows "outcome c'" and "signals c \<noteq> [] \<Longrightarrow> signals c' = signals c"
proof -
  have dead: "c' = c" if "dead c" using dead_run [OF conn_run.snoc [OF conn_run.start assms(2)] that] .
  show "outcome c'"
    using assms(1) undecided_step [OF _ assms(2)] talking_stays [OF assms(2)] talking_keeps(2) [OF assms(2)] dead
    by (auto simp: outcome_def)
  show "signals c' = signals c" if "signals c \<noteq> []"
    using assms(1) that talking_keeps(2) [OF assms(2)] dead by (auto simp: outcome_def undecided_def)
qed

lemma start_outcome: "handshake_start env challenge c \<Longrightarrow> outcome c"
  by (auto simp: handshake_start_def start_handshake_as_A_def start_handshake_as_B_def Let_def initiate_handshake_def
      create_connection_def write_generated_def generate_def send_name_def outcome_def undecided_def trigger_defs)

lemma run_outcome: "conn_run env c es c' \<Longrightarrow> outcome c \<Longrightarrow> outcome c'"
  by (induction rule: conn_run.induct) (auto intro: outcome_step)

text \<open>The results that a step signals.\<close>

definition new_signals :: "node_connection \<Rightarrow> node_connection \<Rightarrow> bool list" where
  "new_signals c c' = drop (length (signals c)) (signals c')"

lemma outcome_signals: "outcome c \<Longrightarrow> signals c = [] \<or> signals c = [True] \<and> talking 1 c \<or> signals c = [False] \<and> dead c"
  by (auto simp: outcome_def undecided_def)

lemma step_new_signals:
  assumes "outcome c" and "conn_step env c e c'"
  shows "new_signals c c' = [] \<and> signals c' = signals c \<or> signals c = [] \<and> (\<exists>b. new_signals c c' = [b] \<and> signals c' = [b])"
  using outcome_step [OF assms] outcome_signals [of c'] by (cases "signals c = []") (auto simp: new_signals_def)

section \<open>The connector and its callers\<close>

text \<open>
  Beside the connector: the connections that it has opened itself, the callers that wait for a
  result, each with the peer it asked for and the connection it opened, and what callers have been answered.
\<close>

record connecting =
  connector_of :: node_connector
  opened :: "nat list"
  waiting_callers :: "(nat \<times> string \<times> nat) list"
  answers :: "(nat \<times> nat result) list"

definition new_connecting :: connecting where
  "new_connecting = \<lparr>connector_of = new_connector, opened = [], waiting_callers = [], answers = []\<rparr>"

definition answer :: "nat \<Rightarrow> nat result \<Rightarrow> connecting \<Rightarrow> connecting" where
  "answer t r s = s\<lparr>answers := answers s @ [(t, r)]\<rparr>"

text \<open>\<open>get_connection_to\<close> up to the wait, which releases the mutex.\<close>

definition ask :: "conn_env \<Rightarrow> network \<Rightarrow> string \<Rightarrow> nat \<Rightarrow> string \<Rightarrow> connecting \<Rightarrow> connecting" where
  "ask env net own t peer s =
     (case map_of (node_connections (connector_of s)) peer of
        Some i \<Rightarrow> answer t (Inr i) s
      | None \<Rightarrow>
          (case request_node_connection env net own peer of
             Inl e \<Rightarrow> answer t (Inl e) s
           | Inr c0 \<Rightarrow>
               let k = connector_of s\<lparr>challenges_used := challenges_used (connector_of s) + 1\<rparr> in
               (case start_handshake_as_A env (net_challenge net (challenges_used k)) c0 of
                  (c, Some e) \<Rightarrow> answer t (Inl e) (s\<lparr>connector_of := k\<rparr>)
                | (c, None) \<Rightarrow>
                    s\<lparr>connector_of := k\<lparr>connections := connections k @ [c]\<rparr>,
                      opened := opened s @ [length (connections k)],
                      waiting_callers := waiting_callers s @ [(t, peer, length (connections k))]\<rparr>)))"

text \<open>
  The end of the wait of a caller, and the rest of \<open>make_new_connection\<close>. The loop of
  \<open>wait_for_handshake_result\<close> only looks at \<open>handshake_done\<close>.
\<close>

definition wake :: "nat \<times> string \<times> nat \<Rightarrow> bool \<Rightarrow> connecting \<Rightarrow> connecting" where
  "wake caller success s =
     (case caller of (t, peer, i) \<Rightarrow>
        let k = connector_of s\<lparr>handshake_done := None\<rparr>;
            s = s\<lparr>connector_of := k, waiting_callers := remove1 caller (waiting_callers s)\<rparr>
        in if \<not> success then answer t (Inl (Tinch_pp_exception (''Failed to connect to the node = '' @ peer))) s
           else answer t (Inr i) (s\<lparr>connector_of := k\<lparr>node_connections := map_insert peer i (node_connections k)\<rparr>\<rparr>))"

text \<open>A signal of a connection runs the callback that was bound when its handshake started.\<close>

definition report :: "nat \<Rightarrow> bool \<Rightarrow> connecting \<Rightarrow> connecting" where
  "report i b s =
     s\<lparr>connector_of :=
         if i \<in> set (opened s) then handshake_success b (connector_of s)
         else snd (handshake_success_as_B i b (connector_of s))\<rparr>"

definition happens :: "nat \<Rightarrow> node_connection \<Rightarrow> connecting \<Rightarrow> connecting" where
  "happens i c s =
     (let k = connector_of s in
      fold (report i) (new_signals (connections k ! i) c) (s\<lparr>connector_of := k\<lparr>connections := (connections k)[i := c]\<rparr>\<rparr>))"

datatype connecting_event =
    Ask nat string | Wake "nat \<times> string \<times> nat" | Happens nat conn_event | Accepted bool | Dropped string

inductive connecting_step ::
  "conn_env \<Rightarrow> network \<Rightarrow> string \<Rightarrow> connecting \<Rightarrow> connecting_event \<Rightarrow> connecting \<Rightarrow> bool" for env net own where
  asks: "t \<notin> fst ` set (waiting_callers s) \<Longrightarrow> connecting_step env net own s (Ask t peer) (ask env net own t peer s)"
| wakes: "\<lbrakk>caller \<in> set (waiting_callers s); handshake_done (connector_of s) = Some b\<rbrakk>
   \<Longrightarrow> connecting_step env net own s (Wake caller) (wake caller b s)"
| completes: "\<lbrakk>i < length (connections (connector_of s)); conn_step env (connections (connector_of s) ! i) e c\<rbrakk>
   \<Longrightarrow> connecting_step env net own s (Happens i e) (happens i c s)"
| accepts: "connecting_step env net own s (Accepted failed)
     (s\<lparr>connector_of := handle_accept net own failed (connector_of s)\<rparr>)"
| drops: "connecting_step env net own s (Dropped node) (s\<lparr>connector_of := drop_connection_to node (connector_of s)\<rparr>)"

inductive connecting_run ::
  "conn_env \<Rightarrow> network \<Rightarrow> string \<Rightarrow> connecting_event list \<Rightarrow> connecting \<Rightarrow> bool" for env net own where
  start: "connecting_run env net own [] new_connecting"
| snoc: "\<lbrakk>connecting_run env net own es s; connecting_step env net own s e s'\<rbrakk> \<Longrightarrow> connecting_run env net own (es @ [e]) s'"

section \<open>One caller at a time\<close>

text \<open>The runs in which no two callers wait at the same time.\<close>

inductive lone_run ::
  "conn_env \<Rightarrow> network \<Rightarrow> string \<Rightarrow> connecting_event list \<Rightarrow> connecting \<Rightarrow> bool" for env net own where
  start: "lone_run env net own [] new_connecting"
| snoc: "\<lbrakk>lone_run env net own es s; connecting_step env net own s e s'; length (waiting_callers s') \<le> 1\<rbrakk>
   \<Longrightarrow> lone_run env net own (es @ [e]) s'"

lemma lone_run_run: "lone_run env net own es s \<Longrightarrow> connecting_run env net own es s"
  by (induction rule: lone_run.induct) (auto intro: connecting_run.intros)

definition from_handshake :: "conn_env \<Rightarrow> node_connection \<Rightarrow> bool" where
  "from_handshake env c \<longleftrightarrow> (\<exists>challenge c0 es. handshake_start env challenge c0 \<and> conn_run env c0 es c)"

lemma from_handshake_outcome: "from_handshake env c \<Longrightarrow> outcome c"
  using run_outcome start_outcome by (auto simp: from_handshake_def)

lemma from_handshake_step: "from_handshake env c \<Longrightarrow> conn_step env c e c' \<Longrightarrow> from_handshake env c'"
  unfolding from_handshake_def by (blast intro: conn_run.snoc)

lemma from_handshake_start: "handshake_start env challenge c \<Longrightarrow> from_handshake env c"
  unfolding from_handshake_def by (blast intro: conn_run.start)

lemma start_signals: "handshake_start env challenge c \<Longrightarrow> signals c = []"
  by (auto simp: handshake_start_def start_handshake_as_A_def start_handshake_as_B_def Let_def initiate_handshake_def
      create_connection_def write_generated_def generate_def send_name_def trigger_defs)

lemma request_creates: "request_node_connection env net own peer = Inr c \<Longrightarrow> \<exists>short. c = create_connection (Some short) own"
  by (auto simp: request_node_connection_def and_then_Inr_iff)

text \<open>
  What is registered or handed out has succeeded; a connection that was opened and has not
  reported is waited for; the result that is there, if any, is that of the connection that is waited for.
\<close>

definition consistent :: "conn_env \<Rightarrow> node_connection list \<Rightarrow> (string \<times> nat) list \<Rightarrow> (nat \<times> nat result) list \<Rightarrow> nat list \<Rightarrow>
    (nat \<times> string \<times> nat) list \<Rightarrow> bool option \<Rightarrow> bool" where
  "consistent env cs table ans own waiting done \<longleftrightarrow>
     (\<forall>c\<in>set cs. from_handshake env c) \<and>
     (\<forall>(peer, i)\<in>set table. i < length cs \<and> signals (cs ! i) = [True]) \<and>
     (\<forall>(t, r)\<in>set ans. \<forall>i. r = Inr i \<longrightarrow> i < length cs \<and> signals (cs ! i) = [True]) \<and>
     (\<forall>i\<in>set own. i < length cs) \<and>
     (case waiting of
        [] \<Rightarrow> done = None \<and> (\<forall>i\<in>set own. signals (cs ! i) \<noteq> [])
      | (t, peer, w) # rest \<Rightarrow> rest = [] \<and> w \<in> set own \<and> signals (cs ! w) = (case done of None \<Rightarrow> [] | Some b \<Rightarrow> [b]) \<and>
          (\<forall>i\<in>set own. i \<noteq> w \<longrightarrow> signals (cs ! i) \<noteq> []))"

definition connecting_inv :: "conn_env \<Rightarrow> connecting \<Rightarrow> bool" where
  "connecting_inv env s \<longleftrightarrow> consistent env (connections (connector_of s)) (node_connections (connector_of s)) (answers s)
     (opened s) (waiting_callers s) (handshake_done (connector_of s))"

lemma consistent_answer:
  "consistent env cs table ans own waiting done \<Longrightarrow> \<forall>i. r = Inr i \<longrightarrow> i < length cs \<and> signals (cs ! i) = [True] \<Longrightarrow>
    consistent env cs table (ans @ [(t, r)]) own waiting done"
  by (auto simp: consistent_def)

lemma consistent_table:
  assumes "consistent env cs table ans own waiting done" and "set table' \<subseteq> insert (peer, i) (set table)"
    and "i < length cs" and "signals (cs ! i) = [True]"
  shows "consistent env cs table' ans own waiting done"
  using assms unfolding consistent_def by blast

lemma consistent_less:
  assumes "consistent env cs table ans own waiting done" and "set table' \<subseteq> set table"
  shows "consistent env cs table' ans own waiting done"
  using assms unfolding consistent_def by blast

lemma consistent_more:
  assumes "consistent env cs table ans own waiting done" and "from_handshake env c"
  shows "consistent env (cs @ [c]) table ans own waiting done"
proof -
  have nth: "i < length cs \<Longrightarrow> (cs @ [c]) ! i = cs ! i" for i by (simp add: nth_append)
  show ?thesis
    using assms unfolding consistent_def
    by (cases waiting) (auto simp: nth split: prod.splits)
qed

lemma consistent_open:
  assumes "consistent env cs table ans own [] done" and "from_handshake env c" and "signals c = []"
  shows "consistent env (cs @ [c]) table ans (own @ [length cs]) [(t, peer, length cs)] done"
proof -
  have nth: "i < length cs \<Longrightarrow> (cs @ [c]) ! i = cs ! i" for i by (simp add: nth_append)
  show ?thesis using assms unfolding consistent_def by (auto simp: nth)
qed

lemma consistent_wake:
  "consistent env cs table ans own [(t, peer, i)] (Some b) \<Longrightarrow> consistent env cs table ans own [] None"
  by (auto simp: consistent_def)

lemma consistent_same:
  assumes "consistent env cs table ans own waiting done" and "i < length cs" and "from_handshake env c"
    and "signals c = signals (cs ! i)"
  shows "consistent env (cs[i := c]) table ans own waiting done"
proof -
  have nth: "signals (cs[i := c] ! j) = signals (cs ! j)" for j using assms(2,4) by (cases "j = i") simp_all
  have "\<forall>c\<in>set (cs[i := c]). from_handshake env c"
    using assms set_update_subset_insert [of cs i c] by (auto simp: consistent_def)
  then show ?thesis using assms(1) unfolding consistent_def nth by simp
qed

lemma consistent_signal:
  assumes "consistent env cs table ans own waiting done" and "i < length cs" and "from_handshake env c"
    and "signals (cs ! i) = []" and "signals c = [b]"
  shows "i \<in> set own \<Longrightarrow> consistent env (cs[i := c]) table ans own waiting (Some b)"
    and "i \<notin> set own \<Longrightarrow> consistent env (cs[i := c]) table ans own waiting done"
proof -
  have nth: "signals (cs ! j) \<noteq> [] \<Longrightarrow> cs[i := c] ! j = cs ! j" for j using assms(4) by (cases "j = i") simp_all
  have other: "j \<noteq> i \<Longrightarrow> cs[i := c] ! j = cs ! j" for j by simp
  have handshakes: "\<forall>c\<in>set (cs[i := c]). from_handshake env c"
    using assms set_update_subset_insert [of cs i c] by (auto simp: consistent_def)
  have table: "\<forall>(peer, j)\<in>set table. j < length cs \<and> signals (cs[i := c] ! j) = [True]"
    "\<forall>(t, r)\<in>set ans. \<forall>j. r = Inr j \<longrightarrow> j < length cs \<and> signals (cs[i := c] ! j) = [True]"
    using assms(1) nth unfolding consistent_def by (fastforce split: prod.splits)+
  show "consistent env (cs[i := c]) table ans own waiting (Some b)" if "i \<in> set own"
  proof (cases waiting)
    case Nil
    then show ?thesis using assms(1,4) that by (auto simp: consistent_def)
  next
    case (Cons x xs)
    obtain t peer w where x: "x = (t, peer, w)" by (cases x)
    then have "w = i" using assms(1,4) that Cons by (auto simp: consistent_def)
    then show ?thesis using assms(1,2,5) handshakes table Cons x other unfolding consistent_def by auto
  qed
  show "consistent env (cs[i := c]) table ans own waiting done" if "i \<notin> set own"
  proof -
    have "j \<in> set own \<Longrightarrow> cs[i := c] ! j = cs ! j" for j using that other by metis
    then show ?thesis using assms(1) handshakes table unfolding consistent_def
      by (cases waiting) (auto split: prod.splits)
  qed
qed

lemma set_map_insert: "set (map_insert k v m) \<subseteq> insert (k, v) (set m)"
  by (auto simp: map_insert_def split: if_splits)

lemma set_map_erase: "set (map_erase k m) \<subseteq> set m"
  by (auto simp: map_erase_def)

lemma inv_ask:
  assumes inv: "connecting_inv env s" and lone: "length (waiting_callers (ask env net own t peer s)) \<le> 1"
  shows "connecting_inv env (ask env net own t peer s)"
proof (cases "map_of (node_connections (connector_of s)) peer")
  case (Some i)
  then have "i < length (connections (connector_of s)) \<and> signals (connections (connector_of s) ! i) = [True]"
    using inv by (auto simp: connecting_inv_def consistent_def dest!: map_of_SomeD)
  then show ?thesis using Some inv consistent_answer [of env _ _ _ _ _ _ "Inr i"]
    by (simp add: ask_def answer_def connecting_inv_def)
next
  case None
  have refused: "connecting_inv env (answer t (Inl e) (s\<lparr>connector_of := connector_of s\<lparr>challenges_used := n\<rparr>\<rparr>))" for e n
    using inv consistent_answer [of env _ _ _ _ _ _ "Inl e"] by (simp add: answer_def connecting_inv_def)
  show ?thesis
  proof (cases "request_node_connection env net own peer")
    case (Inl e)
    then show ?thesis using None refused [of e "challenges_used (connector_of s)"] by (simp add: ask_def)
  next
    case (Inr c0)
    let ?ch = "net_challenge net (challenges_used (connector_of s) + 1)"
    obtain c x where c: "start_handshake_as_A env ?ch c0 = (c, x)" by (cases "start_handshake_as_A env ?ch c0")
    show ?thesis
    proof (cases x)
      case (Some e)
      then show ?thesis using None Inr c refused by (simp add: ask_def Let_def)
    next
      case x: None
      obtain short where "c0 = create_connection (Some short) own" using request_creates [OF Inr] by blast
      then have "handshake_start env ?ch c" using c unfolding handshake_start_def by (metis fst_conv)
      then have new: "from_handshake env c" "signals c = []" using from_handshake_start start_signals by blast+
      have "waiting_callers s = []" using lone None Inr c x by (simp add: ask_def Let_def)
      then show ?thesis using None Inr c x inv consistent_open [OF _ new]
        by (simp add: ask_def Let_def connecting_inv_def)
    qed
  qed
qed

lemma inv_wake:
  assumes inv: "connecting_inv env s" and "caller \<in> set (waiting_callers s)" and "handshake_done (connector_of s) = Some b"
  shows "connecting_inv env (wake caller b s)"
proof -
  obtain t peer i where caller: "caller = (t, peer, i)" by (cases caller)
  then have w: "waiting_callers s = [(t, peer, i)]"
    using assms(1,2) by (cases "waiting_callers s") (auto simp: connecting_inv_def consistent_def)
  then have c: "consistent env (connections (connector_of s)) (node_connections (connector_of s)) (answers s) (opened s) [] None"
    using inv consistent_wake assms(3) by (simp add: connecting_inv_def)
  show ?thesis
  proof (cases b)
    case True
    then have i: "i < length (connections (connector_of s))" "signals (connections (connector_of s) ! i) = [True]"
      using inv w assms(3) by (auto simp: connecting_inv_def consistent_def)
    then show ?thesis using True caller w
        consistent_answer [OF consistent_table [OF c set_map_insert i], where r = "Inr i" and t = t]
      by (simp add: wake_def Let_def answer_def connecting_inv_def)
  next
    case False
    then show ?thesis using caller w consistent_answer [OF c, where t = t]
      by (simp add: wake_def Let_def answer_def connecting_inv_def)
  qed
qed

lemma inv_report_accepted:
  assumes "connecting_inv env s" and "i \<notin> set (opened s)" and "i < length (connections (connector_of s))"
    and "signals (connections (connector_of s) ! i) = [b]"
  shows "connecting_inv env (report i b s)"
  using assms consistent_table [OF _ set_map_insert assms(3)]
  by (auto simp: report_def handshake_success_as_B_def connecting_inv_def trigger_accept_def split: sum.split)

lemma inv_happens:
  assumes inv: "connecting_inv env s" and i: "i < length (connections (connector_of s))"
    and step: "conn_step env (connections (connector_of s) ! i) e c"
  shows "connecting_inv env (happens i c s)"
proof -
  let ?c = "connections (connector_of s) ! i"
  let ?s = "s\<lparr>connector_of := connector_of s\<lparr>connections := (connections (connector_of s))[i := c]\<rparr>\<rparr>"
  have h: "from_handshake env ?c" using inv i by (simp add: connecting_inv_def consistent_def)
  note h' = from_handshake_step [OF h step]
  from step_new_signals [OF from_handshake_outcome [OF h] step] show ?thesis
  proof
    assume "new_signals ?c c = [] \<and> signals c = signals ?c"
    then show ?thesis using inv consistent_same [OF _ i h'] by (simp add: happens_def Let_def connecting_inv_def)
  next
    assume "signals ?c = [] \<and> (\<exists>b. new_signals ?c c = [b] \<and> signals c = [b])"
    then obtain b where b: "signals ?c = []" "new_signals ?c c = [b]" "signals c = [b]" by blast
    show ?thesis
    proof (cases "i \<in> set (opened s)")
      case True
      then show ?thesis using inv consistent_signal(1) [OF _ i h' b(1,3)] b(2)
        by (simp add: happens_def Let_def report_def handshake_success_def connecting_inv_def)
    next
      case False
      then have "connecting_inv env ?s" using inv consistent_signal(2) [OF _ i h' b(1,3)] by (simp add: connecting_inv_def)
      from inv_report_accepted [OF this, of i b] show ?thesis using False i b by (simp add: happens_def Let_def)
    qed
  qed
qed

lemma inv_step:
  assumes "connecting_inv env s" and "connecting_step env net own s e s'" and "length (waiting_callers s') \<le> 1"
  shows "connecting_inv env s'"
  using assms(2)
proof cases
  case (asks t peer)
  then show ?thesis using inv_ask assms(1,3) by simp
next
  case (wakes caller b)
  then show ?thesis using inv_wake [OF assms(1)] by simp
next
  case (completes i e c)
  then show ?thesis using inv_happens [OF assms(1)] by simp
next
  case (accepts failed)
  have "from_handshake env (start_handshake_as_B ch (create_connection None own))" for ch
    by (rule from_handshake_start) (auto simp: handshake_start_def)
  then show ?thesis using accepts assms(1) consistent_more
    by (auto simp: handle_accept_def Let_def connecting_inv_def trigger_accept_def)
next
  case (drops node)
  then show ?thesis using assms(1) consistent_less [OF _ set_map_erase]
    by (simp add: drop_connection_to_def connecting_inv_def)
qed

lemma lone_inv: "lone_run env net own es s \<Longrightarrow> connecting_inv env s"
proof (induction rule: lone_run.induct)
  case start
  show ?case by (simp add: connecting_inv_def consistent_def new_connecting_def new_connector_def)
qed (use inv_step in blast)

text \<open>A run with a single call is one in which nobody waits beside another.\<close>

fun calls_in :: "connecting_event \<Rightarrow> nat" where
  "calls_in (Ask t peer) = 1" | "calls_in _ = 0"

lemma fold_report_waiting [simp]: "waiting_callers (fold (report i) bs s) = waiting_callers s"
  by (induction bs arbitrary: s) (simp_all add: report_def)

lemma waiting_step:
  assumes "connecting_step env net own s e s'"
  shows "length (waiting_callers s') \<le> length (waiting_callers s) + calls_in e"
  using assms
proof cases
  case (asks t peer)
  then show ?thesis
    by (auto simp: ask_def answer_def Let_def split: option.splits sum.splits prod.splits)
next
  case (wakes caller b)
  then show ?thesis using length_remove1 [of caller "waiting_callers s"]
    by (cases caller) (auto simp: wake_def answer_def Let_def)
qed (simp_all add: happens_def Let_def)

lemma single_call_lone:
  "connecting_run env net own es s \<Longrightarrow> length (waiting_callers s) \<le> sum_list (map calls_in es) \<and>
    (sum_list (map calls_in es) \<le> 1 \<longrightarrow> lone_run env net own es s)"
proof (induction rule: connecting_run.induct)
  case start
  have "waiting_callers new_connecting = []" by (simp add: new_connecting_def)
  then show ?case using lone_run.start by simp
next
  case (snoc es s e s')
  then show ?case using waiting_step [OF snoc.hyps(2)] by (auto intro: lone_run.snoc)
qed

section \<open>Two callers\<close>

text \<open>The operations of one connection, one after the other, while callers wait.\<close>

lemma connection_runs:
  assumes "conn_run env c es c'" and "connecting_run env net own es0 s" and "i < length (connections (connector_of s))"
    and "connections (connector_of s) ! i = c" and "from_handshake env c" and "i \<in> set (opened s)"
  shows "connecting_run env net own (es0 @ map (Happens i) es)
    (s\<lparr>connector_of := connector_of s\<lparr>connections := (connections (connector_of s))[i := c'],
       handshake_done := (if signals c' = signals c then handshake_done (connector_of s) else Some (last (signals c')))\<rparr>\<rparr>)"
  using assms
proof (induction rule: conn_run.induct)
  case (start c)
  then have "(connections (connector_of s))[i := c] = connections (connector_of s)" by auto
  with start show ?case by simp
next
  case (snoc c es c' e c'')
  let ?at = "\<lambda>c'. s\<lparr>connector_of := connector_of s\<lparr>connections := (connections (connector_of s))[i := c'],
       handshake_done := (if signals c' = signals c then handshake_done (connector_of s) else Some (last (signals c')))\<rparr>\<rparr>"
  have run: "connecting_run env net own (es0 @ map (Happens i) es) (?at c')" using snoc.IH [OF snoc.prems] .
  have h: "outcome c" "outcome c'"
    using from_handshake_outcome [OF snoc.prems(4)] run_outcome [OF snoc.hyps(1)] by blast+
  have nth: "connections (connector_of (?at c')) ! i = c'" using snoc.prems(2) by simp
  have "connecting_step env net own (?at c') (Happens i e) (happens i c'' (?at c'))"
    by (rule connecting_step.completes) (use snoc.hyps(2) nth snoc.prems(2) in simp_all)
  moreover have "happens i c'' (?at c') = ?at c''"
  proof -
    have grows: "signals c' = signals c" if "signals c \<noteq> []"
      using snoc.hyps(1) h(1) that
    proof (induction rule: conn_run.induct)
      case (snoc c es c' e c'')
      then show ?case using outcome_step(2) [OF run_outcome [OF snoc.hyps(1)] snoc.hyps(2)] by simp
    qed simp
    from step_new_signals [OF h(2) snoc.hyps(2)] show ?thesis
    proof
      assume "new_signals c' c'' = [] \<and> signals c'' = signals c'"
      then show ?thesis using nth by (simp add: happens_def Let_def)
    next
      assume b: "signals c' = [] \<and> (\<exists>b. new_signals c' c'' = [b] \<and> signals c'' = [b])"
      then have "signals c = []" using grows by force
      then show ?thesis using b nth snoc.prems(5)
        by (auto simp: happens_def Let_def report_def handshake_success_def)
    qed
  qed
  ultimately show ?case using connecting_run.snoc [OF run] by simp
qed

text \<open>\<open>ask\<close> where a new connection is opened.\<close>

lemma ask_opens:
  assumes "map_of (node_connections (connector_of s)) peer = None" and "request_node_connection env net own peer = Inr c0"
    and "start_handshake_as_A env (net_challenge net (challenges_used (connector_of s) + 1)) c0 = (c, None)"
  shows "ask env net own t peer s =
    s\<lparr>connector_of := connector_of s\<lparr>challenges_used := challenges_used (connector_of s) + 1,
           connections := connections (connector_of s) @ [c]\<rparr>,
      opened := opened s @ [length (connections (connector_of s))],
      waiting_callers := waiting_callers s @ [(t, peer, length (connections (connector_of s)))]\<rparr>"
  using assms by (simp add: ask_def Let_def)

lemma request_starts:
  assumes "request_node_connection env net own peer = Inr c0" and "start_handshake_as_A env challenge c0 = (c, x)"
  shows "handshake_start env challenge c" and "from_handshake env c" and "signals c = []"
proof -
  obtain short where "c0 = create_connection (Some short) own" using request_creates [OF assms(1)] by blast
  then show "handshake_start env challenge c" using assms(2) unfolding handshake_start_def by (metis fst_conv)
  then show "from_handshake env c" and "signals c = []" using from_handshake_start start_signals by blast+
qed

text \<open>
  A call that nobody disturbs is the \<open>get_connection_to\<close> of \<open>Connector\<close>, where the network is asked at once for
  what the handshake came to: they answer the same, and leave the same connector, in which the
  step model also keeps the connections that failed.
\<close>

lemma lone_call:
  assumes run: "connecting_run env net own es0 s" and free: "waiting_callers s = []" "handshake_done (connector_of s) = None"
    and none: "map_of (node_connections (connector_of s)) peer = None"
    and c0: "request_node_connection env net own peer = Inr c0"
    and c: "start_handshake_as_A env (net_challenge net (challenges_used (connector_of s) + 1)) c0 = (c, None)"
    and es: "conn_run env c es c'" "signals c' = [b]" and net: "net_handshake net c = Some (b, c')"
  shows "\<exists>r k s'. get_connection_to env net own peer (connector_of s) = Some (r, k) \<and>
    connecting_run env net own (es0 @ [Ask t peer] @ map (Happens (length (connections (connector_of s)))) es @
      [Wake (t, peer, length (connections (connector_of s)))]) s' \<and>
    answers s' = answers s @ [(t, r)] \<and> waiting_callers s' = [] \<and>
    connector_of s' = (if b then k else k\<lparr>connections := connections k @ [c']\<rparr>)"
proof -
  let ?i = "length (connections (connector_of s))"
  let ?s1 = "ask env net own t peer s"
  note s1 = ask_opens [OF none c0 c, of t]
  note started = request_starts [OF c0 c]
  have asked: "connecting_run env net own (es0 @ [Ask t peer]) ?s1"
    by (rule connecting_run.snoc [OF run connecting_step.asks]) (simp add: free)
  let ?s2 = "?s1\<lparr>connector_of := connector_of ?s1\<lparr>connections := (connections (connector_of ?s1))[?i := c'],
     handshake_done := Some b\<rparr>\<rparr>"
  have ran: "connecting_run env net own ((es0 @ [Ask t peer]) @ map (Happens ?i) es) ?s2"
    using connection_runs [OF es(1) asked, of ?i] s1 started(2,3) es(2) by simp
  let ?s3 = "wake (t, peer, ?i) b ?s2"
  have woken: "connecting_run env net own (((es0 @ [Ask t peer]) @ map (Happens ?i) es) @ [Wake (t, peer, ?i)]) ?s3"
    by (rule connecting_run.snoc [OF ran]) (rule connecting_step.wakes; simp add: s1 free)
  let ?k = "(connector_of s)\<lparr>challenges_used := challenges_used (connector_of s) + 1, handshake_done := None\<rparr>"
  let ?x = "if b then (Inr ?i, ?k\<lparr>connections := connections (connector_of s) @ [c'],
        node_connections := map_insert peer ?i (node_connections (connector_of s))\<rparr>)
      else (Inl (Tinch_pp_exception (''Failed to connect to the node = '' @ peer)), ?k)"
  have "get_connection_to env net own peer (connector_of s) = Some (fst ?x, snd ?x)"
    using none c0 c free net by (simp add: get_connection_to_def make_new_connection_def Let_def)
  moreover have "answers ?s3 = answers s @ [(t, fst ?x)]" "waiting_callers ?s3 = []"
    by (simp_all add: wake_def Let_def answer_def s1 free)
  moreover have "connector_of ?s3 = (if b then snd ?x else snd ?x\<lparr>connections := connections (snd ?x) @ [c']\<rparr>)"
    by (simp add: wake_def Let_def answer_def s1 free)
  ultimately show ?thesis using woken unfolding append_assoc by blast
qed

lemma asks_new:
  assumes run: "connecting_run env net own es s" and "request_node_connection env net own peer = Inr c0"
    and "t \<notin> fst ` set (waiting_callers s)" and "map_of (node_connections (connector_of s)) peer = None"
    and "spirit (env_platform env)" and "own \<noteq> []" and "length own + 7 < 2 ^ 16"
  shows "\<exists>s' short challenge c. connecting_run env net own (es @ [Ask t peer]) s' \<and> c0 = create_connection (Some short) own \<and>
    c = fst (start_handshake_as_A env challenge c0) \<and>
    connections (connector_of s') = connections (connector_of s) @ [c] \<and> opened s' = opened s @ [length (connections (connector_of s))] \<and>
    waiting_callers s' = waiting_callers s @ [(t, peer, length (connections (connector_of s)))] \<and>
    node_connections (connector_of s') = node_connections (connector_of s) \<and>
    handshake_done (connector_of s') = handshake_done (connector_of s)"
proof -
  obtain short where c0: "c0 = create_connection (Some short) own" using request_creates [OF assms(2)] by blast
  obtain m where "generate (send_name (env_platform env)) own = Inr m"
    using spirit.name_roundtrip [OF assms(5-7)] by blast
  then have "snd (start_handshake_as_A env ch c0) = None" for ch
    using c0 by (simp add: start_handshake_as_A_def Let_def initiate_handshake_def write_generated_def create_connection_def)
  then obtain c where c: "start_handshake_as_A env (net_challenge net (challenges_used (connector_of s) + 1)) c0 = (c, None)"
    by (metis prod.collapse)
  with ask_opens [OF assms(4,2) c, of t] show ?thesis
    using connecting_run.snoc [OF run connecting_step.asks [OF assms(3), of env net own peer]] c0
    by (intro exI [of _ "ask env net own t peer s"] exI [of _ short]
        exI [of _ "net_challenge net (challenges_used (connector_of s) + 1)"] exI [of _ c]) simp
qed

text \<open>A network for the examples, in which two peers can be reached.\<close>

definition sample_conn_env :: conn_env where
  "sample_conn_env = \<lparr>env_platform = documented_platform, env_garbage = replicate 64 2, env_cookie = ''c''\<rparr>"

definition sample_network :: network where
  "sample_network =
     \<lparr>net_epmd = (\<lambda>_. \<lparr>sock_endpoints = Inr [True], sock_write_error = False, sock_read = Some (119 # 0 # be16_bytes 4001 @ [7])\<rparr>),
      net_endpoints = (\<lambda>_ _. Inr [True]), net_handshake = (\<lambda>_. None), net_challenge = of_nat\<rparr>"

lemma sample_requests:
  "request_node_connection sample_conn_env sample_network ''a@h'' ''b@h'' = Inr (create_connection (Some ''b'') ''a@h'')"
  "request_node_connection sample_conn_env sample_network ''a@h'' ''d@h'' = Inr (create_connection (Some ''d'') ''a@h'')"
  "spirit (env_platform sample_conn_env)" "length (env_garbage sample_conn_env) = 64"
proof -
  have split: "split_node_name ''b@h'' = Inr (''b'', ''h'')" "split_node_name ''d@h'' = Inr (''d'', ''h'')"
    by (simp_all add: split_node_name_def node_char_def word_char_def char_between_def byte_of_def)
  have port: "port_please2_request documented_platform ''h'' (net_epmd sample_network ''h'') peer = Inr 4001" for peer
    using doc.port_answer [of "net_epmd sample_network ''h''" "[True]" 0 4001 "[7]" "''h''" peer]
    by (simp add: sample_network_def)
  have conn: "connect_socket documented_platform (net_endpoints sample_network ''h'' 4001) ''h'' 4001 = Inr ()"
    by (simp add: connect_socket_iff sample_network_def)
  show "request_node_connection sample_conn_env sample_network ''a@h'' ''b@h'' = Inr (create_connection (Some ''b'') ''a@h'')"
    "request_node_connection sample_conn_env sample_network ''a@h'' ''d@h'' = Inr (create_connection (Some ''d'') ''a@h'')"
    using port conn split
    by (simp_all add: request_node_connection_def node_host_def node_name_of_def sample_conn_env_def)
qed (simp_all add: sample_conn_env_def doc.spirit_axioms)

lemma completes_somehow:
  assumes "spirit (env_platform env)" and "length (env_garbage env) = 64" and "own \<noteq> []" and "length own \<le> 100"
  shows "\<exists>es c. conn_run env (fst (start_handshake_as_A env challenge (create_connection (Some short) own))) es c \<and> signals c = [True]"
proof (cases env)
  case (fields pf g cookie)
  then have "spirit pf" "length g = 64" using assms(1,2) by simp_all
  from honest_exchange [OF this, of "replicate 64 0" own "''b''" cookie challenge short 0] assms(3,4) fields
  show ?thesis by simp blast
qed

section \<open>Properties\<close>

text \<open>C18. A handshake has one outcome. In every run, in either role and against any peer, at most one read is
  outstanding, which the single read buffer of a connection relies on, and the lexer for connected nodes is in
  use exactly in the connected state. The result is signalled at most once: success exactly when the
  connection becomes connected, and after a failure the connection never changes again.\<close>

theorem one_outcome:
  assumes "handshake_start env challenge c0" and "conn_run env c0 es c"
  shows "length (pending_reads c) \<le> 1 \<and> (current_lexer c = Connected_msgs \<longleftrightarrow> conn_state c = Connected) \<and>
    (signals c = [] \<or> signals c = [True] \<or> signals c = [False]) \<and> (signals c = [True] \<longleftrightarrow> conn_state c = Connected) \<and>
    (signals c = [False] \<longrightarrow> (\<forall>es' c'. conn_run env c es' c' \<longrightarrow> c' = c))"
proof -
  have o: "outcome c" using run_outcome [OF assms(2) start_outcome [OF assms(1)]] .
  moreover have "one_at_a_time c" using run_one_at_a_time [OF assms(2) start_one_at_a_time [OF assms(1)]] .
  ultimately show ?thesis using dead_run
    by (auto simp: outcome_def undecided_def one_at_a_time_def shaking_def talking_def dead_def)
qed

theorem one_outcome_witness:
  "\<exists>es c. conn_run \<lparr>env_platform = documented_platform, env_garbage = replicate 64 2, env_cookie = ''c''\<rparr>
      (fst (start_handshake_as_A \<lparr>env_platform = documented_platform, env_garbage = replicate 64 2, env_cookie = ''c''\<rparr> 7 (create_connection (Some ''b'') ''a@h''))) es c \<and>
    signals c = [True] \<and> conn_state c = Connected \<and> length (pending_reads c) \<le> 1"
proof -
  let ?env = "\<lparr>env_platform = documented_platform, env_garbage = replicate 64 2, env_cookie = ''c''\<rparr>"
  let ?c0 = "fst (start_handshake_as_A ?env 7 (create_connection (Some ''b'') ''a@h''))"
  obtain es c where r: "conn_run ?env ?c0 es c" "signals c = [True]"
    using completes_somehow [of ?env "''a@h''" 7 "''b''"] by (auto simp: doc.spirit_axioms)
  have "handshake_start ?env 7 ?c0" by (auto simp: handshake_start_def)
  from one_outcome [OF this r(1)] r show ?thesis by blast
qed

text \<open>C25. With one caller at a time the connector can be trusted: in every run in which no two threads wait for
  a handshake at once, whatever peers and the network do, a connection that is registered under a name or
  handed to a caller is connected, and has read a message that carries the digest of its own
  challenge with its own cookie.\<close>

theorem lone_caller_is_safe:
  assumes "spirit (env_platform env)" and "lone_run env net own es s"
    and "(peer, i) \<in> set (node_connections (connector_of s)) \<or> (t, Inr i) \<in> set (answers s)"
  shows "\<exists>challenge c0 es' pre m post. handshake_start env challenge c0 \<and>
    conn_run env c0 es' (connections (connector_of s) ! i) \<and> conn_state (connections (connector_of s) ! i) = Connected \<and>
    concat (map bytes_read es') = pre @ m @ post \<and> proves env challenge m"
proof -
  let ?c = "connections (connector_of s) ! i"
  have i: "i < length (connections (connector_of s))" "signals ?c = [True]" "from_handshake env ?c"
    using lone_inv [OF assms(2)] assms(3) by (auto simp: connecting_inv_def consistent_def)
  then have c: "conn_state ?c = Connected"
    using from_handshake_outcome [OF i(3)] by (auto simp: outcome_def undecided_def talking_def)
  obtain challenge c0 es' where h: "handshake_start env challenge c0" "conn_run env c0 es' ?c"
    using i(3) by (auto simp: from_handshake_def)
  with c connected_has_proof [OF assms(1) h c] show ?thesis by blast
qed

theorem lone_caller_is_safe_witness:
  "\<exists>es s challenge c0 es' pre m post. lone_run sample_conn_env sample_network ''a@h'' es s \<and> (1, Inr 0) \<in> set (answers s) \<and>
    handshake_start sample_conn_env challenge c0 \<and>
    conn_run sample_conn_env c0 es' (connections (connector_of s) ! 0) \<and> conn_state (connections (connector_of s) ! 0) = Connected \<and>
    concat (map bytes_read es') = pre @ m @ post \<and> proves sample_conn_env challenge m"
proof -
  obtain s0 short challenge c where s0: "connecting_run sample_conn_env sample_network ''a@h'' ([] @ [Ask 1 ''b@h'']) s0"
    "c = fst (start_handshake_as_A sample_conn_env challenge (create_connection (Some short) ''a@h''))"
    "connections (connector_of s0) = [c]" "opened s0 = [0]" "waiting_callers s0 = [(1, ''b@h'', 0)]"
    "node_connections (connector_of s0) = []" "handshake_done (connector_of s0) = None"
    using asks_new [OF connecting_run.start sample_requests(1), of 1] sample_requests
    by (auto simp: new_connecting_def new_connector_def)
  have "handshake_start sample_conn_env challenge c" using s0(2) by (auto simp: handshake_start_def)
  then have "from_handshake sample_conn_env c" "signals c = []" using from_handshake_start start_signals by blast+
  obtain es' c' where c': "conn_run sample_conn_env c es' c'" "signals c' = [True]"
    using completes_somehow [of sample_conn_env "''a@h''" challenge short] s0(2) sample_requests(3,4) by auto
  obtain s1 where s1: "connecting_run sample_conn_env sample_network ''a@h'' (([] @ [Ask 1 ''b@h'']) @ map (Happens 0) es') s1"
    "connections (connector_of s1) = [c']" "waiting_callers s1 = [(1, ''b@h'', 0)]" "handshake_done (connector_of s1) = Some True"
    using connection_runs [OF c'(1) s0(1), of 0] s0 c'(2) \<open>from_handshake sample_conn_env c\<close> \<open>signals c = []\<close> by auto
  let ?s = "wake (1, ''b@h'', 0) True s1" and ?es = "(([] @ [Ask 1 ''b@h'']) @ map (Happens 0) es') @ [Wake (1, ''b@h'', 0)]"
  have "connecting_run sample_conn_env sample_network ''a@h'' ?es ?s"
    by (rule connecting_run.snoc [OF s1(1)]) (rule connecting_step.wakes; simp add: s1)
  moreover have "sum_list (map calls_in ?es) \<le> 1" by (simp add: comp_def)
  ultimately have run: "lone_run sample_conn_env sample_network ''a@h'' ?es ?s" using single_call_lone by blast
  have "(1, Inr 0) \<in> set (answers ?s)" by (simp add: wake_def Let_def answer_def)
  with run lone_caller_is_safe [OF sample_requests(3) run, of _ 0 1] show ?thesis by blast
qed

text \<open>C26. Two callers at once: a caller that waits for its handshake takes the outcome of another one's. Whenever
  two peers can be reached, there is a run in which a thread is handed, and the connector registers,
  a connection whose handshake is not done and whose peer has proved nothing; whatever is requested of
  it is silently dropped.\<close>

theorem outcome_of_another:
  assumes "spirit (env_platform env)" and "length (env_garbage env) = 64" and "own \<noteq> []" and "length own \<le> 100"
    and "request_node_connection env net own p1 = Inr c1" and "request_node_connection env net own p2 = Inr c2" and "p1 \<noteq> p2"
  shows "\<exists>es s. connecting_run env net own es s \<and> (1, Inr 0) \<in> set (answers s) \<and>
    map_of (node_connections (connector_of s)) p1 = Some 0 \<and> conn_state (connections (connector_of s) ! 0) \<noteq> Connected \<and>
    (\<forall>msg. request env msg (connections (connector_of s) ! 0) = connections (connector_of s) ! 0)"
proof -
  have own: "length own + 7 < 2 ^ 16" using assms(4) by simp
  obtain s1 short1 ch1 k1 where s1: "connecting_run env net own ([] @ [Ask 1 p1]) s1" "c1 = create_connection (Some short1) own"
    "k1 = fst (start_handshake_as_A env ch1 c1)" "connections (connector_of s1) = [k1]" "opened s1 = [0]"
    "waiting_callers s1 = [(1, p1, 0)]" "node_connections (connector_of s1) = []" "handshake_done (connector_of s1) = None"
    using asks_new [OF connecting_run.start assms(5), of 1] assms(1,3) own by (auto simp: new_connecting_def new_connector_def)
  obtain s2 short2 ch2 k2 where s2: "connecting_run env net own (([] @ [Ask 1 p1]) @ [Ask 2 p2]) s2" "c2 = create_connection (Some short2) own"
    "k2 = fst (start_handshake_as_A env ch2 c2)" "connections (connector_of s2) = [k1, k2]" "opened s2 = [0, 1]"
    "waiting_callers s2 = [(1, p1, 0), (2, p2, 1)]" "node_connections (connector_of s2) = []" "handshake_done (connector_of s2) = None"
    using asks_new [OF s1(1) assms(6), of 2] s1 assms(1,3) own by auto
  have h: "handshake_start env ch1 k1" "handshake_start env ch2 k2" using s1(2,3) s2(2,3) by (auto simp: handshake_start_def)
  obtain es c where c: "conn_run env k2 es c" "signals c = [True]"
    using completes_somehow [OF assms(1-4), of ch2 short2] s2(2,3) by blast
  obtain s3 where s3: "connecting_run env net own ((([] @ [Ask 1 p1]) @ [Ask 2 p2]) @ map (Happens 1) es) s3"
    "connections (connector_of s3) = [k1, c]" "waiting_callers s3 = [(1, p1, 0), (2, p2, 1)]"
    "node_connections (connector_of s3) = []" "handshake_done (connector_of s3) = Some True"
    using connection_runs [OF c(1) s2(1), of 1] s2 from_handshake_start [OF h(2)] start_signals [OF h(2)] c(2) by auto
  have w: "connecting_step env net own s3 (Wake (1, p1, 0)) (wake (1, p1, 0) True s3)"
    by (rule connecting_step.wakes) (simp_all add: s3)
  have k1: "conn_state k1 \<noteq> Connected"
    using start_outcome [OF h(1)] start_signals [OF h(1)] by (auto simp: outcome_def undecided_def)
  show ?thesis
    using connecting_run.snoc [OF s3(1) w] k1 s3
    by (intro exI conjI) (assumption | simp add: wake_def Let_def answer_def map_of_insert request_def)+
qed

theorem outcome_of_another_witness:
  "\<exists>es s. connecting_run sample_conn_env sample_network ''a@h'' es s \<and> (1, Inr 0) \<in> set (answers s) \<and>
    map_of (node_connections (connector_of s)) ''b@h'' = Some 0 \<and> conn_state (connections (connector_of s) ! 0) \<noteq> Connected \<and>
    (\<forall>msg. request sample_conn_env msg (connections (connector_of s) ! 0) = connections (connector_of s) ! 0)"
  by (rule outcome_of_another [OF _ _ _ _ sample_requests(1,2)]) (simp_all add: sample_requests)

end
