(* ===== verification/Pattern_Objects.thy ===== *)
theory Pattern_Objects
  imports Pattern_Spec
begin

text \<open>
  Patterns as objects. \<open>Terms\<close> describes one match; a pattern is an object, though, and an \<open>any\<close> in it
  has state that outlives a match: \<open>matched_raw_bytes\<close> collects what it has matched and is never
  cleared, and \<open>to_assign\<close> is a pointer, to the client's matchable or to the \<open>placeholder\<close> of an \<open>any\<close>, which a
  copy of that \<open>any\<close> shares (\<open>tinch_pp/erl_any.h\<close>, \<open>impl/erl_any.cpp\<close>). Here an object is matched and returned as
  the match has left it; \<open>match_obj\<close> of \<open>Terms\<close> is the same code with that state left out, for patterns that are
  written where they are used. A pattern that is used for the first time, or whose wildcards are elements of lists of
  values, matches as \<open>spec_match\<close> says; a pattern that is used again, or that outlives the \<open>any\<close> it was built
  from, does not.
\<close>

section \<open>Pattern objects\<close>

text \<open>The pointer \<open>to_assign\<close>: a variable of the client, or the placeholder of the \<open>any\<close> at an address.\<close>

datatype target = To_variable nat | To_placeholder nat

text \<open>
  A tuple contains its elements. A list copies its elements for each match (\<open>self->value()\<close>), which
  matters for elements held by value and not for those held by pointer. Everything without a wildcard has no
  state and is \<open>Plain\<close>; an object such as \<open>int_(a)\<close>, which hands what it matches to an \<open>any\<close> \<open>a\<close> elsewhere, counts as plain too.
\<close>

datatype pattern_object =
    Plain obj
  | Any_object target msg_seq
  | Tuple_object "pattern_object list"
  | Value_list "pattern_object list"
  | Pointer_list "pattern_object list"

text \<open>The constructors of \<open>any\<close>, at an address, and its implicit copy constructor.\<close>

definition default_any :: "nat \<Rightarrow> pattern_object" where
  "default_any address = Any_object (To_placeholder address) []"

definition assigning_any :: "nat \<Rightarrow> pattern_object" where
  "assigning_any x = Any_object (To_variable x) []"

text \<open>\<open>to_assign->reset\<close>; the placeholder must still exist, \<open>alive\<close> being the addresses at which an \<open>any\<close> lives.\<close>

definition reset_target :: "nat list \<Rightarrow> target \<Rightarrow> msg_seq \<Rightarrow> writes result" where
  "reset_target alive to bytes =
     (case to of
        To_variable x \<Rightarrow> Inr [(x, Bound_matchable bytes)]
      | To_placeholder a \<Rightarrow> if a \<in> set alive then Inr [] else Inl Undefined_behaviour)"

fun match_object :: "platform \<Rightarrow> nat list \<Rightarrow> pattern_object \<Rightarrow> msg_seq \<Rightarrow> (match_outcome \<times> pattern_object) result"
and match_objects ::
  "platform \<Rightarrow> nat list \<Rightarrow> pattern_object list \<Rightarrow> msg_seq \<Rightarrow> (match_outcome \<times> pattern_object list) result" where
  "match_object pf alive (Plain p) s = and_then (match_obj pf p s) (\<lambda>r. Inr (r, Plain p))"
| "match_object pf alive (Any_object to saved) s =
     and_then (any_match pf (Suc (length s)) s saved) (\<lambda>(ok, s', saved').
       and_then (reset_target alive to saved') (\<lambda>w. Inr ((ok, s', w), Any_object to saved')))"
| "match_object pf alive (Tuple_object os) s =
     (case small_tuple_head_ext pf s of
        None \<Rightarrow> Inr ((False, s, []), Tuple_object os)
      | Some (parsed_length, s') \<Rightarrow>
          if length os = parsed_length
          then and_then (match_objects pf alive os s') (\<lambda>(r, os'). Inr (r, Tuple_object os'))
          else Inr ((False, s', []), Tuple_object os))"
| "match_object pf alive (Value_list os) s =
     (case list_head_ext pf s of
        None \<Rightarrow> Inr ((False, skip_nil pf s, []), Value_list os)
      | Some (parsed_length, s') \<Rightarrow>
          if length os = parsed_length
          then and_then (match_objects pf alive os s') (\<lambda>((ok, s'', w), os'). Inr ((ok, skip_nil pf s'', w), Value_list os))
          else Inr ((False, skip_nil pf s', []), Value_list os))"
| "match_object pf alive (Pointer_list os) s =
     (case list_head_ext pf s of
        None \<Rightarrow> Inr ((False, skip_nil pf s, []), Pointer_list os)
      | Some (parsed_length, s') \<Rightarrow>
          if length os = parsed_length
          then and_then (match_objects pf alive os s') (\<lambda>((ok, s'', w), os'). Inr ((ok, skip_nil pf s'', w), Pointer_list os'))
          else Inr ((False, skip_nil pf s', []), Pointer_list os))"
| "match_objects pf alive [] s = Inr ((True, s, []), [])"
| "match_objects pf alive (p # ps) s =
     and_then (match_object pf alive p s) (\<lambda>((ok, s', w), p').
       if ok then and_then (match_objects pf alive ps s') (\<lambda>((ok', s'', w'), ps'). Inr ((ok', s'', w @ w'), p' # ps'))
       else Inr ((False, s', w), p' # ps))"

text \<open>\<open>matchable_seq::match\<close> of one message after the other with the same pattern object, as a receive loop does.\<close>

fun match_in_turn ::
  "platform \<Rightarrow> nat list \<Rightarrow> pattern_object \<Rightarrow> msg_seq list \<Rightarrow> ((bool \<times> writes) list \<times> pattern_object) result" where
  "match_in_turn pf alive p [] = Inr ([], p)"
| "match_in_turn pf alive p (m # ms) =
     and_then (match_object pf alive p m) (\<lambda>((ok, _, w), p').
       and_then (match_in_turn pf alive p' ms) (\<lambda>(rs, p''). Inr ((ok, w) # rs, p'')))"

section \<open>A pattern that has not been used\<close>

fun pattern_of :: "pattern_object \<Rightarrow> obj" where
  "pattern_of (Plain p) = p"
| "pattern_of (Any_object to saved) = Any (case to of To_variable x \<Rightarrow> Some x | To_placeholder a \<Rightarrow> None)"
| "pattern_of (Tuple_object os) = E_tuple (map pattern_of os)"
| "pattern_of (Value_list os) = E_list (map pattern_of os)"
| "pattern_of (Pointer_list os) = E_list (map pattern_of os)"

fun unused :: "nat list \<Rightarrow> pattern_object \<Rightarrow> bool" where
  "unused alive (Plain p) = (\<not> has_any p)"
| "unused alive (Any_object to saved) = (saved = [] \<and> (\<forall>a. to = To_placeholder a \<longrightarrow> a \<in> set alive))"
| "unused alive (Tuple_object os) = (\<forall>p\<in>set os. unused alive p)"
| "unused alive (Value_list os) = (\<forall>p\<in>set os. unused alive p)"
| "unused alive (Pointer_list os) = (\<forall>p\<in>set os. unused alive p)"

abbreviation outcome_of :: "('a \<times> 'b) result \<Rightarrow> 'a result" where
  "outcome_of r \<equiv> and_then r (\<lambda>x. Inr (fst x))"

lemma and_then_cong: "m = m' \<Longrightarrow> (\<And>x. m' = Inr x \<Longrightarrow> k x = k' x) \<Longrightarrow> and_then m k = and_then m' k'"
  by (cases m') auto

lemma and_then_Inr_id [simp]: "and_then m Inr = m"
  by (cases m) auto

lemma unused_match:
  "unused alive p \<Longrightarrow> match_obj pf (pattern_of p) s = outcome_of (match_object pf alive p s)"
  "(\<forall>p\<in>set ps. unused alive p) \<Longrightarrow> match_all pf (map pattern_of ps) s = outcome_of (match_objects pf alive ps s)"
proof (induction pf alive p s and pf alive ps s rule: match_object_match_objects.induct)
  case (2 pf alive to saved s)
  then show ?case by (auto simp: chain reset_target_def split: target.splits intro!: and_then_cong simp del: any_match.simps)
next
  case (7 pf alive p ps s)
  show ?case
  proof (cases "match_object pf alive p s")
    case (Inr x)
    obtain ok s' w p' where "x = ((ok, s', w), p')" by (cases x) auto
    then show ?thesis using Inr 7 by (cases ok) (auto simp: chain split_beta intro!: and_then_cong)
  qed (use 7 in simp)
qed (auto simp: chain split_beta split: option.splits intro!: and_then_cong)

text \<open>Patterns that a match leaves as they were: all their wildcards are in lists of values, which the match copies.\<close>

fun reusable :: "pattern_object \<Rightarrow> bool" where
  "reusable (Plain p) = True"
| "reusable (Any_object to saved) = False"
| "reusable (Tuple_object os) = (\<forall>p\<in>set os. reusable p)"
| "reusable (Value_list os) = True"
| "reusable (Pointer_list os) = (\<forall>p\<in>set os. reusable p)"

lemma reusable_unchanged:
  "\<lbrakk>reusable p; match_object pf alive p s = Inr (r, p')\<rbrakk> \<Longrightarrow> p' = p"
  "\<lbrakk>\<forall>p\<in>set ps. reusable p; match_objects pf alive ps s = Inr (r, ps')\<rbrakk> \<Longrightarrow> ps' = ps"
proof (induction pf alive p s and pf alive ps s arbitrary: r p' and r ps' rule: match_object_match_objects.induct)
  case (7 pf alive p ps s)
  then show ?case by (fastforce simp: and_then_Inr_iff split: if_splits prod.splits)
qed (auto simp: and_then_Inr_iff split: if_splits prod.splits option.splits)

section \<open>A pattern that is used again\<close>

text \<open>A message \<open>{a, v}\<close>, and the pattern \<open>{a, any(&x)}\<close> of the example in \<open>tinch_pp/erl_any.h\<close>.\<close>

definition tagged :: "string \<Rightarrow> obj \<Rightarrow> obj" where
  "tagged a v = E_tuple [E_atom (Val a), v]"

definition tagged_any :: "string \<Rightarrow> target \<Rightarrow> msg_seq \<Rightarrow> pattern_object" where
  "tagged_any a to saved = Tuple_object [Plain (E_atom (Val a)), Any_object to saved]"

context spirit begin

lemma match_tagged:
  assumes "wf_atom a" and "wf_value pf v" and "\<not> has_list v"
  shows "match_object pf alive (tagged_any a to saved) (serialize pf (tagged a v) @ s) =
    and_then (reset_target alive to (saved @ serialize pf v)) (\<lambda>w.
      Inr ((True, s, w), tagged_any a to (saved @ serialize pf v)))"
proof -
  have any: "any_match pf (Suc (length (serialize pf v @ s))) (serialize pf v @ s) saved = Inr (True, s, saved @ serialize pf v)"
    using any_agrees [OF assms(2,3), of "Suc (length (serialize pf v @ s))" s saved] by simp
  have atom: "match_obj pf (E_atom (Val a)) (serialize pf (E_atom (Val a)) @ t) = Inr (True, t, [])" for t
    using match_refines [of "E_atom (Val a)" "E_atom (Val a)" t] assms(1) by (simp add: agrees_def spec_mode_def)
  have "serialize pf (tagged a v) @ s =
      small_tuple_head_g pf 2 @ serialize pf (E_atom (Val a)) @ serialize pf v @ s"
    by (simp add: tagged_def numeral_2_eq_2)
  moreover have "small_tuple_head_ext pf (small_tuple_head_g pf 2 @ t) = Some (2, t)" for t
    by simp
  ultimately show ?thesis
    using any atom by (simp add: tagged_any_def split_beta and_then_assoc del: any_match.simps match_obj.simps serialize.simps)
qed

lemma matched_in_turn:
  assumes "wf_atom a" and "\<forall>v\<in>set vs. wf_value pf v \<and> \<not> has_list v"
  shows "match_in_turn pf alive (tagged_any a (To_variable x) saved) (map (\<lambda>v. serialize pf (tagged a v)) vs) =
    Inr (map (\<lambda>i. (True, [(x, Bound_matchable (saved @ concat (map (serialize pf) (take (Suc i) vs))))])) [0..<length vs],
         tagged_any a (To_variable x) (saved @ concat (map (serialize pf) vs)))"
  using assms(2)
proof (induction vs arbitrary: saved)
  case (Cons v vs)
  then have "match_object pf alive (tagged_any a (To_variable x) saved) (serialize pf (tagged a v)) =
      Inr ((True, [], [(x, Bound_matchable (saved @ serialize pf v))]), tagged_any a (To_variable x) (saved @ serialize pf v))"
    using match_tagged [OF assms(1), of v alive "To_variable x" saved "[]"] by (simp add: reset_target_def)
  moreover note Cons.IH [of "saved @ serialize pf v"]
  ultimately show ?case
    using Cons.prems by (simp add: upt_conv_Cons map_Suc_upt [symmetric] comp_def del: upt_Suc)
qed simp

end

section \<open>Properties\<close>

text \<open>C29. A pattern object, made of tuples, lists and wildcards in any way and of temporaries that still exist, matches
  the first message, and every later message too if all its wildcards are elements of lists of values, as
  \<open>spec_match\<close> matches the term as a tree: it answers the same, and on a match it makes the same assignments. The
  pattern contains no string and its wildcards stand for subterms without lists. A pattern with another
  wildcard cannot be used twice, as the next property shows.\<close>

theorem pattern_object_correct:
  assumes "spirit pf" and "unused alive p" and "reusable p \<or> length us \<le> 1" and "no_string (pattern_of p)"
    and "\<forall>u\<in>set us. wf_value pf u \<and> wildcards_fit (pattern_of p) u"
  shows "\<exists>rs p'. match_in_turn pf alive p (map (serialize pf) us) = Inr (rs, p') \<and>
    list_all2 (\<lambda>u (ok, w). case spec_match pf (pattern_of p) u of None \<Rightarrow> \<not> ok | Some w' \<Rightarrow> ok \<and> w = w') us rs"
  using assms(3,5)
proof (induction us)
  case (Cons u us)
  have "agrees (match_obj pf (pattern_of p) (serialize pf u)) (spec_match pf (pattern_of p) u) []"
    using spirit.match_refines [OF assms(1) _ assms(4), of u "[]"] Cons.prems(2) by simp
  then obtain ok s w p' where m: "match_object pf alive p (serialize pf u) = Inr ((ok, s, w), p')"
    "case spec_match pf (pattern_of p) u of None \<Rightarrow> \<not> ok | Some w' \<Rightarrow> ok \<and> w = w'"
    unfolding unused_match(1) [OF assms(2)]
    by (cases "match_object pf alive p (serialize pf u)") (auto simp: agrees_def split: option.splits)
  have rest: "us = [] \<or> p' = p" using Cons.prems(1) reusable_unchanged(1) [OF _ m(1)] by auto
  from Cons obtain rs p'' where "match_in_turn pf alive p (map (serialize pf) us) = Inr (rs, p'')"
    "list_all2 (\<lambda>u (ok, w). case spec_match pf (pattern_of p) u of None \<Rightarrow> \<not> ok | Some w' \<Rightarrow> ok \<and> w = w') us rs"
    by auto
  then show ?case using m rest by (auto simp del: match_object.simps serialize.simps)
qed simp

theorem pattern_object_correct_witness:
  "\<exists>rs p'. match_in_turn documented_platform [5] (Value_list [Tuple_object [default_any 5, assigning_any 0]])
      (map (serialize documented_platform) [E_list [E_tuple [E_int (Val 1), E_atom (Val ''b'')]], E_list [E_tuple [E_int (Val 2), E_int (Val 3)]]]) =
      Inr (rs, p') \<and>
    list_all2 (\<lambda>u (ok, w). case spec_match documented_platform (E_list [E_tuple [Any None, Any (Some 0)]]) u of
        None \<Rightarrow> \<not> ok | Some w' \<Rightarrow> ok \<and> w = w')
      [E_list [E_tuple [E_int (Val 1), E_atom (Val ''b'')]], E_list [E_tuple [E_int (Val 2), E_int (Val 3)]]] rs"
proof -
  let ?p = "Value_list [Tuple_object [default_any 5, assigning_any 0]]"
  have p: "pattern_of ?p = E_list [E_tuple [Any None, Any (Some 0)]]" "unused [5] ?p" "reusable ?p"
    by (simp_all add: default_any_def assigning_any_def)
  show ?thesis
    unfolding p(1) [symmetric]
    by (rule pattern_object_correct [OF doc.spirit_axioms p(2)])
      (use p(3) in \<open>simp_all add: p(1) wf_atom_def default_any_def assigning_any_def\<close>)
qed



text \<open>A pattern that is kept in a variable: the \<open>any()\<close> it was built from was a temporary, and its copy in the
  pattern still points to the placeholder of the temporary. The match of a message that reaches the wildcard
  is undefined behaviour, where the same pattern written inside the call of \<open>match\<close> succeeds.\<close>

theorem stored_wildcard_dangles:
  assumes "spirit pf" and "wf_atom a" and "wf_value pf v" and "\<not> has_list v"
  shows "match_object pf alive (Tuple_object [Plain (E_atom (Val a)), default_any t]) (serialize pf (tagged a v)) =
    (if t \<in> set alive then Inr ((True, [], []), tagged_any a (To_placeholder t) (serialize pf v)) else Inl Undefined_behaviour)"
  using spirit.match_tagged [OF assms, of alive "To_placeholder t" "[]" "[]"]
  by (simp add: tagged_any_def default_any_def reset_target_def del: match_object.simps serialize.simps)

end
