(* ===== verification/Write_Race.thy ===== *)
theory Write_Race
  imports Handshake
begin

text \<open>
  The write queue of a connection between threads. \<open>trigger_write\<close> of \<open>impl/node_async_tcp_ip.cpp\<close> runs in the
  thread of the client that requests something, \<open>checked_write\<close> in the I/O thread, and no mutex protects the queue they
  share. In \<open>Connection\<close> a call of \<open>trigger_write\<close> is one step; here it is the three steps between which
  another thread can run: the check whether the queue is empty, the insertion, and the start of the write. Each
  of them is taken to be atomic, which is more than the language promises for unprotected data.
\<close>

section \<open>The steps of a write\<close>

text \<open>Where a thread is inside \<open>trigger_write\<close>, with its local variable \<open>write_in_progress\<close>.\<close>

datatype stage = Checked bool | Pushed bool

text \<open>
  The connection, the number of calls of \<open>async_write\<close> that have not completed, and the threads inside
  \<open>trigger_write\<close>, each with its message.
\<close>

record write_race =
  link_of :: node_connection
  flights :: nat
  inside :: "nat \<Rightarrow> (msg_seq \<times> stage) option"

definition check_queue :: "nat \<Rightarrow> msg_seq \<Rightarrow> write_race \<Rightarrow> write_race" where
  "check_queue t msg s = s\<lparr>inside := (inside s)(t \<mapsto> (msg, Checked (write_queue (link_of s) \<noteq> [])))\<rparr>"

definition push_message :: "nat \<Rightarrow> msg_seq \<Rightarrow> bool \<Rightarrow> write_race \<Rightarrow> write_race" where
  "push_message t msg write_in_progress s =
     s\<lparr>link_of := link_of s\<lparr>write_queue := write_queue (link_of s) @ [(msg, Ignore_write_notification)]\<rparr>,
       inside := (inside s)(t \<mapsto> (msg, Pushed write_in_progress))\<rparr>"

definition start_write :: "nat \<Rightarrow> bool \<Rightarrow> write_race \<Rightarrow> write_race" where
  "start_write t write_in_progress s =
     (if write_in_progress then s\<lparr>inside := (inside s)(t := None)\<rparr>
      else s\<lparr>link_of := async_write_front (link_of s), flights := flights s + 1, inside := (inside s)(t := None)\<rparr>)"

text \<open>The completion of a write, which starts the next one while there is one.\<close>

definition complete_write :: "string option \<Rightarrow> write_race \<Rightarrow> write_race \<times> cpp_error option" where
  "complete_write err s =
     (case checked_write err (link_of s) of
        (c, e) \<Rightarrow>
          let f = flights s - 1 + (if err = None \<and> write_queue c \<noteq> [] then 1 else 0)
          in (s\<lparr>link_of := c\<lparr>write_in_flight := 0 < f\<rparr>, flights := f\<rparr>, e))"

datatype write_event =
    Check nat msg_seq | Push nat | Start nat | Complete | Fail string | Input conn_event

text \<open>A read that is handled may write as well; as it is the I/O thread that does so, it is one step.\<close>

inductive write_step :: "conn_env \<Rightarrow> write_race \<Rightarrow> write_event \<Rightarrow> write_race \<Rightarrow> bool" for env where
  checks: "inside s t = None \<Longrightarrow> write_step env s (Check t msg) (check_queue t msg s)"
| pushes: "inside s t = Some (msg, Checked busy) \<Longrightarrow> write_step env s (Push t) (push_message t msg busy s)"
| starts: "\<lbrakk>inside s t = Some (msg, Pushed busy); busy \<or> write_queue (link_of s) \<noteq> []\<rbrakk>
   \<Longrightarrow> write_step env s (Start t) (start_write t busy s)"
| completes: "\<lbrakk>0 < flights s; complete_write None s = (s', None)\<rbrakk> \<Longrightarrow> write_step env s Complete s'"
| fails: "\<lbrakk>0 < flights s; complete_write (Some err) s = (s', e)\<rbrakk> \<Longrightarrow> write_step env s (Fail err) s'"
| inputs: "\<lbrakk>conn_step env (link_of s) e c; e = Read_done data \<or> e = Read_failed err\<rbrakk>
   \<Longrightarrow> write_step env s (Input e)
     (s\<lparr>link_of := c, flights := flights s + (length (started_writes c) - length (started_writes (link_of s)))\<rparr>)"

inductive write_run :: "conn_env \<Rightarrow> write_race \<Rightarrow> write_event list \<Rightarrow> write_race \<Rightarrow> bool" for env where
  start: "write_run env s [] s"
| snoc: "\<lbrakk>write_run env s es s'; write_step env s' e s''\<rbrakk> \<Longrightarrow> write_run env s (es @ [e]) s''"

lemmas write_defs = check_queue_def push_message_def start_write_def complete_write_def Let_def

text \<open>A call of \<open>trigger_write\<close> that no other thread comes between is the operation of \<open>Connection\<close>.\<close>

lemma uninterrupted_write:
  assumes "inside s t = None"
  shows "\<exists>s'. write_run env s [Check t msg, Push t, Start t] s' \<and>
    link_of s' = trigger_checked_write msg Ignore_write_notification (link_of s) \<and> inside s' = inside s"
proof -
  let ?busy = "write_queue (link_of s) \<noteq> []"
  let ?s1 = "check_queue t msg s" and ?s2 = "push_message t msg ?busy (check_queue t msg s)"
  have "write_run env s ((([] @ [Check t msg]) @ [Push t]) @ [Start t]) (start_write t ?busy ?s2)"
  proof (intro write_run.snoc)
    show "write_step env s (Check t msg) ?s1" using assms by (rule write_step.checks)
    show "write_step env ?s1 (Push t) ?s2" by (rule write_step.pushes) (simp add: write_defs)
    show "write_step env ?s2 (Start t) (start_write t ?busy ?s2)" by (rule write_step.starts) (simp_all add: write_defs)
  qed (rule write_run.start)
  moreover have "link_of (start_write t ?busy ?s2) = trigger_checked_write msg Ignore_write_notification (link_of s)"
    by (simp add: write_defs trigger_defs)
  moreover have "inside (start_write t ?busy ?s2) = inside s" using assms by (auto simp: write_defs fun_eq_iff)
  ultimately show ?thesis by auto
qed

section \<open>A lost wake-up\<close>

text \<open>Messages wait, no write is under way, and every thread on its way in believes that one is.\<close>

definition stuck :: "write_race \<Rightarrow> bool" where
  "stuck s \<longleftrightarrow> wedged (link_of s) \<and> flights s = 0 \<and>
     (\<forall>t msg st. inside s t = Some (msg, st) \<longrightarrow> st = Checked True \<or> st = Pushed True)"

lemma stuck_step:
  assumes "write_step env s e s'" and "stuck s"
  shows "stuck s' \<and> started_writes (link_of s') = started_writes (link_of s)"
  using assms
proof (induction rule: write_step.induct)
  case (inputs s e c data err)
  then have "stays_wedged (link_of s) c" using stays_wedged_step by blast
  then show ?case using inputs(3) by (auto simp: stuck_def stays_wedged_def)
qed (auto simp: stuck_def wedged_def write_defs split: if_splits)

lemma stuck_run: "write_run env s es s' \<Longrightarrow> stuck s \<Longrightarrow> stuck s' \<and> started_writes (link_of s') = started_writes (link_of s)"
  by (induction rule: write_run.induct) (auto dest: stuck_step)

text \<open>
  Two threads that both find the queue empty: the first message is started twice and the
  second never; the first completion removes the message that the other write still refers to, and the
  third completion finds nothing to remove.
\<close>

lemma double_start:
  assumes "write_queue (link_of s) = []" and "flights s = 0" and "inside s t = None" and "inside s u = None" and "t \<noteq> u"
  shows "\<exists>s'. write_run env s [Check t m1, Check u m2, Push t, Push u, Start t, Start u] s' \<and> flights s' = 2 \<and>
    started_writes (link_of s') = started_writes (link_of s) @ [m1, m1] \<and> map fst (write_queue (link_of s')) = [m1, m2]"
proof -
  let ?s1 = "check_queue t m1 s"
  let ?s2 = "check_queue u m2 ?s1"
  let ?s3 = "push_message t m1 False ?s2"
  let ?s4 = "push_message u m2 False ?s3"
  let ?s5 = "start_write t False ?s4"
  let ?s6 = "start_write u False ?s5"
  have "write_run env s (((((([] @ [Check t m1]) @ [Check u m2]) @ [Push t]) @ [Push u]) @ [Start t]) @ [Start u]) ?s6"
  proof (intro write_run.snoc)
    show "write_step env s (Check t m1) ?s1" using assms by (intro write_step.checks)
    show "write_step env ?s1 (Check u m2) ?s2" using assms by (intro write_step.checks) (simp add: write_defs)
    show "write_step env ?s2 (Push t) ?s3" using assms by (intro write_step.pushes) (simp add: write_defs)
    show "write_step env ?s3 (Push u) ?s4" using assms by (intro write_step.pushes) (simp add: write_defs)
    show "write_step env ?s4 (Start t) ?s5" using assms by (intro write_step.starts [where msg = m1]) (simp_all add: write_defs)
    show "write_step env ?s5 (Start u) ?s6" using assms by (intro write_step.starts [where msg = m2]) (simp_all add: write_defs)
  qed (rule write_run.start)
  then show ?thesis using assms by (intro exI [of _ ?s6]) (simp add: write_defs async_write_front_def)
qed

section \<open>Properties\<close>

text \<open>C32. A lost wake-up: a thread that requests something while the last write is under way can find the queue
  not empty, and insert its message after the I/O thread has taken the last one out and found
  nothing more to write. Nobody starts a write then, and nobody ever will: whatever happens afterwards, neither this
  message nor any later one is written, although the connection is healthy and no operation has failed.\<close>

theorem lost_wakeup:
  assumes "write_queue (link_of s) = [(m0, Ignore_write_notification)]" and "flights s = 1"
    and "\<forall>t. inside s t = None"
  shows "\<exists>s'. write_run env s [Check t msg, Complete, Push t, Start t] s' \<and> conn_state (link_of s') = conn_state (link_of s) \<and>
    (\<forall>es s''. write_run env s' es s'' \<longrightarrow>
       started_writes (link_of s'') = started_writes (link_of s) \<and> write_queue (link_of s'') \<noteq> [])"
proof -
  let ?s1 = "check_queue t msg s"
  obtain s2 where s2: "complete_write None ?s1 = (s2, None)" "write_queue (link_of s2) = []" "flights s2 = 0" "inside s2 = inside ?s1"
    "conn_state (link_of s2) = conn_state (link_of s)" "started_writes (link_of s2) = started_writes (link_of s)"
    using assms by (simp add: write_defs checked_write_def async_write_front_def)
  let ?s3 = "push_message t msg True s2" and ?s4 = "start_write t True (push_message t msg True s2)"
  have "write_run env s (((([] @ [Check t msg]) @ [Complete]) @ [Push t]) @ [Start t]) ?s4"
  proof (intro write_run.snoc)
    show "write_step env s (Check t msg) ?s1" using assms by (intro write_step.checks) simp
    show "write_step env ?s1 Complete s2" using assms s2(1) by (intro write_step.completes) (simp_all add: write_defs)
    show "write_step env s2 (Push t) ?s3" using assms s2(4) by (intro write_step.pushes) (simp add: write_defs)
    show "write_step env ?s3 (Start t) ?s4" by (intro write_step.starts [where msg = msg]) (simp_all add: write_defs)
  qed (rule write_run.start)
  moreover have "\<not> write_in_flight (link_of s2)"
    using s2(1,3) by (auto simp: complete_write_def Let_def split: prod.splits)
  then have "stuck ?s4" using assms(3) s2 by (auto simp: stuck_def wedged_def write_defs)
  moreover have "started_writes (link_of ?s4) = started_writes (link_of s)" "conn_state (link_of ?s4) = conn_state (link_of s)"
    using s2 by (simp_all add: write_defs)
  ultimately show ?thesis using stuck_run [of env ?s4] by (intro exI [of _ ?s4]) (auto simp: stuck_def wedged_def)
qed

definition writing_connection :: write_race where
  "writing_connection =
     \<lparr>link_of = trigger_checked_write [1] Ignore_write_notification
        ((create_connection None ''b@h'')\<lparr>conn_state := Connected, current_lexer := Connected_msgs\<rparr>),
      flights = 1, inside = (\<lambda>t. None)\<rparr>"

theorem lost_wakeup_witness:
  "\<forall>env. \<exists>s'. write_run env writing_connection [Check 7 [2], Complete, Push 7, Start 7] s' \<and>
    conn_state (link_of s') = Connected \<and>
    (\<forall>es s''. write_run env s' es s'' \<longrightarrow> started_writes (link_of s'') = [[1]] \<and> write_queue (link_of s'') \<noteq> [])"
proof
  fix env
  have "write_queue (link_of writing_connection) = [([1], Ignore_write_notification)]" "flights writing_connection = 1"
    "\<forall>t. inside writing_connection t = None" "conn_state (link_of writing_connection) = Connected"
    "started_writes (link_of writing_connection) = [[1]]"
    by (simp_all add: writing_connection_def create_connection_def trigger_defs)
  with lost_wakeup [OF this(1-3), of env 7 "[2]"]
  show "\<exists>s'. write_run env writing_connection [Check 7 [2], Complete, Push 7, Start 7] s' \<and>
    conn_state (link_of s') = Connected \<and>
    (\<forall>es s''. write_run env s' es s'' \<longrightarrow> started_writes (link_of s'') = [[1]] \<and> write_queue (link_of s'') \<noteq> [])" by simp
qed

end
