(* ===== verification/Last_Reference.thy ===== *)
theory Last_Reference
  imports Node
begin

text \<open>
  Who owns a mailbox while a message is delivered. The registries of a node hold weak pointers; \<open>receive_incoming\<close>
  of \<open>impl/actual_node.cpp\<close> takes \<open>mailboxes_lock\<close> and makes a strong pointer of the one it finds, so for that
  time the I/O thread is an owner beside the client. If the client lets go meanwhile, the I/O thread
  is the one that destroys the mailbox, when the pointer \<open>destination\<close> goes out of scope. That is before \<open>guard\<close> does, so the
  destructor of the mailbox (\<open>impl/actual_mailbox.cpp\<close>) runs with the lock held, and it wants the same lock.
\<close>

section \<open>Owners and the lock\<close>

text \<open>
  Where the I/O thread is: outside; inside \<open>receive_incoming\<close>, before and after the call of \<open>on_incoming\<close>;
  in the destructor of a mailbox, before and after \<open>close_links_for_local\<close>. In all places but the first it holds the lock.
\<close>

datatype io_thread =
    Outside
  | Delivering nat msg_seq
  | Leaving nat
  | Destroying e_pid string
  | Removing e_pid string

record ownership =
  node_of :: actual_node
  client_refs :: "nat list"
  io_thread :: io_thread

definition lock_held :: "ownership \<Rightarrow> bool" where
  "lock_held s \<longleftrightarrow> io_thread s \<noteq> Outside"

fun io_owns :: "io_thread \<Rightarrow> nat \<Rightarrow> bool" where
  "io_owns (Delivering b msg) a = (a = b)"
| "io_owns (Leaving b) a = (a = b)"
| "io_owns _ a = False"

text \<open>The end of the scope of \<open>destination\<close>: with other owners left only the count changes.\<close>

definition leave_scope :: "nat \<Rightarrow> ownership \<Rightarrow> ownership" where
  "leave_scope b s =
     (if 0 < client_refs s ! b then s\<lparr>io_thread := Outside\<rparr>
      else case mailbox_objects (node_of s) ! b of
        None \<Rightarrow> s\<lparr>io_thread := Outside\<rparr>
      | Some m \<Rightarrow>
          s\<lparr>node_of := node_of s\<lparr>mailbox_objects := (mailbox_objects (node_of s))[b := None]\<rparr>,
            io_thread := Destroying (own_pid m) (own_name m)\<rparr>)"

text \<open>
  A step of the I/O thread, or a client that creates a mailbox, copies a pointer to one, lets a pointer go, or receives. What
  needs the lock needs it free, the notification of a local link in \<open>close_links_for_local\<close>
  included; a client's destructor is one step. The last premise of \<open>removes\<close> is what cannot hold.
\<close>

inductive owner_step :: "conn_env \<Rightarrow> network \<Rightarrow> ownership \<Rightarrow> ownership \<Rightarrow> bool" for env net where
  finds: "\<lbrakk>\<not> lock_held s; fetch_by_pid (env_platform env) q (node_of s) = Some (Inr b, n)\<rbrakk>
   \<Longrightarrow> owner_step env net s (s\<lparr>node_of := n, io_thread := Delivering b msg\<rparr>)"
| fails: "\<lbrakk>\<not> lock_held s; fetch_by_pid (env_platform env) q (node_of s) = Some (Inl e, n)\<rbrakk>
   \<Longrightarrow> owner_step env net s (s\<lparr>node_of := n\<rparr>)"
| delivers: "io_thread s = Delivering b msg
   \<Longrightarrow> owner_step env net s (s\<lparr>node_of := in_mailbox b (on_incoming msg) (node_of s), io_thread := Leaving b\<rparr>)"
| leaves: "io_thread s = Leaving b \<Longrightarrow> owner_step env net s (leave_scope b s)"
| closes: "\<lbrakk>io_thread s = Destroying p name; \<forall>q\<in>set (fst (remove_links_from p (established_links (node_of s)))). is_remote q (node_of s);
     close_links_for_local env net p ''normal'' (node_of s) = Some (r, n)\<rbrakk>
   \<Longrightarrow> owner_step env net s (s\<lparr>node_of := n, io_thread := (case r of Inl e \<Rightarrow> Outside | Inr u \<Rightarrow> Removing p name)\<rparr>)"
| removes: "\<lbrakk>io_thread s = Removing p name; remove_mailbox p name (node_of s) = Some (r, n); \<not> lock_held s\<rbrakk>
   \<Longrightarrow> owner_step env net s (s\<lparr>node_of := n, io_thread := Outside\<rparr>)"
| creates: "\<lbrakk>\<not> lock_held s; create_mailbox (node_of s) = Some (Inr b, n)\<rbrakk>
   \<Longrightarrow> owner_step env net s (s\<lparr>node_of := n, client_refs := client_refs s @ [1]\<rparr>)"
| copies: "\<lbrakk>b < length (client_refs s); 0 < client_refs s ! b\<rbrakk>
   \<Longrightarrow> owner_step env net s (s\<lparr>client_refs := (client_refs s)[b := client_refs s ! b + 1]\<rparr>)"
| lets_go: "\<lbrakk>b < length (client_refs s); 1 < client_refs s ! b \<or> client_refs s ! b = 1 \<and> io_owns (io_thread s) b\<rbrakk>
   \<Longrightarrow> owner_step env net s (s\<lparr>client_refs := (client_refs s)[b := client_refs s ! b - 1]\<rparr>)"
| destroys: "\<lbrakk>b < length (client_refs s); client_refs s ! b = 1; \<not> lock_held s;
     destroy_mailbox env net False b (node_of s) = Some (r, n)\<rbrakk>
   \<Longrightarrow> owner_step env net s (s\<lparr>node_of := n, client_refs := (client_refs s)[b := 0]\<rparr>)"
| receives: "\<lbrakk>b < length (client_refs s); 0 < client_refs s ! b; mailbox_objects (node_of s) ! b = Some m; receive m = Some (r, m')\<rbrakk>
   \<Longrightarrow> owner_step env net s (s\<lparr>node_of := node_of s\<lparr>mailbox_objects := (mailbox_objects (node_of s))[b := Some m']\<rparr>\<rparr>)"

text \<open>A delivery during which the client keeps its pointer is \<open>receive_incoming\<close>, and gives the lock back.\<close>

lemma undisturbed_delivery:
  assumes "io_thread s = Outside" and "fetch_by_pid (env_platform env) q (node_of s) = Some (Inr b, n)" and "0 < client_refs s ! b"
  shows "\<exists>s'. (owner_step env net)\<^sup>*\<^sup>* s s' \<and> io_thread s' = Outside \<and>
    receive_incoming (env_platform env) msg q (node_of s) = Some (Inr (), node_of s')"
proof -
  let ?s1 = "s\<lparr>node_of := n, io_thread := Delivering b msg\<rparr>"
  let ?s2 = "?s1\<lparr>node_of := in_mailbox b (on_incoming msg) n, io_thread := Leaving b\<rparr>"
  have "owner_step env net s ?s1" using assms by (intro owner_step.finds) (simp_all add: lock_held_def)
  moreover have "owner_step env net ?s1 ?s2" using owner_step.delivers [of ?s1 b msg env net] by simp
  moreover have "owner_step env net ?s2 (leave_scope b ?s2)" by (rule owner_step.leaves) simp
  ultimately have "(owner_step env net)\<^sup>*\<^sup>* s (leave_scope b ?s2)"
    by (rule rtranclp.rtrancl_into_rtrancl [OF rtranclp.rtrancl_into_rtrancl [OF rtranclp.rtrancl_into_rtrancl [OF rtranclp.rtrancl_refl]]])
  then show ?thesis using assms by (intro exI [of _ "leave_scope b ?s2"]) (simp add: leave_scope_def receive_incoming_def op_defs)
qed

section \<open>The deadlock\<close>

text \<open>The I/O thread wants the lock that it holds, and so does whoever comes next.\<close>

lemma removing_forever:
  assumes "(owner_step env net)\<^sup>*\<^sup>* s s'" and "io_thread s = Removing p name"
  shows "io_thread s' = Removing p name \<and> mailboxes (node_of s') = mailboxes (node_of s) \<and>
    length (mailbox_objects (node_of s')) = length (mailbox_objects (node_of s))"
  using assms(1)
proof (induction rule: rtranclp_induct)
  case (step s' s'')
  from step.hyps(2) step.IH show ?case by (cases rule: owner_step.cases) (auto simp: lock_held_def)
qed (use assms(2) in simp)

section \<open>Properties\<close>

text \<open>C35. The last reference: when the client lets go of its mailbox, one without links, while the I/O thread delivers a
  message to it, the I/O thread destroys the mailbox inside \<open>receive_incoming\<close> and waits for ever for the
  lock that it holds. From then on nothing is delivered on this node, and no mailbox is created or destroyed.\<close>

theorem last_reference_deadlocks:
  assumes "io_thread s = Outside" and "alive_at (node_of s) q b" and "mailbox_objects (node_of s) ! b = Some m"
    and "b < length (client_refs s)" and "client_refs s ! b = 1"
    and "fst (remove_links_from (own_pid m) (established_links (node_of s))) = []"
  shows "\<exists>s'. (owner_step env net)\<^sup>*\<^sup>* s s' \<and> mailbox_objects (node_of s') ! b = None \<and>
    (\<forall>s''. (owner_step env net)\<^sup>*\<^sup>* s' s'' \<longrightarrow>
       io_thread s'' = Removing (own_pid m) (own_name m) \<and> lock_held s'' \<and> mailboxes (node_of s'') = mailboxes (node_of s') \<and>
       length (mailbox_objects (node_of s'')) = length (mailbox_objects (node_of s')))"
proof -
  let ?n = "in_mailbox b (on_incoming msg) (node_of s)"
  let ?n' = "?n\<lparr>mailbox_objects := (mailbox_objects ?n)[b := None]\<rparr>"
  let ?n'' = "?n'\<lparr>established_links := snd (remove_links_from (own_pid m) (established_links (node_of s)))\<rparr>"
  let ?s1 = "s\<lparr>io_thread := Delivering b msg\<rparr>" and ?s2 = "s\<lparr>node_of := ?n, io_thread := Leaving b\<rparr>"
  let ?s3 = "?s2\<lparr>client_refs := (client_refs s)[b := 0]\<rparr>"
  let ?s4 = "?s3\<lparr>node_of := ?n', io_thread := Destroying (own_pid m) (own_name m)\<rparr>"
  let ?s5 = "?s4\<lparr>node_of := ?n'', io_thread := Removing (own_pid m) (own_name m)\<rparr>"
  have b: "b < length (mailbox_objects (node_of s))" using assms(2) by (simp add: alive_at_def)
  have "owner_step env net s (s\<lparr>node_of := node_of s, io_thread := Delivering b msg\<rparr>)"
    using alive_at_fetch [OF assms(2)] assms(1) by (intro owner_step.finds) (simp_all add: lock_held_def)
  then have 1: "owner_step env net s ?s1" by simp
  have 2: "owner_step env net ?s1 ?s2" using owner_step.delivers [of ?s1 b msg env net] by simp
  have 3: "owner_step env net ?s2 ?s3" using owner_step.lets_go [of b ?s2 env net] assms(4,5) by simp
  have "leave_scope b ?s3 = ?s4"
    using assms(3,4) b by (simp add: leave_scope_def in_mailbox_def on_incoming_def notify_receive_def)
  then have 4: "owner_step env net ?s3 ?s4" using owner_step.leaves [of ?s3 b env net] by simp
  have "close_links_for_local env net (own_pid m) ''normal'' ?n' = Some (Inr (), ?n'')"
    using assms(6) by (simp add: close_links_for_local_def on_broken_links_def split_beta in_mailbox_def op_defs)
  then have 5: "owner_step env net ?s4 ?s5"
    using owner_step.closes [of ?s4 "own_pid m" "own_name m" env net "Inr ()" ?n''] assms(6) by (simp add: in_mailbox_def)
  note into = rtranclp.rtrancl_into_rtrancl [where r = "owner_step env net"]
  have "(owner_step env net)\<^sup>*\<^sup>* s ?s5" by (rule into [OF into [OF into [OF into [OF into [OF rtranclp.rtrancl_refl [where r = "owner_step env net"] 1] 2] 3] 4] 5])
  moreover have "mailbox_objects (node_of ?s5) ! b = None" using b by (simp add: in_mailbox_def)
  moreover note removing_forever [of env net ?s5]
  ultimately show ?thesis by (intro exI [of _ ?s5]) (auto simp: lock_held_def)
qed

text \<open>A node with one mailbox, for the example.\<close>

definition one_mailbox :: actual_node where
  "one_mailbox =
     (new_node ''b@h'')\<lparr>mailboxes := [(fst (make_pid (new_node ''b@h'')), 0)],
       mailbox_objects := [Some (new_mailbox (fst (make_pid (new_node ''b@h''))) '''')]\<rparr>"

theorem last_reference_deadlocks_witness:
  "\<forall>net. \<exists>s'. (owner_step sample_env net)\<^sup>*\<^sup>* \<lparr>node_of = one_mailbox, client_refs = [1], io_thread = Outside\<rparr> s' \<and>
    mailbox_objects (node_of s') ! 0 = None \<and> lock_held s'"
proof
  fix net
  let ?s = "\<lparr>node_of = one_mailbox, client_refs = [1], io_thread = Outside\<rparr>" and ?p = "fst (make_pid (new_node ''b@h''))"
  have "alive_at (node_of ?s) ?p 0" "mailbox_objects (node_of ?s) ! 0 = Some (new_mailbox ?p '''')"
    by (simp_all add: one_mailbox_def alive_at_def node_sims)
  moreover have "fst (remove_links_from (own_pid (new_mailbox ?p '''')) (established_links (node_of ?s))) = []"
    by (simp add: one_mailbox_def new_node_def)
  ultimately obtain s' where "(owner_step sample_env net)\<^sup>*\<^sup>* ?s s'" "mailbox_objects (node_of s') ! 0 = None"
    "\<forall>s''. (owner_step sample_env net)\<^sup>*\<^sup>* s' s'' \<longrightarrow> lock_held s''"
    using last_reference_deadlocks [of ?s ?p 0 "new_mailbox ?p ''''" sample_env net] by auto
  then show "\<exists>s'. (owner_step sample_env net)\<^sup>*\<^sup>* ?s s' \<and> mailbox_objects (node_of s') ! 0 = None \<and> lock_held s'" by blast
qed

end
