(* ===== verification/Pid_Race.thy ===== *)
theory Pid_Race
  imports Node
begin

text \<open>
  Two clients that create mailboxes at the same time. \<open>create_mailbox\<close> of \<open>impl/actual_node.cpp\<close> calls \<open>make_pid\<close>
  before it takes \<open>mailboxes_lock\<close>, so the counters of the pids are not protected. The steps that another thread can
  come between are the reading of the counters, their update, and the rest of the function, which has the lock.
\<close>

section \<open>The steps of a creation\<close>

definition insert_new :: "e_pid \<Rightarrow> nat node_op" where
  "insert_new p =
     then_do (new_object (new_mailbox p '''')) (\<lambda>a n.
       case insert_pid p a (mailboxes n) of
         Inl e \<Rightarrow> Some (Inl e, n)
       | Inr (added, ms) \<Rightarrow>
           if added then Some (Inr a, n\<lparr>mailboxes := ms\<rparr>)
           else Some (Inl Assert_failed, n))"

datatype creation_step = Read_counters e_pid | Updated_counters e_pid

record creating =
  shared_node :: actual_node
  creators :: "nat \<Rightarrow> creation_step option"

inductive creating_step :: "creating \<Rightarrow> nat result option \<Rightarrow> creating \<Rightarrow> bool" where
  reads: "creators s t = None
   \<Longrightarrow> creating_step s None (s\<lparr>creators := (creators s)(t \<mapsto> Read_counters (fst (make_pid (shared_node s))))\<rparr>)"
| updates: "creators s t = Some (Read_counters p)
   \<Longrightarrow> creating_step s None (s\<lparr>shared_node := update_pid_fields (shared_node s), creators := (creators s)(t \<mapsto> Updated_counters p)\<rparr>)"
| inserts: "\<lbrakk>creators s t = Some (Updated_counters p); insert_new p (shared_node s) = Some (r, n)\<rbrakk>
   \<Longrightarrow> creating_step s (Some r) (s\<lparr>shared_node := n, creators := (creators s)(t := None)\<rparr>)"

text \<open>A run, with the results of the calls that have returned.\<close>

inductive creating_run :: "creating \<Rightarrow> nat result list \<Rightarrow> creating \<Rightarrow> bool" where
  start: "creating_run s [] s"
| quiet: "\<lbrakk>creating_run s rs s'; creating_step s' None s''\<rbrakk> \<Longrightarrow> creating_run s rs s''"
| returns: "\<lbrakk>creating_run s rs s'; creating_step s' (Some r) s''\<rbrakk> \<Longrightarrow> creating_run s (rs @ [r]) s''"

lemma create_mailbox_steps: "create_mailbox n = insert_new (fst (make_pid n)) (update_pid_fields n)"
  by (simp add: create_mailbox_def insert_new_def make_pid_def)

text \<open>A creation that no other thread comes between is \<open>create_mailbox\<close>.\<close>

lemma uninterrupted_creation:
  assumes "creators s t = None" and "create_mailbox (shared_node s) = Some (r, n)"
  shows "creating_run s [r] (s\<lparr>shared_node := n\<rparr>)"
proof -
  let ?p = "fst (make_pid (shared_node s))"
  let ?s1 = "s\<lparr>creators := (creators s)(t \<mapsto> Read_counters ?p)\<rparr>"
  let ?s2 = "s\<lparr>shared_node := update_pid_fields (shared_node s), creators := (creators s)(t \<mapsto> Updated_counters ?p)\<rparr>"
  have "creating_step s None ?s1" using assms(1) by (rule creating_step.reads)
  moreover have "creating_step ?s1 None ?s2" using creating_step.updates [of ?s1 t ?p] by simp
  moreover have "creating_step ?s2 (Some r) (?s2\<lparr>shared_node := n, creators := (creators ?s2)(t := None)\<rparr>)"
    using assms(2) by (intro creating_step.inserts [where p = ?p]) (simp_all add: create_mailbox_steps)
  ultimately have "creating_run s ([] @ [r]) (?s2\<lparr>shared_node := n, creators := (creators ?s2)(t := None)\<rparr>)"
    by (rule creating_run.returns [OF creating_run.quiet [OF creating_run.quiet [OF creating_run.start]]])
  then show ?thesis using assms(1) by (simp add: fun_upd_idem)
qed

section \<open>Properties\<close>

text \<open>C34. Both threads read the counters before either updates them. They get the same pid; the creation that inserts second fails
  the assertion that it is new, and what is sent to the pid goes to the mailbox of the other thread.
\<close>

theorem same_pid_twice:
  assumes "creators s t = None" and "creators s u = None" and "t \<noteq> u"
    and "find_pid (fst (make_pid (shared_node s))) (mailboxes (shared_node s)) = Inr None"
  shows "\<exists>a s'. creating_run s [Inr a, Inl Assert_failed] s' \<and>
    find_pid (fst (make_pid (shared_node s))) (mailboxes (shared_node s')) = Inr (Some a)"
proof -
  let ?n = "shared_node s" and ?p = "fst (make_pid (shared_node s))"
  let ?n2 = "update_pid_fields (update_pid_fields ?n)" and ?a = "length (mailbox_objects ?n)"
  let ?s1 = "s\<lparr>creators := (creators s)(t \<mapsto> Read_counters ?p)\<rparr>"
  let ?s2 = "s\<lparr>creators := (creators s)(t \<mapsto> Read_counters ?p, u \<mapsto> Read_counters ?p)\<rparr>"
  let ?s3 = "s\<lparr>shared_node := update_pid_fields ?n, creators := (creators s)(t \<mapsto> Updated_counters ?p, u \<mapsto> Read_counters ?p)\<rparr>"
  let ?s4 = "s\<lparr>shared_node := ?n2, creators := (creators s)(t \<mapsto> Updated_counters ?p, u \<mapsto> Updated_counters ?p)\<rparr>"
  let ?n5 = "?n2\<lparr>mailbox_objects := mailbox_objects ?n @ [Some (new_mailbox ?p '''')], mailboxes := mailboxes ?n @ [(?p, ?a)]\<rparr>"
  let ?n6 = "?n5\<lparr>mailbox_objects := mailbox_objects ?n5 @ [Some (new_mailbox ?p '''')]\<rparr>"
  let ?s5 = "?s4\<lparr>shared_node := ?n5, creators := (creators ?s4)(t := None)\<rparr>"
  let ?s6 = "?s5\<lparr>shared_node := ?n6, creators := (creators ?s5)(u := None)\<rparr>"
  have ins: "insert_pid ?p ?a (mailboxes ?n) = Inr (True, mailboxes ?n @ [(?p, ?a)])"
    using assms(4) by (simp add: insert_pid_def)
  then have found: "find_pid ?p (mailboxes ?n @ [(?p, ?a)]) = Inr (Some ?a)" using insert_find by blast
  have 1: "creating_step s None ?s1" using assms(1) by (rule creating_step.reads)
  have 2: "creating_step ?s1 None ?s2" using creating_step.reads [of ?s1 u] assms by simp
  have 3: "creating_step ?s2 None ?s3" using creating_step.updates [of ?s2 t ?p] assms(3) by (simp add: fun_upd_twist)
  have 4: "creating_step ?s3 None ?s4" using creating_step.updates [of ?s3 u ?p] by simp
  have 5: "creating_step ?s4 (Some (Inr ?a)) ?s5"
    using assms(3) ins by (intro creating_step.inserts [where p = ?p]) (simp_all add: insert_new_def new_object_def op_defs)
  have "insert_pid ?p (Suc ?a) (mailboxes ?n @ [(?p, ?a)]) = Inr (False, mailboxes ?n @ [(?p, ?a)])"
    using found by (simp add: insert_pid_def)
  then have 6: "creating_step ?s5 (Some (Inl Assert_failed)) ?s6"
    using assms(3) by (intro creating_step.inserts [where p = ?p]) (simp_all add: insert_new_def new_object_def op_defs)
  have "creating_run s (([] @ [Inr ?a]) @ [Inl Assert_failed]) ?s6"
    by (rule creating_run.returns [OF creating_run.returns [OF creating_run.quiet [OF creating_run.quiet [OF creating_run.quiet
      [OF creating_run.quiet [OF creating_run.start 1] 2] 3] 4] 5] 6])
  then show ?thesis using found by (intro exI [of _ ?a] exI [of _ ?s6]) simp
qed

theorem same_pid_twice_witness:
  "\<exists>a s'. creating_run \<lparr>shared_node = new_node ''a@h'', creators = (\<lambda>t. None)\<rparr> [Inr a, Inl Assert_failed] s' \<and>
    find_pid (fst (make_pid (new_node ''a@h''))) (mailboxes (shared_node s')) = Inr (Some a)"
proof -
  have "find_pid (fst (make_pid (new_node ''a@h''))) (mailboxes (new_node ''a@h'')) = Inr None" by (simp add: node_sims)
  then show ?thesis using same_pid_twice [of "\<lparr>shared_node = new_node ''a@h'', creators = (\<lambda>t. None)\<rparr>" 1 2] by simp
qed

end
