(* ===== verification/Spec2Isabelle.thy ===== *)
theory Spec2Isabelle
  imports Rpc Closing Two_Nodes Connecting Pattern_Objects Write_Race Last_Reference Pid_Race
begin

text \<open>
  tinch++ lets a C++ program take part in an Erlang cluster as a node of its own: it registers at
  EPMD, performs the distribution handshake with other nodes, and then exchanges messages, links
  and exits between its mailboxes and remote processes. This library models the program's own code
  under \<open>src/impl\<close> and \<open>src/tinch_pp\<close> by executable definitions, from the bytes on the wire
  to the public operations, and proves what they guarantee.

  \<^bold>\<open>Parts and theories.\<close> The theories are listed from the bottom to the top; each holds the
  definitions of one part in the order of its source, its invariants and its properties.

  \<^item> \<open>Prelude\<close>: bytes, strings, big-endian numbers, the errors of the program as values (\<open>cpp_error\<close>,
    \<open>exceptions.cpp\<close>) and the sequencing of fallible operations.
  \<^item> \<open>Platform\<close>: what is not under \<open>src\<close>, as the record \<open>platform\<close> that the definitions take as an
    argument: the elementary parsers and generators of Boost.Spirit, number formatting, the
    signedness of \<open>char\<close>, values that are read uninitialized. The locale \<open>spirit\<close> states the
    documented behaviour of the elementary parsers and generators; it is interpreted on
    \<open>documented_platform\<close> and on \<open>signed_char_platform\<close>, on which the witnesses evaluate. Whether \<open>char\<close> is signed
    decides whether messages are understood: where it is, the dispatcher refuses every message
    (\<open>dispatch_refuses_all_signed_char\<close>), so the properties that follow a message into the other node assume that it is not.
  \<^item> \<open>Values\<close>: \<open>constants.cpp\<close>, \<open>types.h\<close>, \<open>types.cpp\<close> (pids, references, binaries).
  \<^item> \<open>Term_Grammar\<close>: \<open>ext_term_grammar.h\<close>, one definition per grammar, with round trips.
  \<^item> \<open>Terms\<close>: the terms and patterns of the API (\<open>erlang_value_types.cpp\<close>, \<open>erl_string.cpp\<close>,
    \<open>erl_any.cpp\<close>, \<open>erl_list.h\<close>, \<open>erl_tuple.h\<close> and the matchers). A match returns its answer, the
    advanced iterator and the assignments it made.
  \<^item> \<open>Pattern_Spec\<close>: matching of terms as trees, the specification, and that matching of
    bytes implements it for patterns without strings whose wildcards stand for subterms without lists
    (\<open>wildcards_fit\<close>); the two places where it does not.
  \<^item> \<open>Pattern_Objects\<close>: patterns as objects that are matched more than once; an \<open>any\<close> keeps the bytes it has matched, and
    a copy of it the pointer to the placeholder of the original. \<open>match_object\<close> is the code of \<open>match_obj\<close> with that state; it
    implements \<open>spec_match\<close> for the first message, and for every message if no wildcard keeps state (\<open>reusable\<close>).
  \<^item> \<open>Pattern_Types\<close>: the types of the variables of a pattern; assignment is type safe for every message.
  \<^item> \<open>Message_Builder\<close>, \<open>Dispatcher\<close>: \<open>ext_message_builder.cpp\<close>, the commands \<open>control_msg_*.h\<close> and
    \<open>control_msgs_impl.cpp\<close>, and \<open>ctrl_msg_dispatcher.cpp\<close>; a message that is built is dispatched to the call it encodes.
  \<^item> \<open>Lexer\<close>: \<open>msg_lexer\<close> of \<open>utils.cpp\<close>, which cuts a TCP stream into messages. The locale
    \<open>framing\<close> is what it needs of \<open>read_msg_size\<close>, with the relation \<open>cut\<close> as specification.
  \<^item> \<open>Mailbox\<close>: the receiving half of \<open>actual_mailbox.cpp\<close> under every interleaving of the I/O thread,
    the timer and the client.
  \<^item> \<open>Linker\<close>: \<open>linker.cpp\<close>; the locale \<open>link_registry\<close> is a set of unordered pairs, implemented by the list.
  \<^item> \<open>Md5\<close>: \<open>md5.cpp\<close> on 32-bit words, \<open>calculate_digest\<close> of \<open>utils.cpp\<close>; the buffered
    computation equals a one-pass definition after RFC 1321. The number of bytes of a piece is an \<open>int\<close> of 32
    bits; pieces are bounded by \<open>2 ^ 28\<close> bytes, beyond which the code shifts it out of range.
  \<^item> \<open>Handshake_Grammar\<close>: \<open>handshake_grammar.h\<close>, \<open>parse\<close> and \<open>generate\<close> of \<open>utils.h\<close>.
  \<^item> \<open>Connection\<close>, \<open>Handshake\<close>: \<open>node_connection_state.cpp\<close>, \<open>node_connection.cpp\<close>,
    \<open>node_async_tcp_ip.cpp\<close>, \<open>networker.h\<close>. A connection is a record, the state objects are a datatype, the
    callbacks that reads and writes carry are datatypes too; \<open>conn_step\<close> and \<open>conn_run\<close> are the completions
    of asynchronous operations in any order.
  \<^item> \<open>Channel\<close>, \<open>Session\<close>: two connections with the TCP stream between them, which hands over what has been written in pieces
    of any size. \<open>conversing\<close> is the invariant of two connected ends, \<open>session_inv\<close> that of a session from the
    first byte of the handshake on; \<open>session_work\<close> decreases until both ends are connected.
  \<^item> \<open>Epmd\<close>, \<open>Connector\<close>: \<open>epmd_protocol.h\<close>, \<open>epmd_requestor.cpp\<close>, \<open>node_connector.cpp\<close>, node names and
    \<open>connect_socket\<close> of \<open>utils.cpp\<close>. The network is the record \<open>network\<close>, and whether an acceptor can be bound to its port
    an argument; a connect that waits for ever is \<open>None\<close>.
  \<^item> \<open>Write_Race\<close>: the write queue of \<open>node_async_tcp_ip.cpp\<close> between threads, with \<open>trigger_write\<close> in the three steps
    that another thread can come between; uninterrupted they are the operation of \<open>Connection\<close>.
  \<^item> \<open>Connecting\<close>: \<open>node_connector.cpp\<close> again, as several threads use it: \<open>ask\<close> is what a caller does before its
    wait releases the mutex, \<open>wake\<close> what it does afterwards, \<open>report\<close> the callback of a handshake, and \<open>connecting_step\<close>
    interleaves them with the I/O thread. With one caller it is the sequential \<open>get_connection_to\<close>.
  \<^item> \<open>Registry\<close>: the maps by name and by pid of a node and of its connector; the locale \<open>registry\<close> is what
    their clients rely on, interpreted on both. A map by pid whose keys the comparison does not order is undefined behaviour.
  \<^item> \<open>Scope_Guard\<close>: the guard of \<open>ScopeGuard.h\<close> that \<open>create_mailbox\<close> uses, and that function when it runs out of memory.
  \<^item> \<open>Node\<close>, \<open>Node_Inv\<close>: \<open>actual_node.cpp\<close>, \<open>link_policies.cpp\<close>, the sending half of
    \<open>actual_mailbox.cpp\<close> and the notifications of \<open>linker.cpp\<close>. Mailbox objects are a list in which an
    expired object is \<open>None\<close>; the registries hold indices, as the code holds weak pointers.
    \<open>node_step\<close> is any call of a client, a peer or a timer, and \<open>node_inv\<close> what all of them keep.
  \<^item> \<open>Receiving\<close>: the calls of a connection on its node as a whole; \<open>routed\<close> is the view of a node as a router of events to
    its mailboxes, which every list of calls keeps to.
  \<^item> \<open>Node_Actions\<close>: every operation of a node as a sequence of labelled actions; what an action does to one connection of the
    node and what one mailbox sees of it.
  \<^item> \<open>Two_Nodes\<close>: two nodes with their clients and the session between them as one system. \<open>channel_of\<close> is its channel,
    every run of the system is one of \<open>Session\<close> (\<open>run_channel\<close>), and the runs of a channel in which one side asks are runs of the
    system (\<open>run_lifts\<close>).
  \<^item> \<open>Last_Reference\<close>: the owners of a mailbox during a delivery and the lock \<open>mailboxes_lock\<close>; a delivery during which the
    client keeps its pointer is \<open>receive_incoming\<close>.
  \<^item> \<open>Pid_Race\<close>: \<open>create_mailbox\<close> in the steps that another thread can come between, the counters of the pids being unprotected.
  \<^item> \<open>Closing\<close>: what linked processes are told when a mailbox closes. The locale \<open>notifier\<close> is what the loop
    of \<open>linker.cpp\<close> needs of \<open>request_exit\<close> and \<open>request_exit2\<close> (\<open>mailbox_controller_type.h\<close>), interpreted on both; the
    two dispatchers of \<open>link_policies.cpp\<close> provide it, and \<open>told\<close> is what mailboxes and connections have been given.
  \<^item> \<open>Rpc\<close>: \<open>rpc.cpp\<close>, \<open>type_makers.cpp\<close>.
  \<^item> This theory: properties that span the parts, from the sender's \<open>send\<close> to the receiver's \<open>receive\<close> and \<open>match\<close>,
    and a remote procedure call there and back.

  \<^bold>\<open>Non-termination, blocking and fuel.\<close> \<open>handle_new_condition\<close> of the lexer recurses for ever
  on one input, so it is a partial function into \<open>option\<close>; that the handshake lexer always
  returns is proved, and so is the input on which the connected lexer does not. The wildcard recurses on the
  nesting of a message; its fuel is one more than the length of the message, and it
  is proved that no match ever runs out of it. A \<open>receive\<close> that waits is \<open>None\<close>, and so is a wait for the
  result of a handshake.

  \<^bold>\<open>What the theorems show.\<close> A term that is sent is received and matches as the term it was
  (patterns, dispatch, lexer, mailbox, composed in \<open>sent_term_is_received\<close>); no message is lost,
  duplicated or given to another mailbox, on one node and, in \<open>messages_conserved\<close>, from the clients of one node to those of
  another with everything interleaved; a connection reaches the connected state only
  after its peer has proved that it knows the cookie, two honest nodes reach it in every fair run, however
  the stream is cut, and the commands that are then exchanged arrive in order; a handshake has one outcome, and a thread
  that waits for a connection alone gets a connected one; links are
  symmetric, and a dying process is reported to each of its links exactly once, on this node or another; what a
  match assigns has the type of its variable, whatever the message. Other theorems state where the
  code does something else than it means to, each under the condition in which it happens; among
  them the inverted comparison of packed strings, the tail of a list that a wildcard leaves, the empty list that nothing matches, the
  length field that makes the lexer diverge, the mailbox that is a stack, the failed write after which nothing is written any more,
  the comparison of pids that is not an order, the thread that takes the outcome of another thread's handshake, the
  wildcard that remembers what it has matched, the wake-up that is lost in the write queue, and the last reference that is dropped under a lock.

  \<^bold>\<open>Not modelled.\<close> What sockets and the resolver of Boost.Asio do is a
  parameter; threads and mutexes appear as interleavings of the operations they protect, and of single steps in the
  theories \<open>Connecting\<close>, \<open>Write_Race\<close>, \<open>Last_Reference\<close> and \<open>Pid_Race\<close>; object
  lifetimes other than those of mailboxes and wildcards are not represented; what a failed Spirit parser leaves in its attribute is
  not represented; what the program does not use of the vendored \<open>ScopeGuard.h\<close> and \<open>RefToValue.h\<close>, the unused
  \<open>node_msg.h\<close>, the tests and the build files are left out. Running out of memory is represented where the code handles it, in \<open>create_mailbox\<close>. Floating-point formatting and comparison are platform parameters.
\<close>

section \<open>What the I/O thread does with the messages of a connection\<close>

text \<open>\<open>connected::msg_received\<close> for one message: what cannot be dispatched, and what the node throws, changes nothing else.\<close>

definition receive_message :: "platform \<Rightarrow> msg_seq \<Rightarrow> actual_node \<Rightarrow> actual_node" where
  "receive_message pf msg n =
     (case dispatch pf msg of
        Inl e \<Rightarrow> n
      | Inr c \<Rightarrow> (case perform pf c n of None \<Rightarrow> n | Some (_, n') \<Rightarrow> n'))"

lemma deliver_alive:
  assumes "alive_at n q b" and "mailbox_objects n ! b = Some m"
  shows "perform pf (Deliver_to_pid msg q) n = Some (Inr (), in_mailbox b (on_incoming msg) n)"
    and "alive_at (in_mailbox b (on_incoming msg) n) q b"
    and "mailbox_objects (in_mailbox b (on_incoming msg) n) ! b = Some (on_incoming msg m)"
  using alive_at_fetch [OF assms(1)] assms
  by (simp_all add: receive_incoming_def op_defs in_mailbox_def alive_at_def)

lemma deliver_all:
  assumes "alive_at n q b" and "mailbox_objects n ! b = Some m"
  shows "\<exists>n'. perform_all pf (map (\<lambda>msg. Deliver_to_pid msg q) ms) n = Some n' \<and>
    mailbox_objects n' ! b = Some (fold on_incoming ms m)"
  using assms
proof (induction ms arbitrary: n m)
  case (Cons msg ms)
  note d = deliver_alive [OF Cons.prems, where msg = msg]
  from Cons.IH [OF d(2,3)] show ?case using d(1) by (simp del: perform.simps)
qed simp

lemma exit_alive:
  assumes "alive_at n q b"
  shows "\<exists>n' m. perform pf (Request_exit2 p q reason) n = Some (Inr (), n') \<and>
    mailbox_objects n' ! b = Some m \<and> (reason, p) \<in> set (broken_links m) \<and>
    {p, q} \<notin> linked_pids (established_links n')"
  using incoming_exit_alive [OF assms, of pf p reason] assms
  by (auto simp: incoming_exit2_def linker.linked_del alive_at_def after_exit_def in_mailbox_def on_link_broken_def
      notify_receive_def)

text \<open>A receiving node with one mailbox, for the examples.\<close>

definition sample_pid :: e_pid where
  "sample_pid = fst (make_pid (new_node ''b@h''))"

definition sample_receiver :: actual_node where
  "sample_receiver =
     (new_node ''b@h'')\<lparr>mailboxes := [(sample_pid, 0)], mailbox_objects := [Some (new_mailbox sample_pid '''')]\<rparr>"

lemma sample_receiver:
  "alive_at sample_receiver sample_pid 0" "mailbox_objects sample_receiver ! 0 = Some (new_mailbox sample_pid '''')"
  "broken_links (new_mailbox sample_pid '''') = []" "received_msgs (new_mailbox sample_pid '''') = []"
  "wf_pid sample_pid" "idle_connection connected_node (node_name sample_pid) 0"
  using connected_node_idle
  by (simp_all add: sample_receiver_def sample_pid_def alive_at_def node_sims new_mailbox_def wf_pid_def wf_atom_def)

section \<open>Properties of the whole\<close>

text \<open>C1. From one node to the other: a term sent to a pid over an established, idle connection is one message
  on the wire; the receiving node, on a platform with an unsigned \<open>char\<close>, dispatches it to the mailbox of that pid. If
  no broken link is waiting there, the next receive returns the bytes of the term, and every pattern without
  strings whose wildcards stand for subterms without lists matches them as it matches the term itself.\<close>

theorem sent_term_is_received:
  assumes "spirit (env_platform env)" and "\<not> char_is_signed (env_platform env)"
    and "idle_connection nA (node_name to) i" and "wf_pid to" and "wf_value (env_platform env) v"
    and "alive_at nB to b" and "mailbox_objects nB ! b = Some m" and "broken_links m = []"
    and "no_string p" and "wildcards_fit p v"
  shows "\<exists>nA' msg call nB' m' m''. mailbox_send env net to v nA = Some (Inr (), nA') \<and>
    written_to nA' i = written_to nA i @ [msg] \<and>
    dispatch (env_platform env) msg = Inr call \<and> perform (env_platform env) call nB = Some (Inr (), nB') \<and>
    mailbox_objects nB' ! b = Some m' \<and> receive m' = Some (Inr (serialize (env_platform env) v), m'') \<and>
    agrees (match_obj (env_platform env) p (serialize (env_platform env) v)) (spec_match (env_platform env) p v) []"
proof -
  let ?pf = "env_platform env" and ?s = "serialize (env_platform env) v"
  have "dispatch ?pf (execute_connected ?pf (Control_msg_send ?s to)) = Inr (Deliver_to_pid ?s to)"
    using spirit.dispatch_outcome [OF assms(1), of "Control_msg_send ?s to"] assms(2,4) by (simp del: execute_connected.simps)
  moreover have "\<exists>m''. receive (on_incoming ?s m) = Some (Inr ?s, m'')"
    using assms(8) by (simp add: receive_cases on_incoming_def notify_receive_def)
  moreover have "agrees (match_obj ?pf p ?s) (spec_match ?pf p v) []"
    using spirit.match_refines [OF assms(1,5,9,10), of "[]"] by simp
  ultimately show ?thesis
    using request_idle [OF assms(3), of env net "Control_msg_send ?s to"] deliver_alive(1,3) [OF assms(6,7), where msg = ?s]
    unfolding mailbox_send_def deliver_def by blast
qed

theorem sent_term_is_received_witness:
  "\<forall>net. \<exists>nA' msg call nB' m' m''.
    mailbox_send sample_env net sample_pid (E_tuple [E_atom (Val ''hi''), E_int (Val 7)]) connected_node = Some (Inr (), nA') \<and>
    written_to nA' 0 = written_to connected_node 0 @ [msg] \<and>
    dispatch documented_platform msg = Inr call \<and> perform documented_platform call sample_receiver = Some (Inr (), nB') \<and>
    mailbox_objects nB' ! 0 = Some m' \<and>
    receive m' = Some (Inr (serialize documented_platform (E_tuple [E_atom (Val ''hi''), E_int (Val 7)])), m'') \<and>
    match_obj documented_platform (E_tuple [E_atom (Val ''hi''), E_int (Assign 0)])
      (serialize documented_platform (E_tuple [E_atom (Val ''hi''), E_int (Val 7)])) = Inr (True, [], [(0, Bound_int 7)])"
proof
  fix net
  let ?v = "E_tuple [E_atom (Val ''hi''), E_int (Val 7)]" and ?p = "E_tuple [E_atom (Val ''hi''), E_int (Assign 0)]"
  have "wf_value documented_platform ?v" "no_string ?p" "wildcards_fit ?p ?v" by (simp_all add: wf_atom_def)
  moreover have "spec_match documented_platform ?p ?v = Some [(0, Bound_int 7)]" by (simp add: spec_mode_def)
  ultimately show "\<exists>nA' msg call nB' m' m''. mailbox_send sample_env net sample_pid ?v connected_node = Some (Inr (), nA') \<and>
    written_to nA' 0 = written_to connected_node 0 @ [msg] \<and>
    dispatch documented_platform msg = Inr call \<and> perform documented_platform call sample_receiver = Some (Inr (), nB') \<and>
    mailbox_objects nB' ! 0 = Some m' \<and> receive m' = Some (Inr (serialize documented_platform ?v), m'') \<and>
    match_obj documented_platform ?p (serialize documented_platform ?v) = Inr (True, [], [(0, Bound_int 7)])"
    using sent_term_is_received [of sample_env connected_node sample_pid 0 ?v sample_receiver 0 "new_mailbox sample_pid ''''" ?p net]
      sample_env sample_receiver
    by (simp add: agrees_def del: match_obj.simps serialize.simps perform.simps)
qed



text \<open>Many messages, one mailbox: messages sent to a pid and read in pieces of any size are
  taken apart again, dispatched to that pid, and delivered without loss; they wait in the mailbox with the last one first.\<close>

theorem stream_fills_mailbox:
  assumes "spirit pf" and "\<not> char_is_signed pf" and "wf_pid q"
    and "\<forall>msg\<in>set ms. length (command_body pf (Control_msg_send msg q)) < 2 ^ 32 - 4"
    and "concat chunks = concat (map (\<lambda>msg. execute_connected pf (Control_msg_send msg q)) ms)" and "chunks \<noteq> []"
    and "alive_at n q b" and "mailbox_objects n ! b = Some m"
  shows "\<exists>l calls n' m'. add_all (read_msg_size_connected pf) new_lexer chunks = Some (Inr l) \<and> incomplete l = [] \<and>
    map (dispatch pf) (msgs l) = map Inr calls \<and> perform_all pf calls n = Some n' \<and>
    mailbox_objects n' ! b = Some m' \<and> received_msgs m' = rev ms @ received_msgs m"
proof -
  let ?cmds = "map (\<lambda>msg. Control_msg_send msg q) ms"
  have "add_all (read_msg_size_connected pf) new_lexer chunks =
      Some (Inr \<lparr>incomplete = [], msgs = map (execute_connected pf) ?cmds\<rparr>)"
    by (rule spirit.connected_stream [OF assms(1)]) (use assms(4-6) in \<open>simp_all add: comp_def del: execute_connected.simps\<close>)
  moreover have "map (dispatch pf) (map (execute_connected pf) ?cmds) = map Inr (map (\<lambda>msg. Deliver_to_pid msg q) ms)"
    using spirit.dispatch_outcome [OF assms(1), of "Control_msg_send _ q"] assms(2,3) by (simp del: execute_connected.simps)
  moreover obtain n' where "perform_all pf (map (\<lambda>msg. Deliver_to_pid msg q) ms) n = Some n'"
    "mailbox_objects n' ! b = Some (fold on_incoming ms m)"
    using deliver_all [OF assms(7,8)] by blast
  ultimately show ?thesis
    using received_after_burst(1) [of ms m]
    by (intro exI [of _ "\<lparr>incomplete = [], msgs = map (execute_connected pf) ?cmds\<rparr>"]
        exI [of _ "map (\<lambda>msg. Deliver_to_pid msg q) ms"] exI [of _ n'] exI [of _ "fold on_incoming ms m"] conjI)
      (simp_all only: msg_lexer.simps)
qed

theorem stream_fills_mailbox_witness:
  "\<exists>l calls n' m'. add_all (read_msg_size_connected documented_platform) new_lexer
      [take 5 (execute_connected documented_platform (Control_msg_send [97, 1] sample_pid)),
       drop 5 (execute_connected documented_platform (Control_msg_send [97, 1] sample_pid)) @
         execute_connected documented_platform (Control_msg_send [97, 2] sample_pid)] = Some (Inr l) \<and> incomplete l = [] \<and>
    map (dispatch documented_platform) (msgs l) = map Inr calls \<and> perform_all documented_platform calls sample_receiver = Some n' \<and>
    mailbox_objects n' ! 0 = Some m' \<and> received_msgs m' = [[97, 2], [97, 1]]"
proof -
  have body: "length (command_body documented_platform (Control_msg_send [97, b] sample_pid)) < 2 ^ 32 - 4" for b
    by (simp add: command_body_def add_message_header_def append_payload_def ctrl_int_def grammar_defs serialize_int_def
        sample_pid_def make_pid_def new_node_def)
  show ?thesis
    using stream_fills_mailbox [OF doc.spirit_axioms, of sample_pid "[[97, 1], [97, 2]]"
      "[take 5 (execute_connected documented_platform (Control_msg_send [97, 1] sample_pid)),
       drop 5 (execute_connected documented_platform (Control_msg_send [97, 1] sample_pid)) @
         execute_connected documented_platform (Control_msg_send [97, 2] sample_pid)]" sample_receiver 0 "new_mailbox sample_pid ''''"]
      body sample_receiver
    by (simp del: execute_connected.simps)
qed

text \<open>C14. Closing a mailbox whose only link is with a process of another node, reached over an established, idle
  connection, on platforms whose \<open>char\<close> is unsigned: the remote node is sent one message, which it dispatches as the exit of the process with the reason; the linked mailbox there learns
  of it, and the link is gone on both nodes.\<close>

theorem close_reaches_remote_link:
  assumes "spirit (env_platform env)" and "\<not> char_is_signed (env_platform env)"
    and "remove_links_from p (established_links nA) = ([q], ls)" and "is_remote q nA"
    and "idle_connection nA (node_name q) i" and "wf_pid p" and "wf_pid q" and "wf_atom reason"
    and "comparable (p # map fst (mailboxes nA))" and "alive_at nB q b"
  shows "\<exists>nA' msg call nB' m. close_mailbox_because env net p name reason nA = Some (Inr (), nA') \<and>
    written_to nA' i = written_to nA i @ [msg] \<and> {p, q} \<notin> linked_pids (established_links nA') \<and>
    find_pid p (mailboxes nA') = Inr None \<and>
    dispatch (env_platform env) msg = Inr call \<and> perform (env_platform env) call nB = Some (Inr (), nB') \<and>
    mailbox_objects nB' ! b = Some m \<and> (reason, p) \<in> set (broken_links m) \<and>
    {p, q} \<notin> linked_pids (established_links nB')"
proof -
  let ?cmd = "Control_msg_exit2 p q reason" and ?n = "nA\<lparr>established_links := ls\<rparr>"
  have "dispatch (env_platform env) (execute_connected (env_platform env) ?cmd) = Inr (Request_exit2 p q reason)"
    using spirit.dispatch_outcome [OF assms(1), of ?cmd] assms(2,6-8) by (simp del: execute_connected.simps)
  moreover have idle: "idle_connection ?n (node_name q) i" using assms(5) by (simp add: idle_connection_def)
  obtain s where s: "node_request env net ?cmd (node_name q) ?n = Some (Inr (), ?n\<lparr>connector := s\<rparr>)"
    "written_to (?n\<lparr>connector := s\<rparr>) i = written_to nA i @ [execute_connected (env_platform env) ?cmd]"
    using request_idle [OF idle, of env net ?cmd] by (auto simp: written_to_def simp del: execute_connected.simps)
  let ?n' = "nA\<lparr>established_links := ls, connector := s, mailboxes := filter (\<lambda>(q, _). \<not> equivalent q p) (mailboxes nA),
      registered_mailboxes := map_erase name (registered_mailboxes nA)\<rparr>"
  have "close_mailbox_because env net p name reason nA = Some (Inr (), ?n')"
    using assms(3,4,9) s(1) by (simp add: close_mailbox_because_def close_links_for_local_def on_broken_links_def op_defs
        link_operations_by_place is_remote_def remove_mailbox_def erase_pid_def)
  moreover have "{p, q} \<notin> linked_pids (established_links ?n')"
    using linker.linked_take [of p "established_links nA"] assms(3) by simp
  moreover have "find_pid p (mailboxes ?n') = Inr None" using erased_not_found [OF assms(9)] by simp
  moreover have "written_to ?n' i = written_to nA i @ [execute_connected (env_platform env) ?cmd]"
    using s(2) by (simp add: written_to_def del: execute_connected.simps)
  ultimately show ?thesis using exit_alive [OF assms(10), of "env_platform env" p reason] by blast
qed


theorem close_reaches_remote_link_witness:
  "\<forall>net. \<exists>nA' msg call nB' m.
    close_mailbox_because sample_env net default_e_pid '''' ''normal''
      (connected_node\<lparr>established_links := [(default_e_pid, sample_pid)]\<rparr>) = Some (Inr (), nA') \<and>
    written_to nA' 0 = written_to connected_node 0 @ [msg] \<and> {default_e_pid, sample_pid} \<notin> linked_pids (established_links nA') \<and>
    dispatch documented_platform msg = Inr call \<and> perform documented_platform call sample_receiver = Some (Inr (), nB') \<and>
    mailbox_objects nB' ! 0 = Some m \<and> (''normal'', default_e_pid) \<in> set (broken_links m)"
proof
  fix net
  let ?n = "connected_node\<lparr>established_links := [(default_e_pid, sample_pid)]\<rparr>"
  have "remove_links_from default_e_pid (established_links ?n) = ([sample_pid], [])" "is_remote sample_pid ?n"
    "idle_connection ?n (node_name sample_pid) 0" "wf_pid default_e_pid" "wf_atom ''normal''"
    "comparable (default_e_pid # map fst (mailboxes ?n))" "written_to ?n 0 = written_to connected_node 0"
    using sample_receiver(6)
    by (simp_all add: is_remote_def sample_pid_def connected_node_def node_sims wf_pid_def wf_atom_def default_e_pid_def
        idle_connection_def written_to_def)
  then show "\<exists>nA' msg call nB' m.
    close_mailbox_because sample_env net default_e_pid '''' ''normal'' ?n = Some (Inr (), nA') \<and>
    written_to nA' 0 = written_to connected_node 0 @ [msg] \<and> {default_e_pid, sample_pid} \<notin> linked_pids (established_links nA') \<and>
    dispatch documented_platform msg = Inr call \<and> perform documented_platform call sample_receiver = Some (Inr (), nB') \<and>
    mailbox_objects nB' ! 0 = Some m \<and> (''normal'', default_e_pid) \<in> set (broken_links m)"
    using close_reaches_remote_link [OF sample_env(1,2), of default_e_pid ?n sample_pid "[]" 0 "''normal''" sample_receiver 0 net "''''"]
      sample_receiver(1,5) unfolding sample_env(3) by metis
qed

text \<open>C22. A remote procedure call, there and back, on platforms whose \<open>char\<close> is unsigned: over an established, idle connection the
  call writes one message, which the remote node dispatches to its process \<open>rex\<close> with the term \<open>{Self, {call, Module, Function, Arguments, user}}\<close>;
  when the answer \<open>{rex, Term}\<close> to that pid arrives while the caller waits, the call returns exactly the term,
  also when older messages wait in the mailbox. This needs a mailbox in use in which no broken link is waiting, which would be
  thrown instead, and a term without lists, since the wildcard that takes the term leaves the end of a list unread (\<open>Rpc\<close>).\<close>

theorem rpc_round_trip:
  assumes "spirit (env_platform env)" and "\<not> char_is_signed (env_platform env)"
    and "idle_connection n remote_node i" and "alive_at n (own_pid mbox) a" and "mailbox_objects n ! a = Some mbox"
    and "wf_pid (own_pid mbox)" and "broken_links mbox = []" and "wf_value (env_platform env) v" and "\<not> has_list v"
  shows "\<exists>n' request.
    blocking_rpc env net (receive_message (env_platform env) (execute_connected (env_platform env)
        (Control_msg_send (serialize (env_platform env) (E_tuple [make_atom ''rex'', v])) (own_pid mbox))))
      a remote_node remote_fn arguments n = Some (Inr (serialize (env_platform env) v), n') \<and>
    written_to n' i = written_to n i @ [request] \<and>
    dispatch (env_platform env) request =
      Inr (Deliver_to_name (serialize (env_platform env) (rpc_call (own_pid mbox) remote_fn arguments)) ''rex'')"
proof -
  let ?pf = "env_platform env" and ?self = "own_pid mbox"
  let ?req = "Control_msg_reg_send (serialize ?pf (rpc_call ?self remote_fn arguments)) ''rex'' ?self"
  let ?ans = "serialize ?pf (E_tuple [make_atom ''rex'', v])"
  obtain s where s: "do_rpc env net mbox remote_node remote_fn arguments n = Some (Inr (), n\<lparr>connector := s\<rparr>)"
    "written_to (n\<lparr>connector := s\<rparr>) i = written_to n i @ [execute_connected ?pf ?req]"
    using request_idle [OF assms(3), of env net ?req]
    by (auto simp: do_rpc_def mailbox_send_to_def deliver_registered_def simp del: execute_connected.simps)
  have dispatched: "dispatch ?pf (execute_connected ?pf c) = Inr (call_of c)" if "wf_command c" for c
    using spirit.dispatch_outcome assms(1,2) that by blast
  have "alive_at (n\<lparr>connector := s\<rparr>) ?self a" "mailbox_objects (n\<lparr>connector := s\<rparr>) ! a = Some mbox"
    using assms(4,5) by (simp_all add: alive_at_def)
  note d = deliver_alive [OF this, where msg = ?ans]
  let ?n = "in_mailbox a (on_incoming ?ans) (n\<lparr>connector := s\<rparr>)"
  have io: "receive_message ?pf (execute_connected ?pf (Control_msg_send ?ans ?self)) (n\<lparr>connector := s\<rparr>) = ?n"
    using dispatched [of "Control_msg_send ?ans ?self"] d(1) assms(6)
    by (simp add: receive_message_def del: execute_connected.simps serialize.simps perform.simps)
  obtain m where m: "receive (on_incoming ?ans mbox) = Some (Inr ?ans, m)"
    using assms(7) by (auto simp: receive_cases on_incoming_def notify_receive_def)
  have reply: "receive_rpc_reply ?pf (Inr ?ans) remote_node remote_fn = Inr (serialize ?pf v)"
    using spirit.reply_matched [OF assms(1) spirit.any_agrees [OF assms(1,8,9), of "Suc (length (serialize ?pf v))" "[]" "[]",
        unfolded append_Nil append_Nil2, OF lessI]]
    by (simp add: make_atom_def numeral_2_eq_2)
  let ?n' = "?n\<lparr>mailbox_objects := (mailbox_objects ?n)[a := Some m]\<rparr>"
  have "blocking_rpc env net (receive_message ?pf (execute_connected ?pf (Control_msg_send ?ans ?self)))
      a remote_node remote_fn arguments n = Some (Inr (serialize ?pf v), ?n')"
    using s(1) io d(3) m reply assms(5)
    by (simp add: blocking_rpc_def then_do_def Let_def del: execute_connected.simps serialize.simps)
  moreover have "written_to ?n' i = written_to n i @ [execute_connected ?pf ?req]"
    using s(2) by (simp add: written_to_def in_mailbox_def del: execute_connected.simps)
  moreover have "dispatch ?pf (execute_connected ?pf ?req) =
      Inr (Deliver_to_name (serialize ?pf (rpc_call ?self remote_fn arguments)) ''rex'')"
    using dispatched [of ?req] assms(6) by (simp add: wf_atom_def del: execute_connected.simps)
  ultimately show ?thesis by blast
qed

theorem rpc_round_trip_witness:
  "\<forall>net. \<exists>n' request.
    blocking_rpc sample_env net (receive_message documented_platform (execute_connected documented_platform
        (Control_msg_send (serialize documented_platform (E_tuple [make_atom ''rex'', E_int (Val 5)])) default_e_pid)))
      0 ''b@h'' (''m'', ''f'') [make_int 2] (connected_node\<lparr>mailboxes := [(default_e_pid, 0)],
        mailbox_objects := [Some (new_mailbox default_e_pid '''')]\<rparr>) = Some (Inr (serialize documented_platform (E_int (Val 5))), n') \<and>
    dispatch documented_platform request = Inr (Deliver_to_name
      (serialize documented_platform (rpc_call default_e_pid (''m'', ''f'') [make_int 2])) ''rex'')"
proof
  fix net
  let ?m = "new_mailbox default_e_pid ''''"
  let ?n = "connected_node\<lparr>mailboxes := [(default_e_pid, 0)], mailbox_objects := [Some ?m]\<rparr>"
  have m: "own_pid ?m = default_e_pid" "broken_links ?m = []" by (simp_all add: new_mailbox_def)
  have "idle_connection ?n ''b@h'' 0" using connected_node_idle by (simp add: idle_connection_def)
  moreover have "alive_at ?n (own_pid ?m) 0" "mailbox_objects ?n ! 0 = Some ?m" "wf_pid (own_pid ?m)"
    unfolding m by (simp_all add: alive_at_def find_pid_def comparable_def pid_less_def equivalent_def wf_pid_def wf_atom_def default_e_pid_def)
  ultimately show "\<exists>n' request.
    blocking_rpc sample_env net (receive_message documented_platform (execute_connected documented_platform
        (Control_msg_send (serialize documented_platform (E_tuple [make_atom ''rex'', E_int (Val 5)])) default_e_pid)))
      0 ''b@h'' (''m'', ''f'') [make_int 2] ?n = Some (Inr (serialize documented_platform (E_int (Val 5))), n') \<and>
    dispatch documented_platform request = Inr (Deliver_to_name
      (serialize documented_platform (rpc_call default_e_pid (''m'', ''f'') [make_int 2])) ''rex'')"
    using rpc_round_trip [OF sample_env(1,2), of ?n "''b@h''" 0 ?m 0 "E_int (Val 5)" net "(''m'', ''f'')" "[make_int 2]"] m(2)
    unfolding m(1) sample_env(3) by fastforce
qed

end
